(* ===== verification/Prelude.thy ===== *)
theory Prelude
  imports Main "HOL-Library.Sublist"
begin

section \<open>Shared types, Python's string and number operations, tables\<close>

text \<open>
  What every component of the portal uses: instants and time spans, HTTP refusals, the
  operations of Python's \<open>str\<close> and \<open>int\<close> that the code calls, and tables as lists of
  rows.  The lemmas about them are collected in \<open>py_simps\<close> (strings and numbers) and
  \<open>table_simps\<close> (rows), so that the component proofs can name the collection.

  Instants are whole microseconds of UTC, Python's own resolution: every datetime of the
  portal is stored in a \<open>timestamptz\<close> column and handed back with its offset, so the
  \<open>_aware\<close> helpers of the modules are the identity on them.  Strings are lists of
  ASCII characters.
\<close>

named_theorems py_simps "strings and numbers as Python computes them"
named_theorems table_simps "reading and updating tables"

subsection \<open>Time\<close>

type_synonym datetime = int
type_synonym timedelta = int

definition seconds :: "int \<Rightarrow> timedelta" where
  "seconds n = n * 1000000"

definition minutes :: "int \<Rightarrow> timedelta" where
  "minutes n = seconds (60 * n)"

definition hours :: "int \<Rightarrow> timedelta" where
  "hours n = seconds (3600 * n)"

definition days :: "int \<Rightarrow> timedelta" where
  "days n = seconds (86400 * n)"

subsection \<open>Refusals of the HTTP interface\<close>

text \<open>
  An \<open>HTTPException\<close>: its status code and its detail.  Most details are a fixed text;
  the structured ones of \<open>api/payment.py\<close>, \<open>api/config.py\<close> and \<open>api/google_auth.py\<close>
  keep their fields.
\<close>

datatype detail =
    Msg string
  | TooManyDevices int int
  | PlanAllows int
  | NeedUsername string
  | RetryAfter int

record http_error =
  status_code :: nat
  http_detail :: detail

abbreviation http :: "nat \<Rightarrow> string \<Rightarrow> http_error" where
  "http c m \<equiv> \<lparr>status_code = c, http_detail = Msg m\<rparr>"

text \<open>
  How a call ends: with an exception that leaves it, or with a result.  What an HTTP handler
  gives is a \<open>reply\<close>: an exception that is not an \<open>HTTPException\<close> (the framework answers 500),
  a refusal, or an answer.
\<close>

datatype 'a outcome = Raised | Done 'a

type_synonym 'a reply = "(http_error + 'a) outcome"

subsection \<open>Python's \<open>str\<close>\<close>

definition is_space :: "char \<Rightarrow> bool" where
  "is_space c = (let n = (of_char c :: nat) in 9 \<le> n \<and> n \<le> 13 \<or> 28 \<le> n \<and> n \<le> 32)"

definition lstrip :: "string \<Rightarrow> string" where
  "lstrip s = dropWhile is_space s"

definition rstrip :: "string \<Rightarrow> string" where
  "rstrip s = rev (dropWhile is_space (rev s))"

definition strip :: "string \<Rightarrow> string" where
  "strip s = rstrip (lstrip s)"

definition lower_char :: "char \<Rightarrow> char" where
  "lower_char c = (let n = (of_char c :: nat) in if 65 \<le> n \<and> n \<le> 90 then char_of (n + 32) else c)"

definition upper_char :: "char \<Rightarrow> char" where
  "upper_char c = (let n = (of_char c :: nat) in if 97 \<le> n \<and> n \<le> 122 then char_of (n - 32) else c)"

definition lower :: "string \<Rightarrow> string" where
  "lower s = map lower_char s"

definition upper :: "string \<Rightarrow> string" where
  "upper s = map upper_char s"

definition is_digit :: "char \<Rightarrow> bool" where
  "is_digit c = (let n = (of_char c :: nat) in 48 \<le> n \<and> n \<le> 57)"

definition is_letter :: "char \<Rightarrow> bool" where
  "is_letter c = (let n = (of_char c :: nat) in 65 \<le> n \<and> n \<le> 90 \<or> 97 \<le> n \<and> n \<le> 122)"

definition isdigit :: "string \<Rightarrow> bool" where
  "isdigit s = (s \<noteq> [] \<and> list_all is_digit s)"

definition startswith :: "string \<Rightarrow> string \<Rightarrow> bool" where
  "startswith s p = (take (length p) s = p)"

definition endswith :: "string \<Rightarrow> string \<Rightarrow> bool" where
  "endswith s p = startswith (rev s) (rev p)"

text \<open>\<open>t in s\<close>.\<close>

fun contains :: "string \<Rightarrow> string \<Rightarrow> bool" where
  "contains [] t = (t = [])"
| "contains (c # s) t = (startswith (c # s) t \<or> contains s t)"

text \<open>\<open>s.split(c)\<close> and \<open>s.split(c, 1)\<close> for a single character.\<close>

fun split_on :: "char \<Rightarrow> string \<Rightarrow> string list" where
  "split_on c [] = [[]]"
| "split_on c (x # s) =
     (if x = c then [] # split_on c s
      else (case split_on c s of w # ws \<Rightarrow> (x # w) # ws | [] \<Rightarrow> [[x]]))"

definition before :: "char \<Rightarrow> string \<Rightarrow> string" where
  "before c s = takeWhile (\<lambda>x. x \<noteq> c) s"

definition after :: "char \<Rightarrow> string \<Rightarrow> string" where
  "after c s = tl (dropWhile (\<lambda>x. x \<noteq> c) s)"

text \<open>\<open>s.rpartition(c)\<close>, without the separator it found.\<close>

definition rpartition :: "char \<Rightarrow> string \<Rightarrow> string \<times> string" where
  "rpartition c s =
     (if c \<in> set s then (rev (after c (rev s)), rev (before c (rev s))) else ([], s))"

definition join :: "string \<Rightarrow> string list \<Rightarrow> string" where
  "join sep ws = concat (case ws of [] \<Rightarrow> [] | w # ws' \<Rightarrow> w # map (\<lambda>x. sep @ x) ws')"

text \<open>\<open>s.split()\<close>: the words between runs of white space.\<close>

fun words_acc :: "string \<Rightarrow> string \<Rightarrow> string list" where
  "words_acc acc [] = (if acc = [] then [] else [rev acc])"
| "words_acc acc (c # s) =
     (if is_space c then (if acc = [] then words_acc [] s else rev acc # words_acc [] s)
      else words_acc (c # acc) s)"

definition words :: "string \<Rightarrow> string list" where
  "words s = words_acc [] s"

text \<open>\<open>s.splitlines()\<close>: a carriage return and a line feed together are one boundary.\<close>

definition is_line_end :: "char \<Rightarrow> bool" where
  "is_line_end c = (let n = (of_char c :: nat) in 10 \<le> n \<and> n \<le> 13 \<or> 28 \<le> n \<and> n \<le> 30)"

fun lines_acc :: "string \<Rightarrow> string \<Rightarrow> string list" where
  "lines_acc acc [] = (if acc = [] then [] else [rev acc])"
| "lines_acc acc [c] = (if is_line_end c then [rev acc] else [rev (c # acc)])"
| "lines_acc acc (c # d # s) =
     (if of_char c = (13::nat) \<and> of_char d = (10::nat) then rev acc # lines_acc [] s
      else if is_line_end c then rev acc # lines_acc [] (d # s)
      else lines_acc (c # acc) (d # s))"

definition splitlines :: "string \<Rightarrow> string list" where
  "splitlines s = lines_acc [] s"

text \<open>Decimal numerals: \<open>str(n)\<close> and, on digits, \<open>int(s)\<close>.\<close>

definition digit_char :: "nat \<Rightarrow> char" where
  "digit_char d = char_of (48 + d)"

definition char_digit :: "char \<Rightarrow> nat" where
  "char_digit c = of_char c - 48"

fun str_nat :: "nat \<Rightarrow> string" where
  "str_nat n = (if n < 10 then [digit_char n] else str_nat (n div 10) @ [digit_char (n mod 10)])"

declare str_nat.simps [simp del]

definition str_int :: "int \<Rightarrow> string" where
  "str_int i = (if i < 0 then CHR ''-'' # str_nat (nat (- i)) else str_nat (nat i))"

definition nat_of_str :: "string \<Rightarrow> nat" where
  "nat_of_str s = foldl (\<lambda>n c. 10 * n + char_digit c) 0 s"

text \<open>
  \<open>int(s)\<close> for decimal text: white space around, one sign, digits with single underscores
  between them; anything else raises (\<open>None\<close>).
\<close>

fun int_digits :: "nat \<Rightarrow> string \<Rightarrow> nat option" where
  "int_digits n [] = Some n"
| "int_digits n [c] = (if is_digit c then Some (10 * n + char_digit c) else None)"
| "int_digits n (c # d # s) =
     (if is_digit c then int_digits (10 * n + char_digit c) (if d = CHR ''_'' then s else d # s)
      else None)"

definition py_int :: "string \<Rightarrow> int option" where
  "py_int s =
     (case strip s of
        [] \<Rightarrow> None
      | c # t \<Rightarrow>
          let (sign, body) = (if c = CHR ''-'' then (-1, t) else if c = CHR ''+'' then (1, t) else (1, c # t))
          in if body = [] \<or> last body = CHR ''_'' then None
             else map_option (\<lambda>n. sign * int n) (int_digits 0 body))"

subsection \<open>Python's numbers\<close>

text \<open>
  \<open>round(a / b)\<close> on integers, ties to even, for a positive \<open>b\<close>.  The code divides
  rubles times a percentage by 100; at those sizes the floating quotient is a tie exactly
  when the rational one is, and otherwise rounds to the same integer.
\<close>

definition round_div :: "int \<Rightarrow> int \<Rightarrow> int" where
  "round_div a b =
     (let q = a div b; r = a mod b in
      if 2 * r < b then q else if 2 * r > b then q + 1 else if even q then q else q + 1)"

text \<open>\<open>int(a / b)\<close>: truncation towards zero, for a positive \<open>b\<close>.\<close>

definition trunc_div :: "int \<Rightarrow> int \<Rightarrow> int" where
  "trunc_div a b = (if 0 \<le> a then a div b else - ((- a) div b))"

subsection \<open>Tables\<close>

text \<open>
  A table is the list of its rows in insertion order.  A query without \<open>ORDER BY\<close> reads
  it in that order; \<open>scalars().first()\<close> is \<open>List.find\<close>.
\<close>

definition update_where :: "('a \<Rightarrow> bool) \<Rightarrow> ('a \<Rightarrow> 'a) \<Rightarrow> 'a list \<Rightarrow> 'a list" where
  "update_where P f rows = map (\<lambda>r. if P r then f r else r) rows"

definition count_where :: "('a \<Rightarrow> bool) \<Rightarrow> 'a list \<Rightarrow> int" where
  "count_where P rows = int (length (filter P rows))"

definition sum_where :: "('a \<Rightarrow> bool) \<Rightarrow> ('a \<Rightarrow> int) \<Rightarrow> 'a list \<Rightarrow> int" where
  "sum_where P f rows = sum_list (map f (filter P rows))"

text \<open>A unique constraint on a nullable column: equal values only in the same row.\<close>

definition unique_on :: "('a \<Rightarrow> 'k option) \<Rightarrow> 'a list \<Rightarrow> bool" where
  "unique_on k rows = distinct (List.map_filter k rows)"

subsection \<open>Lemmas: time\<close>

lemma days_add [simp]: "days (a + b) = days a + days b"
  by (simp add: days_def seconds_def)

lemma days_0 [simp]: "days 0 = 0"
  by (simp add: days_def seconds_def)

lemma days_less_iff [simp]: "days a < days b \<longleftrightarrow> a < b"
  by (simp add: days_def seconds_def)

lemma days_le_iff [simp]: "days a \<le> days b \<longleftrightarrow> a \<le> b"
  by (simp add: days_def seconds_def)

lemma days_pos_iff [simp]: "0 < days n \<longleftrightarrow> 0 < n"
  by (simp add: days_def seconds_def)

lemma days_nonneg_iff [simp]: "0 \<le> days n \<longleftrightarrow> 0 \<le> n"
  by (simp add: days_def seconds_def)

lemmas time_defs = seconds_def minutes_def hours_def days_def

subsection \<open>Lemmas: strings\<close>

lemma lower_char_idem [simp]: "lower_char (lower_char c) = lower_char c"
  by (auto simp: lower_char_def Let_def)

lemma lower_idem [simp]: "lower (lower s) = lower s"
  by (simp add: lower_def comp_def)

lemma length_lower [simp]: "length (lower s) = length s"
  by (simp add: lower_def)

lemma startswith_self_append [simp]: "startswith (p @ s) p"
  by (simp add: startswith_def)

lemma startswith_iff_prefix: "startswith s p \<longleftrightarrow> prefix p s"
  by (metis append_eq_conv_conj append_take_drop_id prefix_def startswith_def)

lemma contains_iff_sublist: "contains s t \<longleftrightarrow> sublist t s"
  by (induction s) (auto simp: startswith_iff_prefix sublist_Cons_right)

lemma split_on_not_Nil [simp]: "split_on c s \<noteq> []"
  by (induction s) (auto split: list.splits)

lemma split_on_join: "concat (map (\<lambda>w. c # w) (split_on c s)) = c # s"
  by (induction s) (auto split: list.splits)

lemma str_nat_not_Nil [simp]: "str_nat n \<noteq> []"
  by (subst str_nat.simps) simp

lemma char_digit_digit_char [simp]: "d < 10 \<Longrightarrow> char_digit (digit_char d) = d"
  by (simp add: char_digit_def digit_char_def)

lemma is_digit_digit_char [simp]: "d < 10 \<Longrightarrow> is_digit (digit_char d)"
  by (simp add: is_digit_def digit_char_def)

lemma nat_of_str_str_nat [simp]: "nat_of_str (str_nat n) = n"
proof (induction n rule: str_nat.induct)
  case (1 n)
  then show ?case
    by (subst str_nat.simps) (simp add: nat_of_str_def)
qed

lemma str_nat_digits: "list_all is_digit (str_nat n)"
proof (induction n rule: str_nat.induct)
  case (1 n)
  then show ?case
    by (subst str_nat.simps) simp
qed

lemma isdigit_str_nat [simp]: "isdigit (str_nat n)"
  by (simp add: isdigit_def str_nat_digits)

lemma str_nat_inject [simp]: "str_nat m = str_nat n \<longleftrightarrow> m = n"
  by (metis nat_of_str_str_nat)

lemma not_digit_in_str_nat: "\<not> is_digit c \<Longrightarrow> c \<notin> set (str_nat n)"
  using str_nat_digits [of n] by (auto simp: list_all_iff)

subsection \<open>Lemmas: numbers\<close>

lemma round_div_bounds:
  assumes "0 < b"
  shows "2 * (round_div a b * b) \<le> 2 * a + b \<and> 2 * a \<le> 2 * (round_div a b * b) + b"
proof -
  define q r where "q = a div b" and "r = a mod b"
  have a: "a = q * b + r"
    by (simp add: q_def r_def)
  have r: "0 \<le> r" "r < b"
    using assms by (simp_all add: r_def)
  show ?thesis
    unfolding round_div_def Let_def q_def [symmetric] r_def [symmetric]
    using r by (auto simp: a algebra_simps)
qed

lemma round_div_exact [simp]: "0 < b \<Longrightarrow> round_div (q * b) b = q"
  by (simp add: round_div_def)

lemma round_div_nonneg: "0 < b \<Longrightarrow> 0 \<le> a \<Longrightarrow> 0 \<le> round_div a b"
  by (auto simp: round_div_def Let_def pos_imp_zdiv_nonneg_iff)

lemma round_div_mono_upper:
  assumes "0 < b" and "a \<le> q * b"
  shows "round_div a b \<le> q"
proof -
  have le: "a div b \<le> q"
    using assms by (metis nonzero_mult_div_cancel_right not_less_iff_gr_or_eq zdiv_mono1)
  show ?thesis
  proof (cases "a div b = q")
    case True
    then have "a = q * b + a mod b"
      by (metis div_mult_mod_eq)
    then have "a mod b = 0"
      using assms by (metis add_le_same_cancel1 dual_order.antisym pos_mod_sign)
    with True assms show ?thesis
      by (simp add: round_div_def)
  next
    case False
    with le show ?thesis
      by (auto simp: round_div_def Let_def)
  qed
qed

lemma trunc_div_two_bounds: "0 \<le> a \<Longrightarrow> 0 \<le> trunc_div a 2 \<and> 2 * trunc_div a 2 \<le> a"
  by (auto simp: trunc_div_def)

subsection \<open>Lemmas: tables\<close>

lemma length_update_where [simp]: "length (update_where P f rows) = length rows"
  by (simp add: update_where_def)

lemma update_where_id [simp]: "(\<And>r. r \<in> set rows \<Longrightarrow> P r \<Longrightarrow> f r = r) \<Longrightarrow> update_where P f rows = rows"
  by (auto simp: update_where_def intro: map_idI)

lemma set_update_where: "set (update_where P f rows) = (\<lambda>r. if P r then f r else r) ` set rows"
  by (simp add: update_where_def)

lemma map_update_where:
  "(\<And>r. P r \<Longrightarrow> g (f r) = g r) \<Longrightarrow> map g (update_where P f rows) = map g rows"
  by (simp add: update_where_def)

lemma find_SomeD: "List.find P xs = Some x \<Longrightarrow> x \<in> set xs \<and> P x"
  by (auto simp: find_Some_iff in_set_conv_nth)

lemma find_None_iff_list: "List.find P xs = None \<longleftrightarrow> (\<forall>x\<in>set xs. \<not> P x)"
  by (auto simp: find_None_iff)

lemma count_where_nonneg [simp]: "0 \<le> count_where P rows"
  by (simp add: count_where_def)

lemma count_where_0_iff: "count_where P rows = 0 \<longleftrightarrow> (\<forall>r\<in>set rows. \<not> P r)"
  by (simp add: count_where_def filter_empty_conv)

lemma sum_where_append [table_simps]:
  "sum_where P f (xs @ ys) = sum_where P f xs + sum_where P f ys"
  by (simp add: sum_where_def)

lemma sum_where_single [table_simps]: "sum_where P f [x] = (if P x then f x else 0)"
  by (simp add: sum_where_def)

lemma count_where_append [table_simps]:
  "count_where P (xs @ ys) = count_where P xs + count_where P ys"
  by (simp add: count_where_def)

lemma count_where_single [table_simps]: "count_where P [x] = (if P x then 1 else 0)"
  by (simp add: count_where_def)

lemma filter_map_unmarked:
  "(\<And>x. x \<in> set xs \<Longrightarrow> Q (f x) = P x \<and> (P x \<longrightarrow> f x = x)) \<Longrightarrow> filter Q (map f xs) = filter P xs"
  by (induction xs) auto

lemma filter_map_none: "(\<And>x. x \<in> set xs \<Longrightarrow> \<not> Q (f x)) \<Longrightarrow> filter Q (map f xs) = []"
  by (induction xs) auto

lemma find_append:
  "List.find P (xs @ ys) = (case List.find P xs of None \<Rightarrow> List.find P ys | Some x \<Rightarrow> Some x)"
  by (induction xs) auto

lemma before_append_same [py_simps]: "c \<notin> set l \<Longrightarrow> before c (l @ c # r) = l"
  by (induction l) (auto simp: before_def)

lemma before_no_occ [py_simps]: "c \<notin> set s \<Longrightarrow> before c s = s"
  by (induction s) (auto simp: before_def)

lemma not_in_before [simp]: "c \<notin> set (before c s)"
  by (auto simp: before_def dest: set_takeWhileD)

lemma after_append_same [py_simps]: "c \<notin> set l \<Longrightarrow> after c (l @ c # r) = r"
  by (induction l) (auto simp: after_def)

lemma rpartition_append_same [py_simps]: "c \<notin> set r \<Longrightarrow> rpartition c (l @ c # r) = (l, r)"
  using before_append_same [of c "rev r" "rev l"] after_append_same [of c "rev r" "rev l"]
  by (simp add: rpartition_def)

lemma strip_no_space [py_simps]: "list_all (\<lambda>c. \<not> is_space c) s \<Longrightarrow> strip s = s"
proof -
  have "dropWhile is_space t = t" if "list_all (\<lambda>c. \<not> is_space c) t" for t
    using that by (cases t) auto
  moreover assume "list_all (\<lambda>c. \<not> is_space c) s"
  moreover from this have "list_all (\<lambda>c. \<not> is_space c) (rev s)" by simp
  ultimately show ?thesis by (simp add: strip_def lstrip_def rstrip_def)
qed

lemma lower_append [simp]: "lower (s @ t) = lower s @ lower t"
  by (simp add: lower_def)

lemma lower_Cons [simp]: "lower (c # s) = lower_char c # lower s"
  by (simp add: lower_def)

lemma lower_Nil [simp]: "lower [] = []"
  by (simp add: lower_def)

text \<open>Lower-casing neither makes nor loses a character outside \<open>A..Z\<close> and \<open>a..z\<close>.\<close>

lemma lower_char_eq_iff: "\<not> is_letter c \<Longrightarrow> lower_char x = c \<longleftrightarrow> x = c"
  by (auto simp: lower_char_def is_letter_def Let_def)

lemma lower_mem_iff:
  assumes "\<not> is_letter c"
  shows "c \<in> set (lower s) \<longleftrightarrow> c \<in> set s"
proof (induction s)
  case (Cons a s)
  then show ?case using lower_char_eq_iff [OF assms, of a] by (simp add: eq_commute [of c])
qed simp

lemma is_space_lower_char [simp]: "is_space (lower_char c) = is_space c"
  by (auto simp: is_space_def lower_char_def Let_def)

lemma rstrip_keeps_start: "p \<noteq> [] \<Longrightarrow> \<not> is_space (last p) \<Longrightarrow> rstrip (p @ s) = p @ rstrip s"
proof -
  assume p: "p \<noteq> []" "\<not> is_space (last p)"
  then obtain q c where q: "p = q @ [c]" "\<not> is_space c" by (metis append_butlast_last_id)
  show "rstrip (p @ s) = p @ rstrip s"
  proof (cases "\<exists>x\<in>set s. \<not> is_space x")
    case True
    then obtain x where x: "x \<in> set (rev s)" "\<not> is_space x" by auto
    have "dropWhile is_space (rev s @ rev p) = dropWhile is_space (rev s) @ rev p"
      by (rule dropWhile_append1 [of x "rev s" is_space, OF x])
    then show ?thesis by (simp add: rstrip_def)
  next
    case False
    then have "dropWhile is_space (rev s @ rev p) = dropWhile is_space (rev p)"
      by (intro dropWhile_append2) auto
    moreover have "dropWhile is_space (rev s) = []" using False by simp
    ultimately show ?thesis using q by (simp add: rstrip_def)
  qed
qed

lemma strip_keeps_start:
  "p \<noteq> [] \<Longrightarrow> \<not> is_space (hd p) \<Longrightarrow> \<not> is_space (last p) \<Longrightarrow> strip (p @ s) = p @ rstrip s"
  using rstrip_keeps_start [of p s] by (cases p) (simp_all add: strip_def lstrip_def)

text \<open>A primary key determines its row.\<close>

lemma distinct_map_eqD: "distinct (map k xs) \<Longrightarrow> x \<in> set xs \<Longrightarrow> y \<in> set xs \<Longrightarrow> k x = k y \<Longrightarrow> x = y"
  by (auto simp: distinct_map dest: inj_onD)

end
