(* ===== verification/Models.thy ===== *)
theory Models
  imports Prelude
begin

section \<open>The portal's tables\<close>

text \<open>
  The rows of \<open>pwa/db/models.py\<close>, one record per mapped class with the class's columns in
  order, and the database as the record of its tables.  A nullable column is an option.
  Column names that several classes share carry the class's initials.

  The database record also holds the source of the \<open>uuid4\<close> defaults: \<open>uuid_tape\<close> is the
  sequence of identifiers the generator will give, \<open>uuid_pos\<close> how many it has given.
  Letters (\<open>services/mailer.py\<close>) and bot messages (\<open>services/telegram.py\<close>) that have been
  scheduled are the two lists of the \<open>outbox\<close>; their wording is not modelled, only what
  they are about and to whom they go.
\<close>

record user =
  u_id :: string
  username :: string
  email :: "string option"
  password_hash :: string
  u_is_active :: bool
  is_subscribed :: bool
  u_peer_ip :: "string option"
  u_plan :: "string option"
  u_created_at :: datetime
  subscribed_until :: "datetime option"
  reset_token :: "string option"
  reset_expires :: "datetime option"
  email_verified_at :: "datetime option"
  email_verify_token :: "string option"
  email_verify_expires :: "datetime option"
  lang :: string
  trial_until :: "datetime option"
  referred_code :: "string option"
  telegram_id :: "int option"
  google_sub :: "string option"
  telegram_link_hash :: "string option"
  telegram_link_expires :: "datetime option"

record config_row =
  c_id :: string
  c_user_id :: string
  c_name :: string
  c_peer_ip :: string
  c_kind :: string
  c_location :: string
  private_key :: string
  public_key :: string
  preshared_key :: string
  c_is_active :: bool
  c_created_at :: datetime

record payment =
  p_id :: string
  p_user_id :: string
  p_plan :: string
  p_amount :: int
  p_currency :: string
  p_status :: string
  heleket_invoice_id :: "string option"
  provider :: "string option"
  provider_ref :: "string option"
  p_promo_code :: "string option"
  credit_spent :: int
  p_created_at :: datetime
  paid_at :: "datetime option"

record promo_code =
  pc_id :: string
  code :: string
  owner_user_id :: "string option"
  discount_percent :: int
  max_uses :: "int option"
  pc_is_active :: bool
  pc_expires_at :: "datetime option"
  pc_created_at :: datetime
  pc_note :: "string option"

record credit_entry =
  ce_id :: string
  ce_user_id :: string
  delta :: int
  reason :: string
  ce_payment_id :: "string option"
  ce_source_payment_id :: "string option"
  ce_vests_at :: "datetime option"
  ce_expires_at :: "datetime option"
  ce_created_at :: datetime
  ce_note :: "string option"

record referral_reward =
  rr_id :: string
  referrer_user_id :: string
  source_payment_id :: string
  rr_days :: int
  vests_at :: datetime
  applied_at :: "datetime option"
  rr_created_at :: datetime
  rr_note :: "string option"

record telegram_support =
  ts_id :: int
  admin_message_id :: int
  user_chat_id :: int
  ts_created_at :: datetime

record trial_grant =
  tg_id :: string
  email_norm :: "string option"
  tg_telegram_id :: "int option"
  tg_user_id :: "string option"
  source_ip :: "string option"
  granted_at :: datetime

text \<open>
  What a bell message says: the template and its parameters (\<open>TEXTS[kind][lang]\<close> filled
  in), or the operator's own title and body.  A parameter is a text, or a plan's title
  (\<open>mailer.plan_title\<close> of its tier, its days and the language).
\<close>

datatype param = PStr string | PPlan string int string

datatype bell_text =
    Template string string "(string \<times> param) list"
  | Operator string string

record notification =
  nt_id :: string
  nt_user_id :: string
  nt_kind :: string
  nt_text :: bell_text
  nt_link :: "string option"
  dedupe_key :: "string option"
  nt_created_at :: datetime
  read_at :: "datetime option"

record peer_label =
  pl_public_key :: string
  label :: string
  pl_updated_at :: datetime

record monitor_event =
  me_id :: int
  me_key :: string
  me_level :: string
  me_text :: string
  started_at :: datetime
  ended_at :: "datetime option"

record app_session =
  as_id :: string
  as_user_id :: string
  token_hash :: string
  as_created_at :: datetime
  last_used_at :: datetime
  as_expires_at :: datetime

record db =
  users :: "user list"
  configs :: "config_row list"
  payments :: "payment list"
  promo_codes :: "promo_code list"
  credit_entries :: "credit_entry list"
  referral_rewards :: "referral_reward list"
  telegram_supports :: "telegram_support list"
  trial_grants :: "trial_grant list"
  notifications :: "notification list"
  peer_labels :: "peer_label list"
  monitor_events :: "monitor_event list"
  app_sessions :: "app_session list"
  uuid_tape :: "nat \<Rightarrow> string"
  uuid_pos :: nat

text \<open>Scheduled mail: the recipient, the template, and the instant or link it carries.\<close>

datatype letter =
    Receipt string string int string datetime bool
  | AccessOpen string string datetime bool
  | Reminder string string datetime
  | Welcome string string
  | Verification string string
  | PasswordReset string string
  | SupportTicket string string "(string \<times> string) list" string

record outbox =
  letters :: "letter list"
  messages :: "(int \<times> bell_text \<times> string option) list"

definition empty_outbox :: outbox where
  "empty_outbox = \<lparr>letters = [], messages = []\<rparr>"

subsection \<open>Rows by identity\<close>

definition new_uuid :: "db \<Rightarrow> string \<times> db" where
  "new_uuid d = (uuid_tape d (uuid_pos d), d\<lparr>uuid_pos := Suc (uuid_pos d)\<rparr>)"

definition get_user :: "db \<Rightarrow> string \<Rightarrow> user option" where
  "get_user d i = List.find (\<lambda>u. u_id u = i) (users d)"

definition user_by_name :: "db \<Rightarrow> string \<Rightarrow> user option" where
  "user_by_name d n = List.find (\<lambda>u. username u = n) (users d)"

text \<open>An attribute assignment on a loaded row: the row with that primary key is replaced.\<close>

definition put_user :: "user \<Rightarrow> db \<Rightarrow> db" where
  "put_user u d = d\<lparr>users := update_where (\<lambda>x. u_id x = u_id u) (\<lambda>_. u) (users d)\<rparr>"

definition put_config :: "config_row \<Rightarrow> db \<Rightarrow> db" where
  "put_config c d = d\<lparr>configs := update_where (\<lambda>x. c_id x = c_id c) (\<lambda>_. c) (configs d)\<rparr>"

definition put_payment :: "payment \<Rightarrow> db \<Rightarrow> db" where
  "put_payment p d = d\<lparr>payments := update_where (\<lambda>x. p_id x = p_id p) (\<lambda>_. p) (payments d)\<rparr>"

definition put_reward :: "referral_reward \<Rightarrow> db \<Rightarrow> db" where
  "put_reward r d =
     d\<lparr>referral_rewards := update_where (\<lambda>x. rr_id x = rr_id r) (\<lambda>_. r) (referral_rewards d)\<rparr>"

subsection \<open>The schema's constraints\<close>

text \<open>
  Primary keys, \<open>unique=True\<close> columns and the \<open>UniqueConstraint\<close>s of the tables.  They
  are what Postgres enforces, and what the operations below have to keep.
\<close>

definition keys_ok :: "db \<Rightarrow> bool" where
  "keys_ok d =
     (distinct (map u_id (users d)) \<and> distinct (map c_id (configs d)) \<and>
      distinct (map p_id (payments d)) \<and> distinct (map pc_id (promo_codes d)) \<and>
      distinct (map ce_id (credit_entries d)) \<and> distinct (map rr_id (referral_rewards d)) \<and>
      distinct (map tg_id (trial_grants d)) \<and> distinct (map nt_id (notifications d)) \<and>
      distinct (map as_id (app_sessions d)))"

definition uniques_ok :: "db \<Rightarrow> bool" where
  "uniques_ok d =
     (distinct (map username (users d)) \<and> unique_on email (users d) \<and>
      unique_on telegram_id (users d) \<and> unique_on google_sub (users d) \<and>
      distinct (map code (promo_codes d)) \<and>
      distinct (map source_payment_id (referral_rewards d)) \<and>
      unique_on email_norm (trial_grants d) \<and> unique_on tg_telegram_id (trial_grants d) \<and>
      unique_on tg_user_id (trial_grants d) \<and>
      distinct (map token_hash (app_sessions d)) \<and>
      unique_on (\<lambda>e. map_option (Pair (reason e)) (ce_source_payment_id e)) (credit_entries d) \<and>
      unique_on (\<lambda>n. map_option (Pair (nt_user_id n)) (dedupe_key n)) (notifications d))"

subsection \<open>Lemmas\<close>

lemma unique_on_append_single:
  "unique_on k (xs @ [x]) \<longleftrightarrow>
     unique_on k xs \<and> (\<forall>v. k x = Some v \<longrightarrow> (\<forall>y\<in>set xs. k y \<noteq> Some v))"
  by (cases "k x") (auto simp: unique_on_def List.map_filter_def image_iff)

lemma get_user_put_user [table_simps]:
  "get_user (put_user u d) i =
     (case get_user d i of None \<Rightarrow> None | Some x \<Rightarrow> Some (if u_id u = i then u else x))"
proof -
  have "List.find (\<lambda>x. u_id x = i) (update_where (\<lambda>x. u_id x = u_id u) (\<lambda>_. u) us) =
        (case List.find (\<lambda>x. u_id x = i) us of None \<Rightarrow> None
         | Some x \<Rightarrow> Some (if u_id u = i then u else x))" for us
    by (induction us) (auto simp: update_where_def)
  then show ?thesis
    by (simp add: get_user_def put_user_def)
qed

lemma get_user_SomeD: "get_user d i = Some u \<Longrightarrow> u \<in> set (users d) \<and> u_id u = i"
  by (auto simp: get_user_def dest: find_SomeD)

lemma put_user_frame [simp]:
  "configs (put_user u d) = configs d" "payments (put_user u d) = payments d"
  "promo_codes (put_user u d) = promo_codes d" "credit_entries (put_user u d) = credit_entries d"
  "referral_rewards (put_user u d) = referral_rewards d"
  "trial_grants (put_user u d) = trial_grants d"
  "notifications (put_user u d) = notifications d"
  "app_sessions (put_user u d) = app_sessions d"
  "monitor_events (put_user u d) = monitor_events d"
  "uuid_tape (put_user u d) = uuid_tape d" "uuid_pos (put_user u d) = uuid_pos d"
  by (simp_all add: put_user_def)

lemma put_config_frame [simp]:
  "users (put_config c d) = users d" "payments (put_config c d) = payments d"
  "promo_codes (put_config c d) = promo_codes d" "credit_entries (put_config c d) = credit_entries d"
  "referral_rewards (put_config c d) = referral_rewards d"
  "trial_grants (put_config c d) = trial_grants d"
  "notifications (put_config c d) = notifications d"
  "uuid_tape (put_config c d) = uuid_tape d" "uuid_pos (put_config c d) = uuid_pos d"
  by (simp_all add: put_config_def)

lemma put_payment_frame [simp]:
  "users (put_payment p d) = users d" "configs (put_payment p d) = configs d"
  "promo_codes (put_payment p d) = promo_codes d"
  "credit_entries (put_payment p d) = credit_entries d"
  "referral_rewards (put_payment p d) = referral_rewards d"
  "trial_grants (put_payment p d) = trial_grants d"
  "notifications (put_payment p d) = notifications d"
  "uuid_tape (put_payment p d) = uuid_tape d" "uuid_pos (put_payment p d) = uuid_pos d"
  by (simp_all add: put_payment_def)

lemma put_reward_frame [simp]:
  "users (put_reward r d) = users d" "configs (put_reward r d) = configs d"
  "payments (put_reward r d) = payments d" "promo_codes (put_reward r d) = promo_codes d"
  "credit_entries (put_reward r d) = credit_entries d"
  "trial_grants (put_reward r d) = trial_grants d"
  "notifications (put_reward r d) = notifications d"
  by (simp_all add: put_reward_def)

lemma get_user_frame [simp]:
  "get_user (put_config c d) i = get_user d i" "get_user (put_payment p d) i = get_user d i"
  "get_user (put_reward r d) i = get_user d i"
  by (simp_all add: get_user_def)

lemma update_where_same_key:
  "distinct (map k rows) \<Longrightarrow> x \<in> set rows \<Longrightarrow> update_where (\<lambda>r. k r = k x) (\<lambda>_. x) rows = rows"
  by (rule update_where_id) (metis distinct_map inj_on_eq_iff)

lemma put_user_same: "distinct (map u_id (users d)) \<Longrightarrow> u \<in> set (users d) \<Longrightarrow> put_user u d = d"
  by (simp add: put_user_def update_where_same_key [of u_id])

lemma put_user_put_user [simp]: "u_id u = u_id v \<Longrightarrow> put_user v (put_user u d) = put_user v d"
  by (simp add: put_user_def update_where_def comp_def cong: if_cong)

lemma map_u_id_put_user [simp]: "map u_id (users (put_user u d)) = map u_id (users d)"
  by (simp add: put_user_def update_where_def)

lemma in_users_put_user: "x \<in> set (users d) \<Longrightarrow> u_id x = u_id u \<Longrightarrow> u \<in> set (users (put_user u d))"
  by (auto simp: put_user_def set_update_where image_iff intro: rev_bexI)

lemma map_rr_id_put_reward [simp]:
  "map rr_id (referral_rewards (put_reward r d)) = map rr_id (referral_rewards d)"
  by (simp add: put_reward_def update_where_def)

lemma get_user_in_users:
  assumes "distinct (map u_id (users d))" and "u \<in> set (users d)"
  shows "get_user d (u_id u) = Some u"
proof -
  from assms have "get_user d (u_id u) \<noteq> None"
    by (auto simp: get_user_def find_None_iff_list)
  then obtain x where x: "get_user d (u_id u) = Some x" by blast
  from get_user_SomeD [OF this] assms have "x = u"
    by (metis distinct_map inj_on_eq_iff)
  with x show ?thesis by simp
qed

subsection \<open>Sample rows\<close>

text \<open>Rows with every optional column empty, for evaluating the definitions at concrete inputs.\<close>

definition empty_db :: db where
  "empty_db = \<lparr>users = [], configs = [], payments = [], promo_codes = [], credit_entries = [],
     referral_rewards = [], telegram_supports = [], trial_grants = [], notifications = [],
     peer_labels = [], monitor_events = [], app_sessions = [],
     uuid_tape = (\<lambda>n. ''id'' @ str_nat n), uuid_pos = 0\<rparr>"

definition sample_user :: "string \<Rightarrow> user" where
  "sample_user i = \<lparr>u_id = i, username = i, email = None, password_hash = [], u_is_active = True,
     is_subscribed = False, u_peer_ip = None, u_plan = None, u_created_at = 0,
     subscribed_until = None, reset_token = None, reset_expires = None, email_verified_at = None,
     email_verify_token = None, email_verify_expires = None, lang = ''ru'', trial_until = None,
     referred_code = None, telegram_id = None, google_sub = None, telegram_link_hash = None,
     telegram_link_expires = None\<rparr>"

definition sample_payment :: "string \<Rightarrow> string \<Rightarrow> string \<Rightarrow> int \<Rightarrow> payment" where
  "sample_payment i uid plan amount = \<lparr>p_id = i, p_user_id = uid, p_plan = plan, p_amount = amount,
     p_currency = ''RUB'', p_status = ''pending'', heleket_invoice_id = None, provider = None,
     provider_ref = None, p_promo_code = None, credit_spent = 0, p_created_at = 0, paid_at = None\<rparr>"

definition sample_promo :: "string \<Rightarrow> string option \<Rightarrow> int \<Rightarrow> promo_code" where
  "sample_promo c owner percent = \<lparr>pc_id = c, code = c, owner_user_id = owner,
     discount_percent = percent, max_uses = None, pc_is_active = True, pc_expires_at = None,
     pc_created_at = 0, pc_note = None\<rparr>"

definition sample_credit :: "string \<Rightarrow> string \<Rightarrow> int \<Rightarrow> credit_entry" where
  "sample_credit i uid n = \<lparr>ce_id = i, ce_user_id = uid, delta = n, reason = ''grant'',
     ce_payment_id = None, ce_source_payment_id = None, ce_vests_at = None, ce_expires_at = None,
     ce_created_at = 0, ce_note = None\<rparr>"

definition sample_reward :: "string \<Rightarrow> string \<Rightarrow> string \<Rightarrow> datetime \<Rightarrow> referral_reward" where
  "sample_reward i uid pid vests = \<lparr>rr_id = i, referrer_user_id = uid, source_payment_id = pid,
     rr_days = 30, vests_at = vests, applied_at = None, rr_created_at = 0, rr_note = None\<rparr>"

lemmas samples = empty_db_def sample_user_def sample_payment_def sample_promo_def
  sample_credit_def sample_reward_def

end
