(* ===== verification/Calendar.thy ===== *)
theory Calendar
  imports Prelude
begin

section \<open>Dates as the portal writes them\<close>

text \<open>
  Python's \<open>datetime.isoformat\<close> and the \<open>strftime\<close> patterns the portal uses, on instants
  from 1970 on.  The date of an instant is found by taking whole years, then whole months,
  off its day number.  The main fact is that \<open>isoformat\<close> is injective: the reminders'
  keys (\<open>services/notify.py\<close>) identify a period by the text of its end.
\<close>

definition leap :: "nat \<Rightarrow> bool" where
  "leap y = (y mod 4 = 0 \<and> (y mod 100 \<noteq> 0 \<or> y mod 400 = 0))"

definition year_len :: "nat \<Rightarrow> nat" where
  "year_len y = (if leap y then 366 else 365)"

definition month_lens :: "nat \<Rightarrow> nat list" where
  "month_lens y = [31, if leap y then 29 else 28, 31, 30, 31, 30, 31, 31, 30, 31, 30, 31]"

function year_of :: "nat \<Rightarrow> nat \<Rightarrow> nat \<times> nat" where
  "year_of y n = (if n < year_len y then (y, n) else year_of (Suc y) (n - year_len y))"
  by pat_completeness auto
termination
  by (relation "measure snd") (auto simp: year_len_def split: if_splits)

declare year_of.simps [simp del]

fun month_of :: "nat list \<Rightarrow> nat \<Rightarrow> nat \<Rightarrow> nat \<times> nat" where
  "month_of [] m n = (m, n)"
| "month_of (l # ls) m n = (if n < l then (m, n) else month_of ls (Suc m) (n - l))"

definition civil :: "nat \<Rightarrow> nat \<times> nat \<times> nat" where
  "civil n =
     (let (y, r) = year_of 1970 n; (m, d) = month_of (month_lens y) 1 r in (y, m, Suc d))"

definition zfill :: "nat \<Rightarrow> nat \<Rightarrow> string" where
  "zfill k n = replicate (k - length (str_nat n)) (CHR ''0'') @ str_nat n"

definition day_no :: "datetime \<Rightarrow> nat" where
  "day_no t = nat (t div days 1)"

definition second_of_day :: "datetime \<Rightarrow> nat" where
  "second_of_day t = nat ((t mod days 1) div seconds 1)"

definition microsecond :: "datetime \<Rightarrow> nat" where
  "microsecond t = nat (t mod seconds 1)"

definition isoformat :: "datetime \<Rightarrow> string" where
  "isoformat t =
     (let (y, m, d) = civil (day_no t); s = second_of_day t; us = microsecond t in
      zfill 4 y @ ''-'' @ zfill 2 m @ ''-'' @ zfill 2 d @ ''T'' @
      zfill 2 (s div 3600) @ '':'' @ zfill 2 (s div 60 mod 60) @ '':'' @ zfill 2 (s mod 60) @
      (if us = 0 then [] else ''.'' @ zfill 6 us) @ ''+00:00'')"

text \<open>Moscow time is a fixed three hours ahead.\<close>

definition MSK :: timedelta where
  "MSK = hours 3"

definition strftime_date :: "datetime \<Rightarrow> string" where
  "strftime_date t =
     (let (y, m, d) = civil (day_no (t + MSK)) in
      zfill 2 d @ ''.'' @ zfill 2 m @ ''.'' @ zfill 4 y)"

definition strftime_day_minute :: "datetime \<Rightarrow> string \<Rightarrow> string \<Rightarrow> string" where
  "strftime_day_minute t at zone =
     (let (y, m, d) = civil (day_no (t + MSK)); s = second_of_day (t + MSK) in
      zfill 2 d @ ''.'' @ zfill 2 m @ at @ zfill 2 (s div 3600) @ '':'' @
      zfill 2 (s div 60 mod 60) @ zone)"

subsection \<open>Lemmas\<close>

lemma year_of_sum:
  "year_of y n = (y', r) \<Longrightarrow> y \<le> y' \<and> n = (\<Sum>k = y..<y'. year_len k) + r"
proof (induction y n arbitrary: y' r rule: year_of.induct)
  case (1 y n)
  show ?case
  proof (cases "n < year_len y")
    case True
    with "1.prems" show ?thesis
      by (simp add: year_of.simps [of y n])
  next
    case False
    with "1.prems" have "year_of (Suc y) (n - year_len y) = (y', r)"
      by (simp add: year_of.simps [of y n])
    with False "1.IH" have "Suc y \<le> y'" and "n - year_len y = (\<Sum>k = Suc y..<y'. year_len k) + r"
      by blast+
    with False show ?thesis
      by (simp add: sum.atLeast_Suc_lessThan)
  qed
qed

lemma month_of_sum:
  "month_of ls m n = (m', r) \<Longrightarrow> m \<le> m' \<and> n = sum_list (take (m' - m) ls) + r"
proof (induction ls arbitrary: m n)
  case Nil
  then show ?case by simp
next
  case (Cons l ls)
  show ?case
  proof (cases "n < l")
    case True
    with Cons.prems show ?thesis by simp
  next
    case False
    with Cons.prems Cons.IH [of "Suc m" "n - l"]
    have "Suc m \<le> m'" and "n - l = sum_list (take (m' - Suc m) ls) + r"
      by auto
    moreover from \<open>Suc m \<le> m'\<close> have "m' - m = Suc (m' - Suc m)"
      by simp
    ultimately show ?thesis
      using False by simp
  qed
qed

lemma civil_inject: "civil a = civil b \<Longrightarrow> a = b"
proof -
  assume eq: "civil a = civil b"
  obtain y r where y: "year_of 1970 a = (y, r)" by force
  obtain y' r' where y': "year_of 1970 b = (y', r')" by force
  obtain m d where m: "month_of (month_lens y) 1 r = (m, d)" by force
  obtain m' d' where m': "month_of (month_lens y') 1 r' = (m', d')" by force
  from eq y y' m m' have "y = y'" "m = m'" "d = d'"
    by (simp_all add: civil_def)
  with month_of_sum [OF m] month_of_sum [OF m'] have "r = r'" by simp
  with year_of_sum [OF y] year_of_sum [OF y'] \<open>y = y'\<close> show "a = b" by simp
qed

lemma nat_of_str_replicate_0 [simp]:
  "nat_of_str (replicate k (CHR ''0'') @ s) = nat_of_str s"
  by (induction k) (simp_all add: nat_of_str_def char_digit_def)

lemma zfill_inject [simp]: "zfill k m = zfill k n \<longleftrightarrow> m = n"
  by (metis nat_of_str_replicate_0 nat_of_str_str_nat zfill_def)

lemma zfill_digits: "\<not> is_digit c \<Longrightarrow> c \<notin> set (zfill k n)"
  by (auto simp: zfill_def not_digit_in_str_nat is_digit_def)

lemma cut_at:
  assumes "a @ c # x = b @ c # y" and "c \<notin> set a" and "c \<notin> set b"
  shows "a = b \<and> x = y"
  using assms
proof (induction a arbitrary: b)
  case Nil
  then show ?case by (cases b) auto
next
  case (Cons z a)
  then show ?case by (cases b) auto
qed

lemma zfill_cut:
  assumes "zfill k m @ c # x = zfill k n @ c # y" and "\<not> is_digit c"
  shows "m = n \<and> x = y"
  using cut_at [OF assms(1)] zfill_digits [OF assms(2)] by simp

lemma not_digits [simp]:
  "\<not> is_digit (CHR ''-'')" "\<not> is_digit (CHR ''T'')" "\<not> is_digit (CHR '':'')"
  "\<not> is_digit (CHR ''.'')" "\<not> is_digit (CHR ''+'')"
  by (simp_all add: is_digit_def)

lemma second_frac_inject:
  assumes "zfill 2 a @ (if u = 0 then [] else ''.'' @ zfill 6 u) =
           zfill 2 b @ (if v = 0 then [] else ''.'' @ zfill 6 v)"
  shows "a = b \<and> u = v"
proof -
  have dot: "CHR ''.'' \<notin> set (zfill k n)" for k n
    by (simp add: zfill_digits)
  show ?thesis
  proof (cases "u = 0"; cases "v = 0")
    assume "u \<noteq> 0" "v \<noteq> 0"
    with assms zfill_cut [of 2 a "CHR ''.''" "zfill 6 u" b "zfill 6 v"] show ?thesis by simp
  next
    assume "u = 0" "v \<noteq> 0"
    with arg_cong [OF assms, of set] have "CHR ''.'' \<in> set (zfill 2 a)" by simp
    with dot show ?thesis by simp
  next
    assume "u \<noteq> 0" "v = 0"
    with arg_cong [OF assms, of set] have "CHR ''.'' \<in> set (zfill 2 b)" by auto
    with dot show ?thesis by simp
  next
    assume "u = 0" "v = 0"
    with assms show ?thesis by simp
  qed
qed

lemma second_of_day_parts:
  assumes "s div 3600 = s' div 3600" and "s div 60 mod 60 = s' div 60 mod 60"
    and "s mod 60 = s' mod (60::nat)"
  shows "s = s'"
proof -
  have parts: "s = (s div 3600 * 60 + s div 60 mod 60) * 60 + s mod 60" for s :: nat
  proof -
    have "s div 60 = s div 60 div 60 * 60 + s div 60 mod 60" by simp
    moreover have "s div 60 div 60 = s div 3600"
      by (simp flip: div_mult2_eq)
    ultimately show ?thesis
      by (metis div_mult_mod_eq)
  qed
  show ?thesis
    using parts [of s] parts [of s'] assms by simp
qed

lemma instant_parts:
  assumes "0 \<le> t" and "0 \<le> t'" and "day_no t = day_no t'"
    and "second_of_day t = second_of_day t'" and "microsecond t = microsecond t'"
  shows "t = t'"
proof -
  have parts: "t = (t div days 1) * days 1 + (((t mod days 1) div seconds 1) * seconds 1 + t mod seconds 1)"
    for t
  proof -
    have "seconds 1 dvd days 1"
      by (simp add: time_defs)
    then have "t mod days 1 mod seconds 1 = t mod seconds 1"
      by (rule mod_mod_cancel)
    then show ?thesis
      by (metis div_mult_mod_eq)
  qed
  have pos: "0 < days 1" "0 < seconds 1"
    by (simp_all add: time_defs)
  have ge: "0 \<le> t div days 1" "0 \<le> t' div days 1"
    "0 \<le> (t mod days 1) div seconds 1" "0 \<le> (t' mod days 1) div seconds 1"
    "0 \<le> t mod seconds 1" "0 \<le> t' mod seconds 1"
    using assms(1,2) pos by (simp_all add: pos_imp_zdiv_nonneg_iff del: days_pos_iff)
  have "t div days 1 = t' div days 1" "(t mod days 1) div seconds 1 = (t' mod days 1) div seconds 1"
    "t mod seconds 1 = t' mod seconds 1"
    using assms(3-) ge unfolding day_no_def second_of_day_def microsecond_def
    by (metis eq_nat_nat_iff)+
  then show ?thesis
    using parts [of t] parts [of t'] by metis
qed

lemma isoformat_inject:
  assumes nonneg: "0 \<le> t" "0 \<le> t'" and eq: "isoformat t = isoformat t'"
  shows "t = t'"
proof -
  obtain y m d where c: "civil (day_no t) = (y, m, d)" by (metis prod_cases3)
  obtain y' m' d' where c': "civil (day_no t') = (y', m', d')" by (metis prod_cases3)
  let ?s = "second_of_day t" and ?s' = "second_of_day t'"
  let ?f = "\<lambda>t. if microsecond t = 0 then [] else ''.'' @ zfill 6 (microsecond t)"
  have eq': "zfill 4 y @ CHR ''-'' # zfill 2 m @ CHR ''-'' # zfill 2 d @ CHR ''T'' #
      zfill 2 (?s div 3600) @ CHR '':'' # zfill 2 (?s div 60 mod 60) @ CHR '':'' #
      (zfill 2 (?s mod 60) @ ?f t) @ ''+00:00'' =
    zfill 4 y' @ CHR ''-'' # zfill 2 m' @ CHR ''-'' # zfill 2 d' @ CHR ''T'' #
      zfill 2 (?s' div 3600) @ CHR '':'' # zfill 2 (?s' div 60 mod 60) @ CHR '':'' #
      (zfill 2 (?s' mod 60) @ ?f t') @ ''+00:00''"
    using eq unfolding isoformat_def Let_def c c' prod.case by simp
  note y = zfill_cut [OF eq' not_digits(1)]
  note m = zfill_cut [OF conjunct2 [OF y] not_digits(1)]
  note d = zfill_cut [OF conjunct2 [OF m] not_digits(2)]
  note hr = zfill_cut [OF conjunct2 [OF d] not_digits(3)]
  note mi = zfill_cut [OF conjunct2 [OF hr] not_digits(3)]
  have e1: "y = y' \<and> m = m' \<and> d = d' \<and> ?s div 3600 = ?s' div 3600 \<and>
      ?s div 60 mod 60 = ?s' div 60 mod 60 \<and>
      zfill 2 (?s mod 60) @ ?f t = zfill 2 (?s' mod 60) @ ?f t'"
    using y m d hr mi append_same_eq by blast
  then have "civil (day_no t) = civil (day_no t')"
    using c c' by simp
  then have "day_no t = day_no t'"
    by (rule civil_inject)
  moreover from e1 have "?s mod 60 = ?s' mod 60 \<and> microsecond t = microsecond t'"
    by (intro second_frac_inject) simp
  ultimately show ?thesis
    using e1 nonneg by (auto intro!: instant_parts second_of_day_parts)
qed

end
