(* ===== verification/Plans.thy ===== *)
theory Plans
  imports Prelude
begin

section \<open>Plans and settings (\<open>pwa/config.py\<close>)\<close>

text \<open>
  The price table, the resolution of plan names written before periods existed, and the
  number of devices a plan allows.  The process environment is a function from names to
  values; \<open>getenv\<close> is \<open>os.getenv\<close> with a default.
\<close>

type_synonym env = "string \<Rightarrow> string option"

definition getenv :: "env \<Rightarrow> string \<Rightarrow> string \<Rightarrow> string" where
  "getenv e k dflt = (case e k of None \<Rightarrow> dflt | Some v \<Rightarrow> v)"

record plan =
  tier :: string
  plan_configs :: int
  plan_days :: int
  plan_amount :: string
  plan_currency :: string

abbreviation mk_plan :: "string \<Rightarrow> int \<Rightarrow> int \<Rightarrow> string \<Rightarrow> plan" where
  "mk_plan t c n a \<equiv>
     \<lparr>tier = t, plan_configs = c, plan_days = n, plan_amount = a, plan_currency = ''RUB''\<rparr>"

definition PLANS :: "(string \<times> plan) list" where
  "PLANS =
     [(''basic-1m'', mk_plan ''basic'' 2 30 ''350''),
      (''basic-3m'', mk_plan ''basic'' 2 90 ''900''),
      (''basic-6m'', mk_plan ''basic'' 2 180 ''1700''),
      (''ext-1m'', mk_plan ''ext'' 5 30 ''650''),
      (''ext-3m'', mk_plan ''ext'' 5 90 ''1700''),
      (''ext-6m'', mk_plan ''ext'' 5 180 ''3200'')]"

definition LEGACY_PLAN_ALIASES :: "(string \<times> string) list" where
  "LEGACY_PLAN_ALIASES = [(''Basic'', ''basic-1m''), (''Family'', ''ext-1m'')]"

definition DEFAULT_CONFIG_LIMIT :: int where
  "DEFAULT_CONFIG_LIMIT = 1"

definition plan_info :: "string option \<Rightarrow> plan option" where
  "plan_info key =
     (case key of
        None \<Rightarrow> None
      | Some k \<Rightarrow>
          if k = [] then None
          else (case map_of PLANS k of
                  Some p \<Rightarrow> Some p
                | None \<Rightarrow>
                    map_of PLANS (case map_of LEGACY_PLAN_ALIASES k of Some k' \<Rightarrow> k' | None \<Rightarrow> [])))"

definition config_limit :: "string option \<Rightarrow> int" where
  "config_limit plan_key =
     (case plan_info plan_key of Some info \<Rightarrow> plan_configs info | None \<Rightarrow> DEFAULT_CONFIG_LIMIT)"

text \<open>\<open>int(info["amount"])\<close>.\<close>

definition price_of :: "plan \<Rightarrow> int" where
  "price_of p = int (nat_of_str (plan_amount p))"

subsection \<open>Lemmas\<close>

lemma PLANS_cases:
  assumes "map_of PLANS k = Some p"
  obtains "k = ''basic-1m''" "p = mk_plan ''basic'' 2 30 ''350''"
  | "k = ''basic-3m''" "p = mk_plan ''basic'' 2 90 ''900''"
  | "k = ''basic-6m''" "p = mk_plan ''basic'' 2 180 ''1700''"
  | "k = ''ext-1m''" "p = mk_plan ''ext'' 5 30 ''650''"
  | "k = ''ext-3m''" "p = mk_plan ''ext'' 5 90 ''1700''"
  | "k = ''ext-6m''" "p = mk_plan ''ext'' 5 180 ''3200''"
  using assms by (auto simp: PLANS_def split: if_splits)

lemma plan_info_in_PLANS: "plan_info key = Some p \<Longrightarrow> \<exists>k. map_of PLANS k = Some p"
  by (auto simp: plan_info_def split: option.splits if_splits)

lemma plan_info_current: "map_of PLANS k = Some p \<Longrightarrow> plan_info (Some k) = Some p"
  by (erule PLANS_cases) (simp_all add: plan_info_def PLANS_def)

lemma price_of_simps [simp]:
  "price_of (mk_plan t c n ''350'') = 350" "price_of (mk_plan t c n ''900'') = 900"
  "price_of (mk_plan t c n ''1700'') = 1700" "price_of (mk_plan t c n ''650'') = 650"
  "price_of (mk_plan t c n ''3200'') = 3200"
  by (simp_all add: price_of_def nat_of_str_def char_digit_def)

lemma plan_info_bounds:
  assumes "plan_info key = Some p"
  shows "350 \<le> price_of p \<and> price_of p \<le> 3200"
    and "30 \<le> plan_days p \<and> plan_days p \<le> 180"
    and "2 \<le> plan_configs p \<and> plan_configs p \<le> 5"
proof -
  from plan_info_in_PLANS [OF assms] obtain k where "map_of PLANS k = Some p" ..
  then show "350 \<le> price_of p \<and> price_of p \<le> 3200"
    and "30 \<le> plan_days p \<and> plan_days p \<le> 180"
    and "2 \<le> plan_configs p \<and> plan_configs p \<le> 5"
    by (auto elim!: PLANS_cases)
qed

lemma config_limit_bounds: "1 \<le> config_limit k \<and> config_limit k \<le> 5"
  using plan_info_bounds(3) [of k]
  by (auto simp: config_limit_def DEFAULT_CONFIG_LIMIT_def split: option.splits)

end
