(* ===== verification/Notify.thy ===== *)
theory Notify
  imports Models Calendar Plans
begin

section \<open>The bell (\<open>pwa/services/notify.py\<close>)\<close>

text \<open>
  One message in a customer's feed, its copy to the linked chat, the hourly reminders and
  the operator's broadcast.  The kinds are the keys of \<open>TEXTS\<close>.  A session is the pair of
  the database and the outbox; every operation returns the session it leaves.

  The lemmas show that a keyed message is written at most once per customer, that the
  operations keep the unique constraint of the table, that nothing but the feed and the
  outbox changes, and that a second reminder run over the same window sends nothing.
\<close>

type_synonym session = "db \<times> outbox"

datatype kind = Paid | Granted | TrialStarted | TrialEnds1d | TrialEnded
  | SubEnds3d | SubEnds1d | ReferralBonus | SubEnded

fun kind_name :: "kind \<Rightarrow> string" where
  "kind_name Paid = ''paid''"
| "kind_name Granted = ''granted''"
| "kind_name TrialStarted = ''trial_started''"
| "kind_name TrialEnds1d = ''trial_ends_1d''"
| "kind_name TrialEnded = ''trial_ended''"
| "kind_name SubEnds3d = ''sub_ends_3d''"
| "kind_name SubEnds1d = ''sub_ends_1d''"
| "kind_name ReferralBonus = ''referral_bonus''"
| "kind_name SubEnded = ''sub_ended''"

fun LINKS :: "kind \<Rightarrow> string option" where
  "LINKS Paid = Some ''config''"
| "LINKS Granted = Some ''config''"
| "LINKS TrialStarted = Some ''config''"
| "LINKS TrialEnds1d = Some ''payment''"
| "LINKS TrialEnded = Some ''payment''"
| "LINKS SubEnds3d = Some ''payment''"
| "LINKS SubEnds1d = Some ''payment''"
| "LINKS SubEnded = Some ''payment''"
| "LINKS ReferralBonus = Some ''invite''"

definition text_lang :: "user \<Rightarrow> string" where
  "text_lang u = (if lang u = ''en'' then ''en'' else ''ru'')"

text \<open>\<open>services/telegram.py\<close>: \<open>enabled\<close> and \<open>send_later\<close>, which does nothing without a
  bot token or a chat.\<close>

definition tg_enabled :: "env \<Rightarrow> bool" where
  "tg_enabled e = (getenv e ''TG_BOT_TOKEN'' [] \<noteq> [])"

definition tg_send_later :: "env \<Rightarrow> int option \<Rightarrow> bell_text \<Rightarrow> string option \<Rightarrow> outbox \<Rightarrow> outbox" where
  "tg_send_later e chat txt page out =
     (case chat of
        None \<Rightarrow> out
      | Some c \<Rightarrow> if \<not> tg_enabled e \<or> c = 0 then out
                  else out\<lparr>messages := messages out @ [(c, txt, page)]\<rparr>)"

text \<open>\<open>services/mailer.py\<close>: \<open>send_later\<close> schedules a letter; an account without a mailbox
  gets none.\<close>

definition mail_send_later :: "string option \<Rightarrow> (string \<Rightarrow> letter) \<Rightarrow> outbox \<Rightarrow> outbox" where
  "mail_send_later to mk out =
     (case to of
        None \<Rightarrow> out
      | Some a \<Rightarrow> if a = [] then out else out\<lparr>letters := letters out @ [mk a]\<rparr>)"

definition already_sent :: "db \<Rightarrow> user \<Rightarrow> string option \<Rightarrow> bool" where
  "already_sent d u dedupe =
     (case dedupe of
        None \<Rightarrow> False
      | Some key \<Rightarrow>
          list_ex (\<lambda>n. nt_user_id n = u_id u \<and> dedupe_key n = Some key) (notifications d))"

definition notify ::
  "env \<Rightarrow> user \<Rightarrow> kind \<Rightarrow> string option \<Rightarrow> (string \<times> param) list \<Rightarrow> datetime \<Rightarrow> session \<Rightarrow> bool \<times> session"
where
  "notify e u k dedupe params now s =
     (case s of (d, out) \<Rightarrow>
        if already_sent d u dedupe then (False, d, out)
        else
          let txt = Template (kind_name k) (text_lang u) params;
              (i, d1) = new_uuid d;
              row = \<lparr>nt_id = i, nt_user_id = u_id u, nt_kind = kind_name k, nt_text = txt,
                     nt_link = LINKS k, dedupe_key = dedupe, nt_created_at = now,
                     read_at = None\<rparr>
          in (True, d1\<lparr>notifications := notifications d1 @ [row]\<rparr>,
              tg_send_later e (telegram_id u) txt (LINKS k) out))"

text \<open>\<open>_when\<close>: the Russian pattern spells out "v" and "MSK" in Cyrillic (UTF-8 bytes here).\<close>

definition at_ru :: string where
  "at_ru = '' '' @ map char_of [208, 178::nat] @ '' ''"

definition msk_ru :: string where
  "msk_ru = '' '' @ map char_of [208, 156, 208, 161, 208, 154::nat]"

definition fmt_when :: "datetime \<Rightarrow> string \<Rightarrow> string" where
  "fmt_when t lng =
     (if lng = ''en'' then strftime_day_minute t '' at '' '' Moscow time''
      else strftime_day_minute t at_ru msk_ru)"

definition letter_for :: "user \<Rightarrow> kind \<Rightarrow> datetime \<Rightarrow> outbox \<Rightarrow> outbox" where
  "letter_for u k until out =
     mail_send_later (email u) (\<lambda>a. Reminder a (kind_name k) until) out"

definition broadcast :: "env \<Rightarrow> string \<Rightarrow> string \<Rightarrow> datetime \<Rightarrow> session \<Rightarrow> int \<times> session" where
  "broadcast e title body now s =
     (case s of (d, out) \<Rightarrow>
        let us = filter u_is_active (users d);
            add = (\<lambda>u d. let (i, d1) = new_uuid d in
                     d1\<lparr>notifications := notifications d1 @
                       [\<lparr>nt_id = i, nt_user_id = u_id u, nt_kind = ''service'',
                         nt_text = Operator title body, nt_link = None, dedupe_key = None,
                         nt_created_at = now, read_at = None\<rparr>]\<rparr>)
        in (int (length us), fold add us d,
            fold (\<lambda>u. tg_send_later e (telegram_id u) (Operator title body) None) us out))"

subsection \<open>The hourly reminders\<close>

definition sub_reminder :: "user \<Rightarrow> datetime \<Rightarrow> datetime \<Rightarrow> kind \<times> string" where
  "sub_reminder u until now =
     (if until \<le> now + days 1 then (SubEnds1d, ''sub1:'' @ isoformat until)
      else (SubEnds3d, ''sub3:'' @ isoformat until))"

fun remind_subs :: "env \<Rightarrow> datetime \<Rightarrow> user list \<Rightarrow> int \<times> session \<Rightarrow> int \<times> session" where
  "remind_subs e now [] st = st"
| "remind_subs e now (u # us) (n, s) =
     (let until = the (subscribed_until u);
          (k, key) = sub_reminder u until now;
          (sent, d, out) = notify e u k (Some key) [(''until'', PStr (fmt_when until (text_lang u)))] now s
      in remind_subs e now us
           (if sent then (n + 1, d, if k = SubEnds3d then letter_for u k until out else out)
            else (n, d, out)))"

fun remind_trials :: "env \<Rightarrow> datetime \<Rightarrow> user list \<Rightarrow> int \<times> session \<Rightarrow> int \<times> session" where
  "remind_trials e now [] st = st"
| "remind_trials e now (u # us) (n, s) =
     (if (case subscribed_until u of None \<Rightarrow> False | Some t \<Rightarrow> t > now)
      then remind_trials e now us (n, s)
      else
        let until = the (trial_until u);
            (sent, d, out) = notify e u TrialEnds1d (Some (''trial1:'' @ isoformat until))
                               [(''until'', PStr (fmt_when until (text_lang u)))] now s
        in remind_trials e now us
             (if sent then (n + 1, d, letter_for u TrialEnds1d until out) else (n, d, out)))"

definition subs_ending :: "datetime \<Rightarrow> db \<Rightarrow> user list" where
  "subs_ending now d =
     filter (\<lambda>u. is_subscribed u \<and>
                 (case subscribed_until u of None \<Rightarrow> False | Some t \<Rightarrow> t > now \<and> t \<le> now + days 3))
       (users d)"

definition trials_ending :: "datetime \<Rightarrow> db \<Rightarrow> user list" where
  "trials_ending now d =
     filter (\<lambda>u. case trial_until u of None \<Rightarrow> False | Some t \<Rightarrow> t > now \<and> t \<le> now + days 1)
       (users d)"

definition remind_due :: "env \<Rightarrow> datetime \<Rightarrow> session \<Rightarrow> int \<times> session" where
  "remind_due e now s =
     (let st = remind_subs e now (subs_ending now (fst s)) (0, s)
      in remind_trials e now (trials_ending now (fst (snd st))) st)"

text \<open>Called by the expiry sweeps when a period's devices have come off.\<close>

definition ended :: "env \<Rightarrow> user \<Rightarrow> kind \<Rightarrow> datetime \<Rightarrow> datetime \<Rightarrow> session \<Rightarrow> session" where
  "ended e u k until now s =
     (let (sent, d, out) = notify e u k (Some (kind_name k @ '':'' @ isoformat until)) [] now s
      in (d, if sent \<and> k = SubEnded then letter_for u k until out else out))"

subsection \<open>Lemmas\<close>

definition feed_unique :: "db \<Rightarrow> bool" where
  "feed_unique d = unique_on (\<lambda>n. map_option (Pair (nt_user_id n)) (dedupe_key n)) (notifications d)"

text \<open>Everything but the feed and the position of the generator.\<close>

definition same_but_feed :: "db \<Rightarrow> db \<Rightarrow> bool" where
  "same_but_feed d d' =
     (users d' = users d \<and> configs d' = configs d \<and> payments d' = payments d \<and>
      promo_codes d' = promo_codes d \<and> credit_entries d' = credit_entries d \<and>
      referral_rewards d' = referral_rewards d \<and> telegram_supports d' = telegram_supports d \<and>
      trial_grants d' = trial_grants d \<and> peer_labels d' = peer_labels d \<and>
      monitor_events d' = monitor_events d \<and> app_sessions d' = app_sessions d \<and>
      uuid_tape d' = uuid_tape d)"

lemma same_but_feed_refl [simp]: "same_but_feed d d"
  by (simp add: same_but_feed_def)

lemma same_but_feed_trans [trans]: "same_but_feed a b \<Longrightarrow> same_but_feed b c \<Longrightarrow> same_but_feed a c"
  by (simp add: same_but_feed_def)

lemma same_but_feed_get_user: "same_but_feed d d' \<Longrightarrow> get_user d' i = get_user d i"
  by (simp add: same_but_feed_def get_user_def)

lemma notify_same_but_feed: "notify e u k dk ps now (d, out) = (b, d', out') \<Longrightarrow> same_but_feed d d'"
  by (auto simp: notify_def new_uuid_def same_but_feed_def Let_def split: if_splits)

lemma notify_unique:
  assumes "feed_unique d" and "notify e u k dk ps now (d, out) = (b, d', out')"
  shows "feed_unique d'"
  using assms
  by (auto simp: notify_def feed_unique_def already_sent_def new_uuid_def Let_def
      unique_on_append_single list_ex_iff split: if_splits option.splits)

lemma notify_already:
  "already_sent d u dk \<Longrightarrow> notify e u k dk ps now (d, out) = (False, d, out)"
  by (simp add: notify_def)

lemma notify_marks:
  "notify e u k (Some key) ps now (d, out) = (b, d', out') \<Longrightarrow> already_sent d' u (Some key)"
  by (auto simp: notify_def already_sent_def new_uuid_def Let_def split: if_splits)

lemma notify_keeps_marks:
  "notify e u k dk ps now (d, out) = (b, d', out') \<Longrightarrow> already_sent d v (Some key) \<Longrightarrow>
   already_sent d' v (Some key)"
  by (auto simp: notify_def already_sent_def new_uuid_def Let_def split: if_splits)

lemma notify_in_feed:
  "notify e u k dk ps now (d, out) = (b, d', out') \<Longrightarrow> set (notifications d) \<subseteq> set (notifications d')"
  by (auto simp: notify_def new_uuid_def Let_def split: if_splits)

lemma ended_same_but_feed: "ended e u k until now (d, out) = (d', out') \<Longrightarrow> same_but_feed d d'"
  by (auto simp: ended_def split: prod.splits dest: notify_same_but_feed)

lemma ended_unique:
  "feed_unique d \<Longrightarrow> ended e u k until now (d, out) = (d', out') \<Longrightarrow> feed_unique d'"
  by (auto simp: ended_def split: prod.splits dest: notify_unique)

subsection \<open>Lemmas: the reminder runs\<close>

definition sub_marked :: "db \<Rightarrow> datetime \<Rightarrow> user \<Rightarrow> bool" where
  "sub_marked d now u =
     already_sent d u (Some (snd (sub_reminder u (the (subscribed_until u)) now)))"

definition trial_marked :: "db \<Rightarrow> datetime \<Rightarrow> user \<Rightarrow> bool" where
  "trial_marked d now u =
     ((case subscribed_until u of None \<Rightarrow> False | Some t \<Rightarrow> t > now) \<or>
      already_sent d u (Some (''trial1:'' @ isoformat (the (trial_until u)))))"

lemma remind_subs_run:
  assumes "remind_subs e now us (n, d, out) = (n', d', out')"
  shows "same_but_feed d d' \<and> (feed_unique d \<longrightarrow> feed_unique d') \<and>
    (\<forall>v key. already_sent d v (Some key) \<longrightarrow> already_sent d' v (Some key)) \<and>
    (\<forall>u\<in>set us. sub_marked d' now u)"
  using assms
proof (induction us arbitrary: n d out)
  case Nil
  then show ?case by simp
next
  case (Cons u us)
  obtain k key where r: "sub_reminder u (the (subscribed_until u)) now = (k, key)" by force
  obtain b d1 out1 where
    nt: "notify e u k (Some key) [(''until'', PStr (fmt_when (the (subscribed_until u)) (text_lang u)))] now (d, out)
         = (b, d1, out1)"
    by (metis prod_cases3)
  obtain n2 out2 where rest: "remind_subs e now us (n2, d1, out2) = (n', d', out')"
    using Cons.prems by (auto simp: r nt split: if_splits)
  note IH = Cons.IH [OF rest]
  have "sub_marked d' now u"
    using IH notify_marks [OF nt] by (simp add: sub_marked_def r)
  with IH show ?case
    using same_but_feed_trans [OF notify_same_but_feed [OF nt]] notify_unique [OF _ nt]
      notify_keeps_marks [OF nt] by auto
qed

lemma remind_subs_idle:
  "\<forall>u\<in>set us. sub_marked d now u \<Longrightarrow> remind_subs e now us (n, d, out) = (n, d, out)"
proof (induction us)
  case Nil
  then show ?case by simp
next
  case (Cons u us)
  obtain k key where r: "sub_reminder u (the (subscribed_until u)) now = (k, key)" by force
  with Cons.prems have "already_sent d u (Some key)"
    by (simp add: sub_marked_def)
  with Cons r show ?case
    by (simp add: notify_already)
qed

lemma remind_trials_run:
  assumes "remind_trials e now us (n, d, out) = (n', d', out')"
  shows "same_but_feed d d' \<and> (feed_unique d \<longrightarrow> feed_unique d') \<and>
    (\<forall>v key. already_sent d v (Some key) \<longrightarrow> already_sent d' v (Some key)) \<and>
    (\<forall>u\<in>set us. trial_marked d' now u)"
  using assms
proof (induction us arbitrary: n d out)
  case Nil
  then show ?case by simp
next
  case (Cons u us)
  show ?case
  proof (cases "case subscribed_until u of None \<Rightarrow> False | Some t \<Rightarrow> t > now")
    case True
    with Cons.prems have "remind_trials e now us (n, d, out) = (n', d', out')" by simp
    from Cons.IH [OF this] True show ?thesis by (simp add: trial_marked_def)
  next
    case False
    let ?key = "''trial1:'' @ isoformat (the (trial_until u))"
    let ?ps = "[(''until'', PStr (fmt_when (the (trial_until u)) (text_lang u)))]"
    obtain b d1 out1 where nt: "notify e u TrialEnds1d (Some ?key) ?ps now (d, out) = (b, d1, out1)"
      by (metis prod_cases3)
    obtain n2 out2 where rest: "remind_trials e now us (n2, d1, out2) = (n', d', out')"
      using Cons.prems False nt by (auto split: if_splits)
    note IH = Cons.IH [OF rest]
    have "trial_marked d' now u"
      using IH notify_marks [OF nt] by (simp add: trial_marked_def)
    with IH show ?thesis
      using same_but_feed_trans [OF notify_same_but_feed [OF nt]] notify_unique [OF _ nt]
        notify_keeps_marks [OF nt] by auto
  qed
qed

lemma remind_trials_idle:
  "\<forall>u\<in>set us. trial_marked d now u \<Longrightarrow> remind_trials e now us (n, d, out) = (n, d, out)"
  by (induction us) (auto simp: trial_marked_def notify_already)

lemma remind_due_run:
  assumes "remind_due e now (d, out) = (n, d', out')"
  shows "same_but_feed d d' \<and> (feed_unique d \<longrightarrow> feed_unique d') \<and>
    (\<forall>u\<in>set (subs_ending now d). sub_marked d' now u) \<and>
    (\<forall>u\<in>set (trials_ending now d). trial_marked d' now u)"
proof -
  obtain n1 d1 out1 where a: "remind_subs e now (subs_ending now d) (0, d, out) = (n1, d1, out1)"
    by (metis prod_cases3)
  with assms have b: "remind_trials e now (trials_ending now d1) (n1, d1, out1) = (n, d', out')"
    by (simp add: remind_due_def)
  note A = remind_subs_run [OF a] and B = remind_trials_run [OF b]
  from A have "trials_ending now d1 = trials_ending now d"
    by (simp add: trials_ending_def same_but_feed_def)
  with A B show ?thesis
    by (auto simp: sub_marked_def intro: same_but_feed_trans)
qed

subsection \<open>Properties\<close>

text \<open>
  A reminder run leaves nothing for a second run over the same window to send.
  Running \<open>remind_due\<close> again from the state the first run left sends no reminder, no
  letter and no bot message, and changes nothing.
\<close>

theorem remind_due_idempotent:
  "remind_due e now (snd (remind_due e now s)) = (0, snd (remind_due e now s))"
proof -
  obtain d out where s: "s = (d, out)" by force
  obtain n d' out' where r: "remind_due e now s = (n, d', out')" by (metis prod_cases3)
  note run = remind_due_run [of e now d out n d' out'] r [unfolded s]
  then have same: "same_but_feed d d'" by blast
  then have "subs_ending now d' = subs_ending now d" "trials_ending now d' = trials_ending now d"
    by (simp_all add: subs_ending_def trials_ending_def same_but_feed_def)
  with run show ?thesis
    by (simp add: remind_due_def [of e now "(d', out')"] r remind_subs_idle remind_trials_idle)
qed

end
