(* ===== verification/Credit.thy ===== *)
theory Credit
  imports Notify
begin

section \<open>Credit, promo codes and referral rewards (\<open>pwa/services/credit.py\<close>)\<close>

text \<open>
  The ledger and its balance, promo codes and their refusals, the price of an order, the
  spend written when a payment is confirmed, and the referral reward from its record to
  the day it lands on the referrer's subscription.  \<open>now\<close> is always the instant the
  Python function computed or was given.  A drawn code is read off a source of random
  indices, reduced to the alphabet as \<open>secrets.choice\<close> does.

  The lemmas give the arithmetic of a quote, the exact effect of a spend on every balance,
  a characterisation of the codes a buyer may use, and that a reward is recorded once,
  applied once, and only to a live subscription.
\<close>

definition REFERRAL_REWARD_DAYS :: int where
  "REFERRAL_REWARD_DAYS = 30"

definition REWARD_VESTING_DAYS :: int where
  "REWARD_VESTING_DAYS = 14"

definition DEFAULT_DISCOUNT_PERCENT :: int where
  "DEFAULT_DISCOUNT_PERCENT = 10"

definition CODE_ALPHABET :: string where
  "CODE_ALPHABET = ''ABCDEFGHJKLMNPQRSTUVWXYZ23456789''"

definition CODE_LENGTH :: nat where
  "CODE_LENGTH = 8"

subsection \<open>Balance\<close>

definition spendable :: "string \<Rightarrow> datetime \<Rightarrow> credit_entry \<Rightarrow> bool" where
  "spendable uid now e =
     (ce_user_id e = uid \<and>
      (case ce_vests_at e of None \<Rightarrow> True | Some t \<Rightarrow> t \<le> now) \<and>
      (case ce_expires_at e of None \<Rightarrow> True | Some t \<Rightarrow> t > now))"

definition balance :: "db \<Rightarrow> user \<Rightarrow> datetime \<Rightarrow> int" where
  "balance d u now = sum_where (spendable (u_id u) now) delta (credit_entries d)"

definition pending_balance :: "db \<Rightarrow> user \<Rightarrow> datetime \<Rightarrow> int" where
  "pending_balance d u now =
     sum_where (\<lambda>e. ce_user_id e = u_id u \<and> delta e > 0 \<and>
                    (case ce_vests_at e of None \<Rightarrow> False | Some t \<Rightarrow> t > now))
       delta (credit_entries d)"

definition history :: "db \<Rightarrow> user \<Rightarrow> nat \<Rightarrow> credit_entry list" where
  "history d u limit =
     take limit (sort_key (\<lambda>e. - ce_created_at e)
                   (filter (\<lambda>e. ce_user_id e = u_id u) (credit_entries d)))"

subsection \<open>Promo codes\<close>

definition generate_code :: "(nat \<Rightarrow> nat) \<Rightarrow> string" where
  "generate_code draw = map (\<lambda>i. CODE_ALPHABET ! (draw i mod length CODE_ALPHABET)) [0..<CODE_LENGTH]"

definition promo_of :: "db \<Rightarrow> string \<Rightarrow> promo_code option" where
  "promo_of d c = List.find (\<lambda>p. code p = c) (promo_codes d)"

datatype runtime_error = RuntimeError string

fun try_codes :: "db \<Rightarrow> (nat \<Rightarrow> nat) list \<Rightarrow> runtime_error + string" where
  "try_codes d [] = Inl (RuntimeError ''could not generate an unused promo code'')"
| "try_codes d (draw # draws) =
     (case promo_of d (generate_code draw) of
        None \<Rightarrow> Inr (generate_code draw)
      | Some _ \<Rightarrow> try_codes d draws)"

text \<open>Ten attempts; \<open>draws a\<close> is what the random source gives the attempt \<open>a\<close>.\<close>

definition unused_code :: "db \<Rightarrow> (nat \<Rightarrow> nat \<Rightarrow> nat) \<Rightarrow> runtime_error + string" where
  "unused_code d draws = try_codes d (map draws [0..<10])"

definition code_for :: "db \<Rightarrow> user \<Rightarrow> promo_code option" where
  "code_for d u = List.find (\<lambda>p. owner_user_id p = Some (u_id u) \<and> pc_is_active p) (promo_codes d)"

definition issue_code ::
  "db \<Rightarrow> user \<Rightarrow> (nat \<Rightarrow> nat \<Rightarrow> nat) \<Rightarrow> datetime \<Rightarrow> runtime_error + promo_code \<times> db"
where
  "issue_code d u draws now =
     (case code_for d u of
        Some existing \<Rightarrow> Inr (existing, d)
      | None \<Rightarrow>
          (case unused_code d draws of
             Inl err \<Rightarrow> Inl err
           | Inr c \<Rightarrow>
               let (i, d1) = new_uuid d;
                   promo = \<lparr>pc_id = i, code = c, owner_user_id = Some (u_id u),
                            discount_percent = DEFAULT_DISCOUNT_PERCENT, max_uses = None,
                            pc_is_active = True, pc_expires_at = None, pc_created_at = now,
                            pc_note = None\<rparr>
               in Inr (promo, d1\<lparr>promo_codes := promo_codes d1 @ [promo]\<rparr>)))"

definition uses_of :: "db \<Rightarrow> string \<Rightarrow> int" where
  "uses_of d c = count_where (\<lambda>p. p_promo_code p = Some c \<and> p_status p = ''paid'') (payments d)"

definition is_first_purchase :: "db \<Rightarrow> user \<Rightarrow> bool" where
  "is_first_purchase d u =
     (count_where (\<lambda>p. p_user_id p = u_id u \<and> p_status p \<in> {''paid'', ''paid_over''} \<and>
                       (provider p = None \<or> provider p \<noteq> Some ''manual'')) (payments d) = 0)"

text \<open>A code given by the customer; an absent and an empty one are both no code.\<close>

definition given :: "string option \<Rightarrow> bool" where
  "given c = (case c of None \<Rightarrow> False | Some s \<Rightarrow> s \<noteq> [])"

definition resolve_code ::
  "db \<Rightarrow> string option \<Rightarrow> user \<Rightarrow> datetime \<Rightarrow> promo_code option \<times> string option"
where
  "resolve_code d c buyer now =
     (if \<not> given c then (None, None)
      else
        case promo_of d (upper (strip (the c))) of
          None \<Rightarrow> (None, Some ''unknown'')
        | Some promo \<Rightarrow>
            if \<not> pc_is_active promo then (None, Some ''inactive'')
            else if (case pc_expires_at promo of None \<Rightarrow> False | Some t \<Rightarrow> t \<le> now)
              then (None, Some ''expired'')
            else if (case max_uses promo of None \<Rightarrow> False | Some m \<Rightarrow> uses_of d (code promo) \<ge> m)
              then (None, Some ''used_up'')
            else if owner_user_id promo = Some (u_id buyer) then (None, Some ''own_code'')
            else if owner_user_id promo \<noteq> None \<and> \<not> is_first_purchase d buyer
              then (None, Some ''not_first'')
            else (Some promo, None))"

definition REFUSAL_TEXT :: "(string \<times> string) list" where
  "REFUSAL_TEXT =
     [(''unknown'', ''Unknown code''),
      (''inactive'', ''This code is no longer active''),
      (''expired'', ''This code has expired''),
      (''used_up'', ''This code has been used up''),
      (''own_code'', ''You cannot use your own referral code''),
      (''not_first'', ''A friend'' @ [char_of (39::nat)] @ ''s code applies to the first purchase only'')]"

subsection \<open>Pricing an order\<close>

definition discounted_price :: "string \<Rightarrow> promo_code option \<Rightarrow> int option" where
  "discounted_price plan_key promo =
     (case plan_info (Some plan_key) of
        None \<Rightarrow> None
      | Some info \<Rightarrow>
          let price = price_of info in
          case promo of
            None \<Rightarrow> Some price
          | Some p \<Rightarrow> Some (price - round_div (price * discount_percent p) 100))"

definition max_credit_for :: "int \<Rightarrow> int" where
  "max_credit_for amount = trunc_div amount 2"

record quote =
  q_plan :: string
  base_price :: int
  discount :: int
  q_promo_code :: "string option"
  promo_auto :: bool
  promo_refused :: "string option"
  promo_refused_text :: "string option"
  credit_available :: int
  credit_max :: int
  q_credit_spent :: int
  q_amount :: int

text \<open>\<open>None\<close> where the unknown plan raises.\<close>

definition price_order ::
  "db \<Rightarrow> user \<Rightarrow> string \<Rightarrow> string option \<Rightarrow> int \<Rightarrow> datetime \<Rightarrow> quote option"
where
  "price_order d u plan_key c use_credit now =
     (let (promo0, refusal) = resolve_code d c u now;
          try_link = \<not> given c \<and> given (referred_code u) \<and> is_first_purchase d u;
          promo = (if try_link then fst (resolve_code d (referred_code u) u now) else promo0);
          auto = (try_link \<and> promo \<noteq> None)
      in case plan_info (Some plan_key) of
           None \<Rightarrow> None
         | Some info \<Rightarrow>
             (case discounted_price plan_key promo of
                None \<Rightarrow> None
              | Some after_discount \<Rightarrow>
                  let base = price_of info;
                      available = balance d u now;
                      credit = max 0 (min (min use_credit available) (max_credit_for after_discount))
                  in Some \<lparr>q_plan = plan_key, base_price = base,
                           discount = base - after_discount,
                           q_promo_code = map_option code promo, promo_auto = auto,
                           promo_refused = refusal,
                           promo_refused_text =
                             (case refusal of None \<Rightarrow> None | Some r \<Rightarrow> map_of REFUSAL_TEXT r),
                           credit_available = available,
                           credit_max = max_credit_for after_discount,
                           q_credit_spent = credit, q_amount = after_discount - credit\<rparr>))"

subsection \<open>Ledger writes\<close>

definition spend_on_payment :: "db \<Rightarrow> payment \<Rightarrow> datetime \<Rightarrow> int \<times> db" where
  "spend_on_payment d p now =
     (if credit_spent p \<le> 0 then (0, d)
      else if list_ex (\<lambda>e. reason e = ''spend'' \<and> ce_payment_id e = Some (p_id p)) (credit_entries d)
        then (0, d)
      else
        let (i, d1) = new_uuid d;
            entry = \<lparr>ce_id = i, ce_user_id = p_user_id p, delta = - credit_spent p,
                     reason = ''spend'', ce_payment_id = Some (p_id p),
                     ce_source_payment_id = None, ce_vests_at = None, ce_expires_at = None,
                     ce_created_at = now, ce_note = Some (''order '' @ p_plan p)\<rparr>
        in (credit_spent p, d1\<lparr>credit_entries := credit_entries d1 @ [entry]\<rparr>))"

definition reward_for_payment :: "db \<Rightarrow> payment \<Rightarrow> datetime \<Rightarrow> int \<times> db" where
  "reward_for_payment d p now =
     (if \<not> given (p_promo_code p) then (0, d)
      else
        case promo_of d (the (p_promo_code p)) of
          None \<Rightarrow> (0, d)
        | Some promo \<Rightarrow>
            (case owner_user_id promo of
               None \<Rightarrow> (0, d)
             | Some owner \<Rightarrow>
                 if owner = p_user_id p then (0, d)
                 else if plan_info (Some (p_plan p)) = None then (0, d)
                 else if p_amount p \<le> 0 then (0, d)
                 else if list_ex (\<lambda>r. source_payment_id r = p_id p) (referral_rewards d) then (0, d)
                 else
                   let (i, d1) = new_uuid d;
                       reward = \<lparr>rr_id = i, referrer_user_id = owner,
                                 source_payment_id = p_id p, rr_days = REFERRAL_REWARD_DAYS,
                                 vests_at = now + days REWARD_VESTING_DAYS, applied_at = None,
                                 rr_created_at = now, rr_note = Some (''referral: '' @ p_plan p)\<rparr>
                   in (REFERRAL_REWARD_DAYS,
                       d1\<lparr>referral_rewards := referral_rewards d1 @ [reward]\<rparr>)))"

definition cancel_reward_for_payment :: "db \<Rightarrow> payment \<Rightarrow> datetime \<Rightarrow> int \<times> db" where
  "cancel_reward_for_payment d p now =
     (case List.find (\<lambda>r. source_payment_id r = p_id p) (referral_rewards d) of
        Some reward \<Rightarrow>
          if applied_at reward \<noteq> None then (0, d)
          else (rr_days reward,
                d\<lparr>referral_rewards := filter (\<lambda>r. rr_id r \<noteq> rr_id reward) (referral_rewards d)\<rparr>)
      | None \<Rightarrow>
          (case List.find (\<lambda>e. reason e = ''referral_reward'' \<and> ce_source_payment_id e = Some (p_id p))
                  (credit_entries d) of
             None \<Rightarrow> (0, d)
           | Some entry \<Rightarrow>
               if (case ce_vests_at entry of None \<Rightarrow> False | Some t \<Rightarrow> t \<le> now) then (0, d)
               else (delta entry,
                     d\<lparr>credit_entries := filter (\<lambda>e. ce_id e \<noteq> ce_id entry) (credit_entries d)\<rparr>)))"

definition subscribed :: "user \<Rightarrow> datetime \<Rightarrow> bool" where
  "subscribed u now =
     (is_subscribed u \<and> (case subscribed_until u of None \<Rightarrow> False | Some t \<Rightarrow> t > now))"

definition due_rewards :: "db \<Rightarrow> string \<Rightarrow> datetime \<Rightarrow> referral_reward list" where
  "due_rewards d uid now =
     filter (\<lambda>r. referrer_user_id r = uid \<and> applied_at r = None \<and> vests_at r \<le> now)
       (referral_rewards d)"

fun apply_each ::
  "env \<Rightarrow> datetime \<Rightarrow> referral_reward list \<Rightarrow> int \<Rightarrow> user \<Rightarrow> session \<Rightarrow> int \<times> user \<times> session"
where
  "apply_each e now [] added u s = (added, u, s)"
| "apply_each e now (r # rs) added u (d, out) =
     (let u1 = u\<lparr>subscribed_until := map_option (\<lambda>t. t + days (rr_days r)) (subscribed_until u)\<rparr>;
          d1 = put_reward (r\<lparr>applied_at := Some now\<rparr>) (put_user u1 d);
          (b, s1) = notify e u1 ReferralBonus (Some (''referral:'' @ rr_id r))
                      [(''days'', PStr (str_int (rr_days r))),
                       (''date'', PStr (strftime_date (the (subscribed_until u1))))] now (d1, out)
      in apply_each e now rs (added + rr_days r) u1 s1)"

definition apply_rewards_for :: "env \<Rightarrow> user \<Rightarrow> datetime \<Rightarrow> session \<Rightarrow> int \<times> user \<times> session" where
  "apply_rewards_for e u now s =
     (if \<not> subscribed u now then (0, u, s)
      else apply_each e now (due_rewards (fst s) (u_id u) now) 0 u s)"

fun apply_owners :: "env \<Rightarrow> datetime \<Rightarrow> string list \<Rightarrow> int \<Rightarrow> int \<Rightarrow> session \<Rightarrow> int \<times> int \<times> session" where
  "apply_owners e now [] rewarded added s = (rewarded, added, s)"
| "apply_owners e now (uid # uids) rewarded added s =
     (case get_user (fst s) uid of
        None \<Rightarrow> apply_owners e now uids rewarded added s
      | Some u \<Rightarrow>
          let (n, u', s') = apply_rewards_for e u now s in
          apply_owners e now uids (if n \<noteq> 0 then rewarded + 1 else rewarded)
            (if n \<noteq> 0 then added + n else added) s')"

text \<open>Returns \<open>referrers_rewarded\<close>, \<open>referral_days_added\<close> and the committed session.\<close>

definition apply_due_rewards :: "env \<Rightarrow> datetime \<Rightarrow> session \<Rightarrow> int \<times> int \<times> session" where
  "apply_due_rewards e now s =
     (let owners = remdups (map referrer_user_id
                     (filter (\<lambda>r. applied_at r = None \<and> vests_at r \<le> now) (referral_rewards (fst s))))
      in apply_owners e now owners 0 0 s)"

definition rewards_of :: "db \<Rightarrow> user \<Rightarrow> referral_reward list" where
  "rewards_of d u =
     take 50 (sort_key (\<lambda>r. - rr_created_at r)
                (filter (\<lambda>r. referrer_user_id r = u_id u) (referral_rewards d)))"

subsection \<open>Lemmas: the quote\<close>

text \<open>What the admin page lets a code be: \<open>api/admin_promo.py\<close> refuses a discount outside 1..60.\<close>

definition discounts_ok :: "db \<Rightarrow> bool" where
  "discounts_ok d = list_all (\<lambda>p. 0 \<le> discount_percent p \<and> discount_percent p \<le> 60) (promo_codes d)"

lemma promo_of_SomeD: "promo_of d c = Some p \<Longrightarrow> p \<in> set (promo_codes d) \<and> code p = c"
  by (auto simp: promo_of_def dest: find_SomeD)

lemma resolve_code_SomeD:
  assumes "resolve_code d c u now = (Some p, r)"
  shows "given c" "promo_of d (upper (strip (the c))) = Some p" "r = None" "pc_is_active p"
    "case pc_expires_at p of None \<Rightarrow> True | Some t \<Rightarrow> now < t"
    "case max_uses p of None \<Rightarrow> True | Some m \<Rightarrow> uses_of d (code p) < m"
    "owner_user_id p \<noteq> Some (u_id u)"
    "owner_user_id p \<noteq> None \<Longrightarrow> is_first_purchase d u"
  using assms by (auto simp: resolve_code_def split: if_splits option.splits)

lemma resolve_code_in_table: "resolve_code d c u now = (Some p, r) \<Longrightarrow> p \<in> set (promo_codes d)"
  using resolve_code_SomeD(2) promo_of_SomeD by blast

lemma discounted_price_bounds:
  assumes "discounted_price k promo = Some a" and "plan_info (Some k) = Some info"
    and "\<And>p. promo = Some p \<Longrightarrow> 0 \<le> discount_percent p \<and> discount_percent p \<le> 60"
  shows "0 < a \<and> a \<le> price_of info \<and> 2 * price_of info \<le> 5 * a + 3"
proof (cases promo)
  case None
  with assms plan_info_bounds(1) [OF assms(2)] show ?thesis
    by (simp add: discounted_price_def Let_def)
next
  case (Some p)
  define P where "P = price_of info"
  have P: "350 \<le> P" using plan_info_bounds(1) [OF assms(2)] by (simp add: P_def)
  have dp: "0 \<le> discount_percent p" "discount_percent p \<le> 60" using assms(3) [OF Some] by auto
  let ?r = "round_div (P * discount_percent p) 100"
  have a: "a = P - ?r"
    using assms Some by (simp add: discounted_price_def Let_def P_def)
  have "0 \<le> P * discount_percent p" "P * discount_percent p \<le> P * 60"
    using dp P by (simp_all add: mult_left_mono)
  moreover have "0 \<le> ?r" using round_div_nonneg [of 100] dp P by simp
  moreover have "2 * (?r * 100) \<le> 2 * (P * discount_percent p) + 100"
    using round_div_bounds [of 100 "P * discount_percent p"] by simp
  ultimately show ?thesis
    using P a unfolding P_def [symmetric] by linarith
qed

lemma price_order_cases:
  assumes "price_order d u k c use now = Some q"
  obtains info promo a where "plan_info (Some k) = Some info" "discounted_price k promo = Some a"
    "promo = None \<or> (\<exists>c' r. resolve_code d c' u now = (promo, r) \<and>
       (c' = c \<or> \<not> given c \<and> c' = referred_code u \<and> is_first_purchase d u))"
    "base_price q = price_of info" "discount q = price_of info - a"
    "q_promo_code q = map_option code promo" "credit_available q = balance d u now"
    "q_credit_spent q = max 0 (min (min use (balance d u now)) (max_credit_for a))"
    "q_amount q = a - q_credit_spent q"
proof -
  define link where "link = (\<not> given c \<and> given (referred_code u) \<and> is_first_purchase d u)"
  define promo where
    "promo = (if link then fst (resolve_code d (referred_code u) u now) else fst (resolve_code d c u now))"
  obtain info where i: "plan_info (Some k) = Some info"
    using assms by (auto simp: price_order_def Let_def split: option.splits prod.splits)
  obtain a where a: "discounted_price k promo = Some a"
    using i by (cases promo) (simp_all add: discounted_price_def Let_def)
  have src: "promo = None \<or> (\<exists>c' r. resolve_code d c' u now = (promo, r) \<and>
       (c' = c \<or> \<not> given c \<and> c' = referred_code u \<and> is_first_purchase d u))"
  proof (cases link)
    case True
    then have "resolve_code d (referred_code u) u now = (promo, snd (resolve_code d (referred_code u) u now))"
      by (simp add: promo_def)
    with True show ?thesis unfolding link_def by blast
  next
    case False
    then have "resolve_code d c u now = (promo, snd (resolve_code d c u now))"
      by (simp add: promo_def)
    then show ?thesis by blast
  qed
  have "q = \<lparr>q_plan = k, base_price = price_of info, discount = price_of info - a,
      q_promo_code = map_option code promo, promo_auto = (link \<and> promo \<noteq> None),
      promo_refused = snd (resolve_code d c u now),
      promo_refused_text =
        (case snd (resolve_code d c u now) of None \<Rightarrow> None | Some r \<Rightarrow> map_of REFUSAL_TEXT r),
      credit_available = balance d u now, credit_max = max_credit_for a,
      q_credit_spent = max 0 (min (min use (balance d u now)) (max_credit_for a)),
      q_amount = a - max 0 (min (min use (balance d u now)) (max_credit_for a))\<rparr>"
    using assms i a
    unfolding price_order_def Let_def case_prod_beta link_def [symmetric] promo_def [symmetric]
    by simp
  then show ?thesis
    by (intro that [OF i a src]) simp_all
qed

subsection \<open>Lemmas: the ledger\<close>

lemma spend_on_payment_cases:
  assumes "spend_on_payment d p now = (n, d')"
  obtains "n = 0" "d' = d"
  | entry where "n = credit_spent p" "0 < n"
      "\<not> list_ex (\<lambda>e. reason e = ''spend'' \<and> ce_payment_id e = Some (p_id p)) (credit_entries d)"
      "ce_user_id entry = p_user_id p" "delta entry = - n" "ce_vests_at entry = None"
      "ce_expires_at entry = None" "reason entry = ''spend''" "ce_payment_id entry = Some (p_id p)"
      "d' = (snd (new_uuid d))\<lparr>credit_entries := credit_entries d @ [entry]\<rparr>"
proof (cases "credit_spent p \<le> 0 \<or>
    list_ex (\<lambda>e. reason e = ''spend'' \<and> ce_payment_id e = Some (p_id p)) (credit_entries d)")
  case True
  with assms have "n = 0" "d' = d" by (auto simp: spend_on_payment_def split: if_splits)
  with that(1) show ?thesis by blast
next
  case False
  with assms show ?thesis
    by (intro that(2) [of "last (credit_entries d')"])
      (auto simp: spend_on_payment_def new_uuid_def Let_def)
qed

lemma balance_append:
  "credit_entries d' = credit_entries d @ [e] \<Longrightarrow>
   balance d' u now = balance d u now + (if spendable (u_id u) now e then delta e else 0)"
  by (simp add: balance_def table_simps)

lemma spend_balance:
  assumes "spend_on_payment d p now = (n, d')"
  shows "balance d' u t = balance d u t - (if u_id u = p_user_id p then n else 0)"
  using assms
proof (cases rule: spend_on_payment_cases)
  case (2 entry)
  then have "credit_entries d' = credit_entries d @ [entry]" by simp
  from balance_append [OF this] 2 show ?thesis by (auto simp: spendable_def)
qed simp

lemma spend_on_payment_frame [simp]:
  "users (snd (spend_on_payment d p now)) = users d" "configs (snd (spend_on_payment d p now)) = configs d"
  "payments (snd (spend_on_payment d p now)) = payments d"
  "promo_codes (snd (spend_on_payment d p now)) = promo_codes d"
  "referral_rewards (snd (spend_on_payment d p now)) = referral_rewards d"
  "trial_grants (snd (spend_on_payment d p now)) = trial_grants d"
  "notifications (snd (spend_on_payment d p now)) = notifications d"
  "uuid_tape (snd (spend_on_payment d p now)) = uuid_tape d"
  "uuid_pos d \<le> uuid_pos (snd (spend_on_payment d p now))"
  by (simp_all add: spend_on_payment_def new_uuid_def Let_def)

lemma reward_for_payment_frame [simp]:
  "users (snd (reward_for_payment d p now)) = users d" "configs (snd (reward_for_payment d p now)) = configs d"
  "payments (snd (reward_for_payment d p now)) = payments d"
  "promo_codes (snd (reward_for_payment d p now)) = promo_codes d"
  "credit_entries (snd (reward_for_payment d p now)) = credit_entries d"
  "trial_grants (snd (reward_for_payment d p now)) = trial_grants d"
  "notifications (snd (reward_for_payment d p now)) = notifications d"
  "uuid_tape (snd (reward_for_payment d p now)) = uuid_tape d"
  by (simp_all add: reward_for_payment_def new_uuid_def Let_def split: option.splits)

lemma reward_for_payment_rows:
  "referral_rewards (snd (reward_for_payment d p now)) = referral_rewards d \<or>
   (\<exists>r. referral_rewards (snd (reward_for_payment d p now)) = referral_rewards d @ [r] \<and>
      rr_id r = uuid_tape d (uuid_pos d) \<and> referrer_user_id r \<noteq> p_user_id p)"
  by (auto simp: reward_for_payment_def new_uuid_def Let_def split: option.splits)

definition earns_reward :: "db \<Rightarrow> payment \<Rightarrow> string \<Rightarrow> bool" where
  "earns_reward d p owner =
     (given (p_promo_code p) \<and>
      map_option owner_user_id (promo_of d (the (p_promo_code p))) = Some (Some owner) \<and>
      owner \<noteq> p_user_id p \<and> plan_info (Some (p_plan p)) \<noteq> None \<and> 0 < p_amount p \<and>
      \<not> list_ex (\<lambda>r. source_payment_id r = p_id p) (referral_rewards d))"

lemma reward_for_payment_not:
  "(\<And>owner. \<not> earns_reward d p owner) \<Longrightarrow> reward_for_payment d p now = (0, d)"
  by (auto simp: reward_for_payment_def earns_reward_def split: option.splits)

lemma reward_for_payment_earns:
  assumes "earns_reward d p owner"
  shows "\<exists>i. reward_for_payment d p now =
     (30, (snd (new_uuid d))\<lparr>referral_rewards := referral_rewards d @
        [\<lparr>rr_id = i, referrer_user_id = owner, source_payment_id = p_id p, rr_days = 30,
          vests_at = now + days 14, applied_at = None, rr_created_at = now,
          rr_note = Some (''referral: '' @ p_plan p)\<rparr>]\<rparr>)"
  using assms
  by (auto simp: reward_for_payment_def earns_reward_def new_uuid_def Let_def
      REFERRAL_REWARD_DAYS_def REWARD_VESTING_DAYS_def)

lemma earns_reward_unique: "earns_reward d p a \<Longrightarrow> earns_reward d p b \<Longrightarrow> a = b"
  by (auto simp: earns_reward_def)

definition reward_applied :: "db \<Rightarrow> payment \<Rightarrow> bool" where
  "reward_applied d p =
     (list_ex (\<lambda>r. source_payment_id r = p_id p) (referral_rewards d) \<and>
      list_all (\<lambda>r. source_payment_id r = p_id p \<longrightarrow> applied_at r \<noteq> None) (referral_rewards d))"

lemma cancel_keeps_applied:
  assumes "reward_applied d p"
  shows "cancel_reward_for_payment d p t = (0, d)"
proof -
  obtain r where r: "List.find (\<lambda>r. source_payment_id r = p_id p) (referral_rewards d) = Some r"
    using assms by (cases "List.find (\<lambda>r. source_payment_id r = p_id p) (referral_rewards d)")
      (auto simp: reward_applied_def list_ex_iff find_None_iff_list)
  with assms find_SomeD [OF r] show ?thesis
    by (auto simp: cancel_reward_for_payment_def reward_applied_def list_all_iff)
qed

subsection \<open>Lemmas: applying rewards\<close>

text \<open>The rewards among \<open>rs\<close> marked as applied at \<open>now\<close>.\<close>

definition mark_applied :: "datetime \<Rightarrow> referral_reward list \<Rightarrow> referral_reward list \<Rightarrow> referral_reward list" where
  "mark_applied now rs table =
     update_where (\<lambda>r. rr_id r \<in> rr_id ` set rs) (\<lambda>r. r\<lparr>applied_at := Some now\<rparr>) table"

definition extend_by :: "int \<Rightarrow> user \<Rightarrow> user" where
  "extend_by n u = u\<lparr>subscribed_until := map_option (\<lambda>t. t + days n) (subscribed_until u)\<rparr>"

lemma extend_by_0 [simp]: "extend_by 0 u = u"
  by (simp add: extend_by_def option.map_ident)

lemma extend_by_id [simp]: "u_id (extend_by n u) = u_id u"
  by (simp add: extend_by_def)

lemma extend_by_extend_by [simp]: "extend_by m (extend_by n u) = extend_by (n + m) u"
  by (simp add: extend_by_def option.map_comp comp_def add.assoc)

lemma mark_applied_step:
  assumes "distinct (map rr_id table)" and "r \<in> set table"
  shows "mark_applied now rs (update_where (\<lambda>x. rr_id x = rr_id r) (\<lambda>_. r\<lparr>applied_at := Some now\<rparr>) table)
       = mark_applied now (r # rs) table"
proof -
  have "x = r" if "x \<in> set table" "rr_id x = rr_id r" for x
    using assms that by (metis distinct_map inj_on_eq_iff)
  then show ?thesis
    by (auto simp: mark_applied_def update_where_def)
qed

lemma apply_each_spec:
  assumes "apply_each e now rs n u (d, out) = (n', u', d', out')"
    and "distinct (map rr_id (referral_rewards d))" "distinct (map rr_id rs)"
    and "\<And>r. r \<in> set rs \<Longrightarrow> r \<in> set (referral_rewards d)"
    and "u \<in> set (users d)" "distinct (map u_id (users d))"
  shows "n' = n + sum_list (map rr_days rs) \<and> u' = extend_by (sum_list (map rr_days rs)) u \<and>
    users d' = users (put_user u' d) \<and>
    referral_rewards d' = mark_applied now rs (referral_rewards d) \<and>
    same_but_feed (d\<lparr>users := [], referral_rewards := []\<rparr>) (d'\<lparr>users := [], referral_rewards := []\<rparr>) \<and>
    (feed_unique d \<longrightarrow> feed_unique d')"
  using assms
proof (induction rs arbitrary: n u d out)
  case Nil
  then show ?case
    by (simp add: mark_applied_def put_user_same)
next
  case (Cons r rs)
  define u1 where "u1 = extend_by (rr_days r) u"
  define d1 where "d1 = put_reward (r\<lparr>applied_at := Some now\<rparr>) (put_user u1 d)"
  obtain b d2 out2 where nt: "notify e u1 ReferralBonus (Some (''referral:'' @ rr_id r))
      [(''days'', PStr (str_int (rr_days r))), (''date'', PStr (strftime_date (the (subscribed_until u1))))]
      now (d1, out) = (b, d2, out2)"
    by (metis prod_cases3)
  from Cons.prems(1) have rest: "apply_each e now rs (n + rr_days r) u1 (d2, out2) = (n', u', d', out')"
    using nt by (simp add: u1_def d1_def extend_by_def Let_def)
  have same: "same_but_feed d1 d2" using notify_same_but_feed [OF nt] .
  have id1: "u_id u1 = u_id u" by (simp add: u1_def)
  have rw1: "referral_rewards d1 =
      update_where (\<lambda>x. rr_id x = rr_id r) (\<lambda>_. r\<lparr>applied_at := Some now\<rparr>) (referral_rewards d)"
    by (simp add: d1_def put_reward_def)
  have us2: "users d2 = users (put_user u1 d)" and rw2: "referral_rewards d2 = referral_rewards d1"
    using same by (simp_all add: same_but_feed_def d1_def)
  have "r' \<in> set (referral_rewards d2)" if "r' \<in> set rs" for r'
    using that Cons.prems(3,4) by (auto simp: rw2 rw1 set_update_where image_iff intro!: bexI [of _ r'])
  moreover have "distinct (map rr_id (referral_rewards d2))"
    using Cons.prems(2) by (simp add: rw2 d1_def)
  moreover have "u1 \<in> set (users d2)"
    using in_users_put_user [OF Cons.prems(5)] id1 by (simp add: us2)
  moreover have "distinct (map u_id (users d2))"
    using Cons.prems(6) by (simp add: us2)
  ultimately have IH: "n' = n + rr_days r + sum_list (map rr_days rs)"
      "u' = extend_by (sum_list (map rr_days rs)) u1" "users d' = users (put_user u' d2)"
      "referral_rewards d' = mark_applied now rs (referral_rewards d2)"
      "same_but_feed (d2\<lparr>users := [], referral_rewards := []\<rparr>) (d'\<lparr>users := [], referral_rewards := []\<rparr>)"
      "feed_unique d2 \<longrightarrow> feed_unique d'"
    using Cons.IH [OF rest] Cons.prems(3) by simp_all
  have "users d' = users (put_user u' (put_user u1 d))"
    using IH(3) us2 by (simp add: put_user_def)
  then have "users d' = users (put_user u' d)"
    using IH(2) id1 by simp
  moreover have "referral_rewards d' = mark_applied now (r # rs) (referral_rewards d)"
    using IH(4) rw1 rw2 mark_applied_step Cons.prems(2,4) by simp
  moreover have "same_but_feed (d\<lparr>users := [], referral_rewards := []\<rparr>) (d2\<lparr>users := [], referral_rewards := []\<rparr>)"
    using same by (simp add: same_but_feed_def d1_def put_user_def put_reward_def)
  moreover have "feed_unique d \<longrightarrow> feed_unique d2"
    using notify_unique [OF _ nt] by (simp add: d1_def feed_unique_def)
  ultimately show ?case
    using IH by (auto simp: u1_def intro: same_but_feed_trans)
qed

lemma apply_each_frame:
  "apply_each e now rs n u (d, out) = (n', u', d', out') \<Longrightarrow>
   configs d' = configs d \<and> payments d' = payments d \<and>
   credit_entries d' = credit_entries d \<and> promo_codes d' = promo_codes d \<and>
   length (referral_rewards d') = length (referral_rewards d)"
proof (induction rs arbitrary: n u d out)
  case (Cons r rs)
  define u1 where "u1 = extend_by (rr_days r) u"
  define d1 where "d1 = put_reward (r\<lparr>applied_at := Some now\<rparr>) (put_user u1 d)"
  obtain b d2 out2 where nt: "notify e u1 ReferralBonus (Some (''referral:'' @ rr_id r))
      [(''days'', PStr (str_int (rr_days r))), (''date'', PStr (strftime_date (the (subscribed_until u1))))]
      now (d1, out) = (b, d2, out2)"
    by (metis prod_cases3)
  from Cons.prems have "apply_each e now rs (n + rr_days r) u1 (d2, out2) = (n', u', d', out')"
    using nt by (simp add: u1_def d1_def extend_by_def Let_def)
  from Cons.IH [OF this] notify_same_but_feed [OF nt] show ?case
    by (simp add: same_but_feed_def d1_def put_reward_def)
qed simp

lemma apply_rewards_for_frame:
  "apply_rewards_for e u now (d, out) = (n, u', d', out') \<Longrightarrow>
   configs d' = configs d \<and> payments d' = payments d \<and>
   credit_entries d' = credit_entries d \<and> promo_codes d' = promo_codes d \<and>
   length (referral_rewards d') = length (referral_rewards d)"
  by (auto simp: apply_rewards_for_def split: if_splits dest: apply_each_frame)

definition reward_keys :: "db \<Rightarrow> bool" where
  "reward_keys d = (distinct (map rr_id (referral_rewards d)) \<and> distinct (map u_id (users d)))"

definition due_days :: "db \<Rightarrow> string \<Rightarrow> datetime \<Rightarrow> int" where
  "due_days d uid now = sum_list (map rr_days (due_rewards d uid now))"

text \<open>The account a referrer should have after the hourly run.\<close>

definition rewarded :: "db \<Rightarrow> datetime \<Rightarrow> user \<Rightarrow> user" where
  "rewarded d now u = (if subscribed u now then extend_by (due_days d (u_id u) now) u else u)"

lemma distinct_due_rewards: "reward_keys d \<Longrightarrow> distinct (map rr_id (due_rewards d uid now))"
  by (simp add: reward_keys_def due_rewards_def distinct_map_filter)

lemma due_after_mark:
  assumes "reward_keys d" and "referral_rewards d' = mark_applied now (due_rewards d uid now) (referral_rewards d)"
  shows "due_rewards d' v now = (if v = uid then [] else due_rewards d v now)"
proof -
  have marked: "rr_id r \<in> rr_id ` set (due_rewards d uid now) \<longleftrightarrow> r \<in> set (due_rewards d uid now)"
    if "r \<in> set (referral_rewards d)" for r
  proof -
    have "r' = r" if "rr_id r' = rr_id r" "r' \<in> set (referral_rewards d)" for r'
      using assms(1) \<open>r \<in> set (referral_rewards d)\<close> that
      unfolding reward_keys_def by (metis distinct_map inj_on_eq_iff)
    then show ?thesis by (auto simp: due_rewards_def image_iff)
  qed
  have "referral_rewards d' = map (\<lambda>r. if r \<in> set (due_rewards d uid now)
      then r\<lparr>applied_at := Some now\<rparr> else r) (referral_rewards d)"
    unfolding assms(2) mark_applied_def update_where_def by (rule map_cong) (simp_all add: marked)
  then have "due_rewards d' v now = filter (\<lambda>r. referrer_user_id r = v \<and> applied_at r = None \<and> vests_at r \<le> now)
      (map (\<lambda>r. if r \<in> set (due_rewards d uid now) then r\<lparr>applied_at := Some now\<rparr> else r) (referral_rewards d))"
    by (simp add: due_rewards_def)
  also have "\<dots> = (if v = uid then [] else due_rewards d v now)"
  proof (cases "v = uid")
    case True
    show ?thesis
      unfolding if_P [OF True] by (rule filter_map_none) (use True in \<open>simp add: due_rewards_def\<close>)
  next
    case False
    then show ?thesis
      unfolding due_rewards_def [of d v] if_not_P [OF False]
      by (intro filter_map_unmarked) (auto simp: due_rewards_def)
  qed
  finally show ?thesis .
qed

lemma apply_rewards_for_spec:
  assumes "apply_rewards_for e u now (d, out) = (n, u', d', out')"
    and "reward_keys d" and "u \<in> set (users d)"
  shows "n = (if subscribed u now then due_days d (u_id u) now else 0)"
    and "u' = rewarded d now u" and "users d' = users (put_user u' d)"
    and "due_rewards d' v now = (if v = u_id u \<and> subscribed u now then [] else due_rewards d v now)"
    and "map rr_id (referral_rewards d') = map rr_id (referral_rewards d)"
    and "same_but_feed (d\<lparr>users := [], referral_rewards := []\<rparr>) (d'\<lparr>users := [], referral_rewards := []\<rparr>)"
    and "feed_unique d \<longrightarrow> feed_unique d'"
proof -
  have ids: "distinct (map rr_id (referral_rewards d))" "distinct (map u_id (users d))"
    using assms(2) by (simp_all add: reward_keys_def)
  have all: "n = (if subscribed u now then due_days d (u_id u) now else 0) \<and> u' = rewarded d now u \<and>
    users d' = users (put_user u' d) \<and>
    due_rewards d' v now = (if v = u_id u \<and> subscribed u now then [] else due_rewards d v now) \<and>
    map rr_id (referral_rewards d') = map rr_id (referral_rewards d) \<and>
    same_but_feed (d\<lparr>users := [], referral_rewards := []\<rparr>) (d'\<lparr>users := [], referral_rewards := []\<rparr>) \<and>
    (feed_unique d \<longrightarrow> feed_unique d')"
  proof (cases "subscribed u now")
    case False
    with assms ids show ?thesis
      by (simp add: apply_rewards_for_def rewarded_def put_user_same)
  next
    case True
    with assms(1) have run: "apply_each e now (due_rewards d (u_id u) now) 0 u (d, out) = (n, u', d', out')"
      by (simp add: apply_rewards_for_def)
    have "r \<in> set (due_rewards d (u_id u) now) \<Longrightarrow> r \<in> set (referral_rewards d)" for r
      by (simp add: due_rewards_def)
    note spec = apply_each_spec [OF run ids(1) distinct_due_rewards [OF assms(2)] this assms(3) ids(2)]
    then have "referral_rewards d' = mark_applied now (due_rewards d (u_id u) now) (referral_rewards d)"
      by blast
    with due_after_mark [OF assms(2) this] spec True show ?thesis
      by (simp add: due_days_def rewarded_def mark_applied_def map_update_where)
  qed
  then show "n = (if subscribed u now then due_days d (u_id u) now else 0)"
    and "u' = rewarded d now u" and "users d' = users (put_user u' d)"
    and "due_rewards d' v now = (if v = u_id u \<and> subscribed u now then [] else due_rewards d v now)"
    and "map rr_id (referral_rewards d') = map rr_id (referral_rewards d)"
    and "same_but_feed (d\<lparr>users := [], referral_rewards := []\<rparr>) (d'\<lparr>users := [], referral_rewards := []\<rparr>)"
    and "feed_unique d \<longrightarrow> feed_unique d'"
    by simp_all
qed

lemma rewarded_id [simp]: "u_id (rewarded d now u) = u_id u"
  by (simp add: rewarded_def)

lemma apply_rewards_for_keys:
  assumes "apply_rewards_for e u now (d, out) = (n, u', d', out')" "reward_keys d" "u \<in> set (users d)"
  shows "reward_keys d'"
  using apply_rewards_for_spec(3,5) [OF assms] assms(2)
  by (simp add: reward_keys_def)

lemma apply_owners_spec:
  assumes "apply_owners e now uids a b (d, out) = (a', b', d', out')"
    and "reward_keys d" and "distinct uids"
  shows "reward_keys d' \<and>
    (\<forall>i. get_user d' i = map_option (\<lambda>u. if i \<in> set uids then rewarded d now u else u) (get_user d i)) \<and>
    (\<forall>v. due_rewards d' v now =
       (if v \<in> set uids \<and> (\<exists>u. get_user d v = Some u \<and> subscribed u now) then [] else due_rewards d v now)) \<and>
    map u_id (users d') = map u_id (users d)"
  using assms
proof (induction uids arbitrary: a b d out)
  case Nil
  then show ?case by (simp add: option.map_ident)
next
  case (Cons uid uids)
  show ?case
  proof (cases "get_user d uid")
    case None
    with Cons.prems(1) have rest: "apply_owners e now uids a b (d, out) = (a', b', d', out')"
      by simp
    have "distinct uids" using Cons.prems(3) by simp
    note IH = Cons.IH [OF rest Cons.prems(2) this]
    have "get_user d' i = map_option (\<lambda>u. if i \<in> set (uid # uids) then rewarded d now u else u) (get_user d i)" for i
      using IH None by (cases "get_user d i") auto
    with IH None show ?thesis by auto
  next
    case (Some u)
    then have u: "u \<in> set (users d)" "u_id u = uid" by (auto dest: get_user_SomeD)
    obtain n u' d1 out1 where r: "apply_rewards_for e u now (d, out) = (n, u', d1, out1)"
      by (metis prod_cases4)
    obtain a1 b1 where rest: "apply_owners e now uids a1 b1 (d1, out1) = (a', b', d', out')"
      using Cons.prems(1) Some r by simp
    have keys: "reward_keys d1" using apply_rewards_for_keys [OF r Cons.prems(2) u(1)] .
    have dist: "distinct uids" "uid \<notin> set uids" using Cons.prems(3) by auto
    note IH = Cons.IH [OF rest keys dist(1)]
    note spec = apply_rewards_for_spec [OF r Cons.prems(2) u(1)]
    have gu1: "get_user d1 i = (if i = uid then Some (rewarded d now u) else get_user d i)" for i
    proof -
      have "get_user d1 i = get_user (put_user u' d) i"
        using spec(3) by (simp add: get_user_def)
      then show ?thesis
        using spec(2) u(2) Some by (auto simp: get_user_put_user split: option.splits dest: get_user_SomeD)
    qed
    have due1: "due_rewards d1 v now = (if v = uid \<and> subscribed u now then [] else due_rewards d v now)" for v
      using spec(4) u(2) by simp
    have **: "rewarded d1 now w = rewarded d now w" if "u_id w \<noteq> uid" for w
      using that by (simp add: rewarded_def due_days_def due1)
    have g: "get_user d' i =
        map_option (\<lambda>u. if i \<in> set (uid # uids) then rewarded d now u else u) (get_user d i)" for i
    proof (cases "i = uid")
      case True
      with IH dist(2) Some show ?thesis by (simp add: gu1)
    next
      case False
      with IH have "get_user d' i = map_option (\<lambda>u. if i \<in> set uids then rewarded d1 now u else u) (get_user d i)"
        by (simp add: gu1)
      with False ** show ?thesis
        by (cases "get_user d i") (simp_all add: get_user_SomeD)
    qed
    have "due_rewards d' v now = (if v \<in> set (uid # uids) \<and>
        (\<exists>u. get_user d v = Some u \<and> subscribed u now) then [] else due_rewards d v now)" for v
      using IH dist(2) Some by (auto simp: gu1 due1)
    moreover have "map u_id (users d') = map u_id (users d)"
      using IH spec(3) by simp
    ultimately show ?thesis using IH g by blast
  qed
qed

lemma apply_owners_idle:
  assumes "\<And>uid u. uid \<in> set uids \<Longrightarrow> get_user d uid = Some u \<Longrightarrow> subscribed u now \<Longrightarrow>
      due_rewards d uid now = []"
  shows "apply_owners e now uids a b (d, out) = (a, b, d, out)"
  using assms
proof (induction uids)
  case (Cons uid uids)
  then have IH: "apply_owners e now uids a b (d, out) = (a, b, d, out)" by simp
  show ?case
  proof (cases "get_user d uid")
    case (Some u)
    then have "u_id u = uid" by (auto dest: get_user_SomeD)
    then have "apply_rewards_for e u now (d, out) = (0, u, d, out)"
      using Cons.prems [of uid u] Some by (simp add: apply_rewards_for_def)
    with Some IH show ?thesis by simp
  qed (use IH in simp)
qed simp

subsection \<open>Properties\<close>

text \<open>
  C5: the quote of an order adds up.  What the customer pays, the credit the order takes and
  the discount are together the plan's price; the discount is never negative; the credit is
  never negative, never more than asked for, never more than the balance, and at most half of
  the price after the discount; and the order always costs some money.
\<close>

theorem price_order_sound:
  assumes "price_order d u k c use now = Some q" and "discounts_ok d"
  shows "q_amount q + q_credit_spent q + discount q = base_price q \<and>
    0 \<le> discount q \<and> 0 \<le> q_credit_spent q \<and> q_credit_spent q \<le> max 0 use \<and>
    q_credit_spent q \<le> max 0 (balance d u now) \<and>
    2 * q_credit_spent q \<le> base_price q - discount q \<and> 0 < q_amount q"
proof -
  from assms(1) obtain info promo a where i: "plan_info (Some k) = Some info"
    and a: "discounted_price k promo = Some a"
    and src: "promo = None \<or> (\<exists>c' r. resolve_code d c' u now = (promo, r))"
    and q: "base_price q = price_of info" "discount q = price_of info - a"
      "q_credit_spent q = max 0 (min (min use (balance d u now)) (max_credit_for a))"
      "q_amount q = a - q_credit_spent q"
    by (rule price_order_cases) blast
  have "0 \<le> discount_percent p \<and> discount_percent p \<le> 60" if "promo = Some p" for p
    using src that assms(2) resolve_code_in_table [of d _ u now p]
    by (auto simp: discounts_ok_def list_all_iff)
  then have "0 < a" "a \<le> price_of info"
    using discounted_price_bounds [OF a i] by auto
  then show ?thesis
    using trunc_div_two_bounds [of a] unfolding q max_credit_for_def by linarith
qed

definition sample_shop :: db where
  "sample_shop = empty_db\<lparr>users := [sample_user ''ann'', sample_user ''bob''],
     promo_codes := [sample_promo ''ANNCODE2'' (Some ''ann'') 10],
     credit_entries := [sample_credit ''c1'' ''bob'' 175]\<rparr>"

lemma balance_sample_shop: "balance sample_shop (sample_user ''bob'') 0 = 175"
  by code_simp

lemma price_order_sample_shop:
  "price_order sample_shop (sample_user ''bob'') ''basic-1m'' (Some '' anncode2'') 500 0 =
     Some \<lparr>q_plan = ''basic-1m'', base_price = 350, discount = 35, q_promo_code = Some ''ANNCODE2'',
       promo_auto = False, promo_refused = None, promo_refused_text = None,
       credit_available = 175, credit_max = 157, q_credit_spent = 157, q_amount = 158\<rparr>"
  by code_simp

theorem price_order_sound_witness:
  "0 < q_amount (the (price_order sample_shop (sample_user ''bob'') ''basic-1m'' (Some '' anncode2'') 500 0)) \<and>
   discounts_ok sample_shop"
proof -
  have ok: "discounts_ok sample_shop" by code_simp
  with price_order_sound [OF price_order_sample_shop ok] show ?thesis
    by (simp add: price_order_sample_shop)
qed

text \<open>
  A price is reduced only by a code that is in force for this buyer.  A positive discount
  comes from a stored code that is active, not past its expiry, below its use limit and not
  the buyer's own; a code that belongs to a customer reduces only a first purchase.  The code
  is the one typed, or, when none was typed, the one from the link the customer came by.
\<close>

theorem discount_needs_code:
  assumes "price_order d u k c use now = Some q" and "0 < discount q"
  shows "\<exists>p\<in>set (promo_codes d). q_promo_code q = Some (code p) \<and>
    (code p = upper (strip (the c)) \<or> \<not> given c \<and> code p = upper (strip (the (referred_code u)))) \<and>
    pc_is_active p \<and> (\<forall>t. pc_expires_at p = Some t \<longrightarrow> now < t) \<and>
    (\<forall>m. max_uses p = Some m \<longrightarrow> uses_of d (code p) < m) \<and>
    owner_user_id p \<noteq> Some (u_id u) \<and> (owner_user_id p \<noteq> None \<longrightarrow> is_first_purchase d u)"
proof -
  from assms(1) obtain info promo a where i: "plan_info (Some k) = Some info"
    and a: "discounted_price k promo = Some a"
    and src: "promo = None \<or> (\<exists>c' r. resolve_code d c' u now = (promo, r) \<and>
       (c' = c \<or> \<not> given c \<and> c' = referred_code u \<and> is_first_purchase d u))"
    and q: "discount q = price_of info - a" "q_promo_code q = map_option code promo"
    by (rule price_order_cases)
  have "promo \<noteq> None"
    using assms(2) a i q(1) by (cases promo) (simp_all add: discounted_price_def Let_def)
  then obtain p c' r where p: "promo = Some p" and r: "resolve_code d c' u now = (Some p, r)"
    and c': "c' = c \<or> \<not> given c \<and> c' = referred_code u"
    using src by auto
  note facts = resolve_code_SomeD [OF r]
  have "code p = upper (strip (the c'))" using promo_of_SomeD [OF facts(2)] by simp
  with c' facts resolve_code_in_table [OF r] p q(2) show ?thesis
    by (intro bexI [of _ p]) (auto split: option.splits)
qed

theorem discount_needs_code_witness:
  "\<exists>p\<in>set (promo_codes sample_shop). Some ''ANNCODE2'' = Some (code p) \<and>
     owner_user_id p \<noteq> Some (u_id (sample_user ''bob''))"
  using discount_needs_code [OF price_order_sample_shop] by auto

text \<open>
  Confirming an order takes its credit once and from its buyer only.  The first spend
  lowers the balance of the buyer by exactly the order's credit at every instant and leaves
  every other balance alone; any later spend for the same order does nothing.
\<close>

theorem spend_on_payment_once:
  assumes "spend_on_payment d p now = (n, d')"
  shows "balance d' u t = balance d u t - (if u_id u = p_user_id p then n else 0) \<and>
    spend_on_payment d' p now' = (0, d') \<and> n \<in> {0, credit_spent p}"
  using assms
proof (cases rule: spend_on_payment_cases)
  case 1
  then have "credit_spent p \<le> 0 \<or>
      list_ex (\<lambda>e. reason e = ''spend'' \<and> ce_payment_id e = Some (p_id p)) (credit_entries d)"
    using assms by (auto simp: spend_on_payment_def Let_def new_uuid_def split: if_splits)
  with 1 show ?thesis by (auto simp: spend_on_payment_def)
next
  case (2 entry)
  have ce: "credit_entries d' = credit_entries d @ [entry]" using 2 by simp
  have "spend_on_payment d' p now' = (0, d')"
    using 2 by (simp add: spend_on_payment_def ce)
  with 2 spend_balance [OF assms] show ?thesis by simp
qed

definition sample_order :: payment where
  "sample_order = (sample_payment ''o1'' ''bob'' ''basic-1m'' 158)
     \<lparr>credit_spent := 157, p_promo_code := Some ''ANNCODE2''\<rparr>"

theorem spend_on_payment_once_witness:
  "fst (spend_on_payment sample_shop sample_order 0) = 157 \<and>
   balance (snd (spend_on_payment sample_shop sample_order 0)) (sample_user ''bob'') 0 = 18"
proof -
  define d' where "d' = snd (spend_on_payment sample_shop sample_order 0)"
  have n: "fst (spend_on_payment sample_shop sample_order 0) = 157" by code_simp
  have b: "u_id (sample_user ''bob'') = p_user_id sample_order" by code_simp
  have "spend_on_payment sample_shop sample_order 0 = (157, d')"
    by (simp add: d'_def prod_eq_iff n)
  from spend_on_payment_once [OF this, of "sample_user ''bob''" 0] n b balance_sample_shop
  show ?thesis by (simp add: d'_def)
qed

text \<open>
  C10: a purchase earns its referrer one reward.  Whatever order the payment is, either nothing
  is recorded, or the table grows by one row of 30 days for the owner of the code, who is not
  the buyer, vesting 14 days later; a second call for the same order, at any time, records
  nothing; and no two rewards come to share a payment.
\<close>

theorem reward_for_payment_once:
  assumes "reward_for_payment d p now = (n, d')"
    and "distinct (map source_payment_id (referral_rewards d))"
  shows "(n = 0 \<and> d' = d \<or>
      n = 30 \<and> 0 < p_amount p \<and> (\<exists>r promo. referral_rewards d' = referral_rewards d @ [r] \<and>
        promo \<in> set (promo_codes d) \<and> p_promo_code p = Some (code promo) \<and>
        owner_user_id promo = Some (referrer_user_id r) \<and> referrer_user_id r \<noteq> p_user_id p \<and>
        source_payment_id r = p_id p \<and> rr_days r = 30 \<and> vests_at r = now + days 14 \<and>
        applied_at r = None)) \<and>
    reward_for_payment d' p now' = (0, d') \<and>
    distinct (map source_payment_id (referral_rewards d'))"
proof (cases "\<exists>owner. earns_reward d p owner")
  case False
  then have "n = 0" "d' = d" using assms(1) reward_for_payment_not [of d p now] by auto
  moreover have "reward_for_payment d p now' = (0, d)" using False reward_for_payment_not by blast
  ultimately show ?thesis using assms(2) by simp
next
  case True
  then obtain owner where e: "earns_reward d p owner" ..
  from reward_for_payment_earns [OF e, of now] assms(1) obtain r where
    r: "n = 30" "d' = (snd (new_uuid d))\<lparr>referral_rewards := referral_rewards d @ [r]\<rparr>"
      "referrer_user_id r = owner" "source_payment_id r = p_id p" "rr_days r = 30"
      "vests_at r = now + days 14" "applied_at r = None"
    by fastforce
  from e obtain c promo where promo: "p_promo_code p = Some c" "promo_of d c = Some promo"
      "owner_user_id promo = Some owner"
    by (auto simp: earns_reward_def given_def split: option.splits)
  have "\<not> earns_reward d' p x" for x
    using r by (simp add: earns_reward_def)
  then have "reward_for_payment d' p now' = (0, d')" by (rule reward_for_payment_not)
  moreover have "distinct (map source_payment_id (referral_rewards d'))"
    using e assms(2) r by (auto simp: earns_reward_def list_ex_iff)
  moreover have "owner \<noteq> p_user_id p" "0 < p_amount p" using e by (auto simp: earns_reward_def)
  ultimately show ?thesis using r promo promo_of_SomeD [OF promo(2)] by auto
qed

theorem reward_for_payment_once_witness:
  "fst (reward_for_payment sample_shop sample_order 0) = 30 \<and>
   reward_for_payment (snd (reward_for_payment sample_shop sample_order 0)) sample_order 9 =
     (0, snd (reward_for_payment sample_shop sample_order 0))"
proof -
  define d' where "d' = snd (reward_for_payment sample_shop sample_order 0)"
  have n: "fst (reward_for_payment sample_shop sample_order 0) = 30" by code_simp
  have run: "reward_for_payment sample_shop sample_order 0 = (30, d')"
    by (simp add: d'_def prod_eq_iff n)
  have "distinct (map source_payment_id (referral_rewards sample_shop))" by code_simp
  from reward_for_payment_once [OF run this, of 9] n show ?thesis by (simp add: d'_def)
qed

text \<open>
  C6: the hourly run pays every vested reward once.  After it, the account of every referrer
  with a live subscription is longer by exactly the days of the vested rewards it had not yet
  received, every other account is as it was, no live subscription has a vested reward left,
  and running it again changes nothing.
\<close>

theorem apply_due_rewards_settles:
  assumes "apply_due_rewards e now (d, out) = (a, b, d', out')" and "reward_keys d"
  shows "(\<forall>i. get_user d' i = map_option (rewarded d now) (get_user d i)) \<and>
    (\<forall>i u. get_user d i = Some u \<longrightarrow> subscribed u now \<longrightarrow> due_rewards d' i now = []) \<and>
    apply_due_rewards e now (d', out') = (0, 0, d', out')"
proof -
  define owners where "owners = (\<lambda>d::db. remdups (map referrer_user_id
      (filter (\<lambda>r. applied_at r = None \<and> vests_at r \<le> now) (referral_rewards d))))"
  have in_owners: "i \<in> set (owners x) \<longleftrightarrow> due_rewards x i now \<noteq> []" for i x
    by (auto simp: owners_def due_rewards_def filter_empty_conv)
  from assms(1) have run: "apply_owners e now (owners d) 0 0 (d, out) = (a, b, d', out')"
    by (simp add: apply_due_rewards_def owners_def)
  have "distinct (owners d)" by (simp add: owners_def)
  note spec = apply_owners_spec [OF run assms(2) this]
  have g: "get_user d' i = map_option (rewarded d now) (get_user d i)" for i
  proof (cases "get_user d i")
    case (Some u)
    have "rewarded d now u = u" if "i \<notin> set (owners d)"
      using that Some by (auto simp: in_owners rewarded_def due_days_def dest: get_user_SomeD)
    with spec Some show ?thesis by simp
  qed (use spec in simp)
  have due: "due_rewards d' i now = []" if "get_user d i = Some u" "subscribed u now" for i u
  proof (cases "i \<in> set (owners d)")
    case True
    with spec that show ?thesis by auto
  next
    case False
    with spec have "due_rewards d' i now = due_rewards d i now" by simp
    with False show ?thesis by (simp add: in_owners)
  qed
  have "due_rewards d' i now = []" if "get_user d' i = Some u" "subscribed u now" for i u
  proof -
    from g that obtain u0 where u0: "get_user d i = Some u0" "u = rewarded d now u0" by auto
    with that have "subscribed u0 now" by (auto simp: rewarded_def split: if_splits)
    with due u0 show ?thesis by blast
  qed
  then have "apply_due_rewards e now (d', out') = (0, 0, d', out')"
    using apply_owners_idle [of "owners d'" d' now e 0 0 out']
    by (simp add: apply_due_rewards_def owners_def)
  with g due show ?thesis by blast
qed

definition sample_referrers :: db where
  "sample_referrers = empty_db\<lparr>
     users := [(sample_user ''ann'')\<lparr>is_subscribed := True, subscribed_until := Some (days 20000)\<rparr>,
               sample_user ''bob''],
     referral_rewards := [sample_reward ''r1'' ''ann'' ''p1'' 5, sample_reward ''r2'' ''bob'' ''p2'' 5]\<rparr>"

theorem apply_due_rewards_settles_witness:
  "reward_keys sample_referrers \<and>
   (case apply_due_rewards (\<lambda>_. None) 10 (sample_referrers, empty_outbox) of (a, b, d', out') \<Rightarrow>
      map_option subscribed_until (get_user d' ''ann'') = Some (Some (days 20030)) \<and>
      map_option subscribed_until (get_user d' ''bob'') = Some None)"
proof -
  have k: "reward_keys sample_referrers" by code_simp
  obtain a b d' out' where r: "apply_due_rewards (\<lambda>_. None) 10 (sample_referrers, empty_outbox) = (a, b, d', out')"
    by (metis prod_cases4)
  have "map_option (\<lambda>u. subscribed_until (rewarded sample_referrers 10 u)) (get_user sample_referrers ''ann'')
      = Some (Some (days 20030))"
    "map_option (\<lambda>u. subscribed_until (rewarded sample_referrers 10 u)) (get_user sample_referrers ''bob'')
      = Some None" by code_simp+
  with apply_due_rewards_settles [OF r k] k r show ?thesis
    by auto
qed

text \<open>
  A refund inside the vesting window takes the reward back.  Cancelling the reward of a
  payment whose reward was just recorded returns its 30 days and leaves the table of rewards
  as it was before; and a reward whose days have already been applied is never removed.
\<close>

theorem cancel_reward_undoes:
  assumes "reward_for_payment d p now = (30, d')"
    and "\<And>r. r \<in> set (referral_rewards d) \<Longrightarrow> rr_id r \<noteq> uuid_tape d (uuid_pos d)"
  shows "(\<exists>d''. cancel_reward_for_payment d' p t = (30, d'') \<and> referral_rewards d'' = referral_rewards d \<and>
      due_rewards d'' i t' = due_rewards d i t') \<and>
    (\<forall>x. reward_applied x p \<longrightarrow> cancel_reward_for_payment x p t = (0, x))"
proof -
  have "\<exists>owner. earns_reward d p owner"
    using assms(1) reward_for_payment_not [of d p now] by force
  then obtain owner where e: "earns_reward d p owner" ..
  define r where "r = \<lparr>rr_id = uuid_tape d (uuid_pos d), referrer_user_id = owner,
      source_payment_id = p_id p, rr_days = 30, vests_at = now + days 14, applied_at = None,
      rr_created_at = now, rr_note = Some (''referral: '' @ p_plan p)\<rparr>"
  have d': "referral_rewards d' = referral_rewards d @ [r]"
    using e assms(1) by (auto simp: reward_for_payment_def earns_reward_def new_uuid_def Let_def
        REFERRAL_REWARD_DAYS_def REWARD_VESTING_DAYS_def r_def)
  have none: "List.find (\<lambda>x. source_payment_id x = p_id p) (referral_rewards d) = None"
    using e by (auto simp: earns_reward_def list_ex_iff find_None_iff_list)
  have "List.find (\<lambda>x. source_payment_id x = p_id p) (referral_rewards d @ [r]) = Some r"
    using none by (simp add: r_def find_append)
  moreover have "filter (\<lambda>x. rr_id x \<noteq> rr_id r) (referral_rewards d @ [r]) = referral_rewards d"
    using assms(2) by (simp add: r_def filter_id_conv)
  ultimately have "\<exists>d''. cancel_reward_for_payment d' p t = (30, d'') \<and>
      referral_rewards d'' = referral_rewards d \<and> due_rewards d'' i t' = due_rewards d i t'"
    using d' by (auto simp: cancel_reward_for_payment_def due_rewards_def r_def)
  then show ?thesis using cancel_keeps_applied by blast
qed

theorem cancel_reward_undoes_witness:
  "\<exists>d''. cancel_reward_for_payment (snd (reward_for_payment sample_shop sample_order 0)) sample_order 8 = (30, d'') \<and>
     referral_rewards d'' = []"
proof -
  have n: "fst (reward_for_payment sample_shop sample_order 0) = 30"
    and e: "referral_rewards sample_shop = []" by code_simp+
  have run: "reward_for_payment sample_shop sample_order 0 = (30, snd (reward_for_payment sample_shop sample_order 0))"
    by (simp add: prod_eq_iff n)
  from cancel_reward_undoes [OF run, of 8 "''ann''" 8] e show ?thesis by auto
qed

end
