(* ===== verification/Trial.thy ===== *)
theory Trial
  imports Models Plans
begin

section \<open>The free trial: its rules (\<open>pwa/services/trial.py\<close>)\<close>

text \<open>
  Who may have a trial and for how long, from the account alone; the request itself is in
  theory \<open>Devices\<close>.  \<open>TRIAL_DAYS\<close> and \<open>TRIAL_DAILY_CAP\<close> are read when the module is
  imported; a portal whose setting is not a number does not start, so the value of these
  definitions there is of no account.

  The lemmas show that the normal form of an address is one string per inbox: it does not
  depend on letter case, on a \<open>+tag\<close>, or, at Gmail, on dots, and normalising twice is
  normalising once.
\<close>

definition TRIAL_DAYS :: "env \<Rightarrow> int" where
  "TRIAL_DAYS e = (case py_int (getenv e ''TRIAL_DAYS'' ''3'') of Some n \<Rightarrow> n | None \<Rightarrow> 0)"

definition TRIAL_DAILY_CAP :: "env \<Rightarrow> int" where
  "TRIAL_DAILY_CAP e = (case py_int (getenv e ''TRIAL_DAILY_CAP'' ''30'') of Some n \<Rightarrow> n | None \<Rightarrow> 0)"

definition trial_enabled :: "env \<Rightarrow> bool" where
  "trial_enabled e =
     (lower (strip (getenv e ''TRIAL_ENABLED'' ''0'')) \<in> {''1'', ''true'', ''yes'', ''on''})"

definition DOTLESS :: "string list" where
  "DOTLESS = [''gmail.com'', ''googlemail.com'']"

definition ALIASES :: "(string \<times> string) list" where
  "ALIASES = [(''googlemail.com'', ''gmail.com''), (''ya.ru'', ''yandex.ru'')]"

definition DISPOSABLE_DOMAINS :: "string list" where
  "DISPOSABLE_DOMAINS =
     [''10minutemail.com'', ''10minutemail.net'', ''20minutemail.com'', ''byom.de'',
      ''discard.email'', ''dispostable.com'', ''dropmail.me'', ''emailondeck.com'',
      ''fakeinbox.com'', ''getairmail.com'', ''getnada.com'', ''guerrillamail.com'',
      ''guerrillamail.net'', ''guerrillamail.org'', ''guerrillamailblock.com'',
      ''inboxkitten.com'', ''mail.tm'', ''mailcatch.com'', ''maildrop.cc'',
      ''mailinator.com'', ''mailnesia.com'', ''mintemail.com'', ''mohmal.com'',
      ''mytemp.email'', ''nada.email'', ''sharklasers.com'', ''spamgourmet.com'',
      ''temp-mail.io'', ''temp-mail.org'', ''tempail.com'', ''tempmail.com'',
      ''tempmail.net'', ''tempmailo.com'', ''tempr.email'', ''throwawaymail.com'',
      ''trashmail.com'', ''trashmail.de'', ''yopmail.com'', ''yopmail.fr'',
      ''yopmail.net'', ''crazymailing.com'', ''emailfake.com'', ''1secmail.com'',
      ''1secmail.net'', ''1secmail.org'', ''internxt.com'', ''tmpmail.org'']"

definition normalise_email :: "string \<Rightarrow> string" where
  "normalise_email em =
     (let (loc0, dom0) = rpartition CHR ''@'' (lower (strip em));
          dm = (case map_of ALIASES dom0 of Some d \<Rightarrow> d | None \<Rightarrow> dom0);
          loc1 = before CHR ''+'' loc0;
          loc = (if dm \<in> set DOTLESS then filter (\<lambda>c. c \<noteq> CHR ''.'') loc1 else loc1)
      in loc @ ''@'' @ dm)"

definition is_disposable :: "string \<Rightarrow> bool" where
  "is_disposable em =
     (let dm = snd (rpartition CHR ''@'' (lower (strip em)))
      in list_ex (\<lambda>d. dm = d \<or> endswith dm (CHR ''.'' # d)) DISPOSABLE_DOMAINS)"

definition trial_active :: "user \<Rightarrow> datetime \<Rightarrow> bool" where
  "trial_active u now = (case trial_until u of None \<Rightarrow> False | Some t \<Rightarrow> t > now)"

definition verified :: "user \<Rightarrow> bool" where
  "verified u = (email_verified_at u \<noteq> None \<or> telegram_id u \<noteq> None)"

definition trial_state :: "env \<Rightarrow> user \<Rightarrow> bool \<Rightarrow> datetime \<Rightarrow> string" where
  "trial_state e u has_paid now =
     (if trial_active u now then ''active''
      else if trial_until u \<noteq> None \<or> has_paid then ''used''
      else if \<not> trial_enabled e then ''off''
      else if \<not> verified u then ''needs_verify''
      else ''available'')"

definition trial_end :: "env \<Rightarrow> datetime \<Rightarrow> datetime" where
  "trial_end e now = now + days (TRIAL_DAYS e)"

subsection \<open>Lemmas\<close>

definition alias_of :: "string \<Rightarrow> string" where
  "alias_of dm = (case map_of ALIASES dm of Some d \<Rightarrow> d | None \<Rightarrow> dm)"

definition inbox_of :: "string \<Rightarrow> string \<Rightarrow> string" where
  "inbox_of l dm = (if dm \<in> set DOTLESS then filter (\<lambda>c. c \<noteq> CHR ''.'') (before CHR ''+'' l)
                     else before CHR ''+'' l)"

definition spaceless :: "string \<Rightarrow> bool" where
  "spaceless s = list_all (\<lambda>c. \<not> is_space c) s"

lemma not_letter_at [simp]: "\<not> is_letter CHR ''@''" "\<not> is_letter CHR ''+''" "\<not> is_letter CHR ''.''"
  by code_simp+

lemma spaceless_lower [simp]: "spaceless (lower s) = spaceless s"
  by (simp add: spaceless_def lower_def list_all_iff)

lemma spaceless_append [simp]: "spaceless (s @ t) \<longleftrightarrow> spaceless s \<and> spaceless t"
  by (simp add: spaceless_def)

lemma spaceless_at [simp]: "spaceless (CHR ''@'' # t) \<longleftrightarrow> spaceless t"
  by (simp add: spaceless_def is_space_def)

lemma lower_at [simp]: "lower_char CHR ''@'' = CHR ''@''"
  by code_simp

lemma normalise_email_parts:
  assumes "CHR ''@'' \<notin> set dm" and "spaceless l" and "spaceless dm"
  shows "normalise_email (l @ ''@'' @ dm) =
         inbox_of (lower l) (alias_of (lower dm)) @ ''@'' @ alias_of (lower dm)"
proof -
  have "rpartition CHR ''@'' (lower (strip (l @ ''@'' @ dm))) = (lower l, lower dm)"
    using assms by (simp add: spaceless_def [symmetric] strip_no_space rpartition_append_same lower_mem_iff)
  then show ?thesis
    by (simp add: normalise_email_def alias_of_def inbox_of_def Let_def)
qed

lemma alias_of_idem [simp]: "alias_of (alias_of dm) = alias_of dm"
  by (simp add: alias_of_def ALIASES_def)

lemma lower_alias_of [simp]: "lower (alias_of (lower dm)) = alias_of (lower dm)"
proof (cases "lower dm = ''googlemail.com'' \<or> lower dm = ''ya.ru''")
  case True
  moreover have "lower ''gmail.com'' = ''gmail.com''" "lower ''yandex.ru'' = ''yandex.ru''" by code_simp+
  ultimately show ?thesis by (auto simp: alias_of_def ALIASES_def)
next
  case False
  then show ?thesis by (simp add: alias_of_def ALIASES_def)
qed

lemma alias_of_no_at: "CHR ''@'' \<notin> set dm \<Longrightarrow> CHR ''@'' \<notin> set (alias_of dm)"
  by (auto simp: alias_of_def ALIASES_def split: option.splits if_splits)

lemma spaceless_alias_of: "spaceless dm \<Longrightarrow> spaceless (alias_of dm)"
  by (auto simp: alias_of_def ALIASES_def spaceless_def is_space_def split: option.splits if_splits)

lemma plus_not_in_inbox: "CHR ''+'' \<notin> set (inbox_of l dm)"
  by (simp add: inbox_of_def)

lemma set_inbox_of: "set (inbox_of l dm) \<subseteq> set l"
  by (auto simp: inbox_of_def before_def dest: set_takeWhileD)

lemma spaceless_inbox_of: "spaceless l \<Longrightarrow> spaceless (inbox_of l dm)"
  using set_inbox_of [of l dm] by (auto simp: spaceless_def list_all_iff)

lemma inbox_of_idem [simp]: "inbox_of (inbox_of l dm) dm = inbox_of l dm"
  by (auto simp: inbox_of_def before_no_occ)

lemma lower_inbox_of [simp]: "lower (inbox_of (lower l) dm) = inbox_of (lower l) dm"
proof -
  have "map lower_char s = s" if "set s \<subseteq> set (lower l)" for s
    using that by (intro map_idI) (auto simp: lower_def)
  then show ?thesis using set_inbox_of [of "lower l" dm] by (simp add: lower_def)
qed

subsection \<open>Properties\<close>

text \<open>
  C16: the trial's normal form is one string per inbox.  For an address without white space
  whose local part has no plus sign: letter case does not matter, nor does a tag after a
  plus sign, nor, at a provider that ignores them, do dots; and the normal form is its own
  normal form.
\<close>

theorem normalise_email_one_inbox:
  assumes "CHR ''@'' \<notin> set dm" and "spaceless l" "spaceless dm" "spaceless tag"
    and "CHR ''+'' \<notin> set l"
  shows "normalise_email (l @ ''+'' @ tag @ ''@'' @ dm) = normalise_email (l @ ''@'' @ dm) \<and>
    normalise_email (lower l @ ''@'' @ lower dm) = normalise_email (l @ ''@'' @ dm) \<and>
    (alias_of (lower dm) \<in> set DOTLESS \<longrightarrow>
      normalise_email (filter (\<lambda>c. c \<noteq> CHR ''.'') l @ ''@'' @ dm) = normalise_email (l @ ''@'' @ dm)) \<and>
    normalise_email (normalise_email (l @ ''@'' @ dm)) = normalise_email (l @ ''@'' @ dm)"
proof (intro conjI impI)
  let ?d = "alias_of (lower dm)"
  note parts = normalise_email_parts
  have plus: "spaceless ''+''" "lower_char CHR ''+'' = CHR ''+''" by code_simp+
  have "inbox_of (lower (l @ ''+'' @ tag)) ?d = inbox_of (lower l) ?d"
    using assms plus by (simp add: inbox_of_def before_append_same before_no_occ lower_mem_iff)
  then show "normalise_email (l @ ''+'' @ tag @ ''@'' @ dm) = normalise_email (l @ ''@'' @ dm)"
    using parts [of dm "l @ ''+'' @ tag"] parts [of dm l] assms plus
    by (simp add: spaceless_def)
  show "normalise_email (lower l @ ''@'' @ lower dm) = normalise_email (l @ ''@'' @ dm)"
    using parts [of "lower dm" "lower l"] parts [of dm l] assms by (simp add: lower_mem_iff)
  show "normalise_email (filter (\<lambda>c. c \<noteq> CHR ''.'') l @ ''@'' @ dm) = normalise_email (l @ ''@'' @ dm)"
    if "?d \<in> set DOTLESS"
  proof -
    have low: "lower (filter (\<lambda>c. c \<noteq> CHR ''.'') l) = filter (\<lambda>c. c \<noteq> CHR ''.'') (lower l)"
      by (induction l) (simp_all add: lower_char_eq_iff)
    have "spaceless (filter (\<lambda>c. c \<noteq> CHR ''.'') l)" using assms(2) by (simp add: spaceless_def list_all_iff)
    then show ?thesis
      using parts [of dm "filter (\<lambda>c. c \<noteq> CHR ''.'') l"] parts [of dm l] assms that
      by (simp add: low inbox_of_def before_no_occ lower_mem_iff)
  qed
  show "normalise_email (normalise_email (l @ ''@'' @ dm)) = normalise_email (l @ ''@'' @ dm)"
    using assms parts [of dm l] parts [of ?d "inbox_of (lower l) ?d"]
    by (simp add: alias_of_no_at lower_mem_iff spaceless_inbox_of spaceless_alias_of)
qed

theorem normalise_email_one_inbox_witness:
  "normalise_email ''Ivan.Petrov+shop@GoogleMail.com'' = normalise_email ''Ivan.Petrov@GoogleMail.com'' \<and>
   normalise_email ''IvanPetrov@GoogleMail.com'' = normalise_email ''Ivan.Petrov@GoogleMail.com''"
proof -
  have h: "CHR ''@'' \<notin> set ''GoogleMail.com''" "spaceless ''Ivan.Petrov''" "spaceless ''GoogleMail.com''"
    "spaceless ''shop''" "CHR ''+'' \<notin> set ''Ivan.Petrov''" by code_simp+
  have "alias_of (lower ''GoogleMail.com'') \<in> set DOTLESS"
    "filter (\<lambda>c. c \<noteq> CHR ''.'') ''Ivan.Petrov'' = ''IvanPetrov''" by code_simp+
  with normalise_email_one_inbox [OF h] show ?thesis by simp
qed

end
