(* ===== verification/Json.thy ===== *)
theory Json
  imports Prelude
begin

section \<open>JSON values as Python holds them\<close>

text \<open>
  The values \<open>json.loads\<close> gives, and what the portal does with them: \<open>str()\<close>, truth,
  \<open>dict.get\<close>, \<open>int()\<close> and \<open>json.dumps\<close> with the compact separators and ASCII escapes
  of \<open>services/heleket.py\<close>.  A number with a fraction or an exponent, \<open>JFloat r n\<close>, is
  carried as its \<open>repr\<close> \<open>r\<close> and the integer \<open>n\<close> it truncates to.  Decoding itself is
  the parameter \<open>loads\<close> of the definitions that read JSON text: the decoded value, or
  \<open>None\<close> where it raises.
\<close>

datatype json =
    JNull
  | JBool bool
  | JInt int
  | JFloat string int
  | JStr string
  | JArr "json list"
  | JObj "(string \<times> json) list"

type_synonym loads = "string \<Rightarrow> json option"

definition quote_char :: char where
  "quote_char = char_of (39::nat)"

definition backslash :: char where
  "backslash = char_of (92::nat)"

definition hex_digit :: "nat \<Rightarrow> char" where
  "hex_digit n = ''0123456789abcdef'' ! (n mod 16)"

text \<open>\<open>repr\<close> of a string.\<close>

definition repr_char :: "char \<Rightarrow> char \<Rightarrow> string" where
  "repr_char q c =
     (let n = (of_char c :: nat) in
      if c = q \<or> c = backslash then [backslash, c]
      else if n = 10 then [backslash, CHR ''n'']
      else if n = 13 then [backslash, CHR ''r'']
      else if n = 9 then [backslash, CHR ''t'']
      else if n < 32 \<or> n = 127 then [backslash, CHR ''x'', hex_digit (n div 16), hex_digit n]
      else [c])"

definition repr_str :: "string \<Rightarrow> string" where
  "repr_str s =
     (let q = (if quote_char \<in> set s \<and> CHR 0x22 \<notin> set s then CHR 0x22 else quote_char)
      in q # concat (map (repr_char q) s) @ [q])"

fun json_repr :: "json \<Rightarrow> string" where
  "json_repr JNull = ''None''"
| "json_repr (JBool b) = (if b then ''True'' else ''False'')"
| "json_repr (JInt n) = str_int n"
| "json_repr (JFloat r _) = r"
| "json_repr (JStr s) = repr_str s"
| "json_repr (JArr xs) = ''['' @ join '', '' (map json_repr xs) @ '']''"
| "json_repr (JObj kvs) = ''{'' @ join '', '' (map (\<lambda>(k, v). repr_str k @ '': '' @ json_repr v) kvs) @ ''}''"

definition json_str :: "json \<Rightarrow> string" where
  "json_str v = (case v of JStr s \<Rightarrow> s | _ \<Rightarrow> json_repr v)"

fun truthy :: "json \<Rightarrow> bool" where
  "truthy JNull = False"
| "truthy (JBool b) = b"
| "truthy (JInt n) = (n \<noteq> 0)"
| "truthy (JFloat r _) = (r \<noteq> ''0.0'' \<and> r \<noteq> ''-0.0'')"
| "truthy (JStr s) = (s \<noteq> [])"
| "truthy (JArr xs) = (xs \<noteq> [])"
| "truthy (JObj kvs) = (kvs \<noteq> [])"

text \<open>\<open>d.get(k)\<close> on a decoded object; a missing key and \<open>null\<close> both read as \<open>None\<close>.\<close>

definition dict_get :: "(string \<times> json) list \<Rightarrow> string \<Rightarrow> json" where
  "dict_get kvs k = (case map_of kvs k of Some v \<Rightarrow> v | None \<Rightarrow> JNull)"

text \<open>\<open>int(v)\<close>; \<open>None\<close> where it raises.\<close>

fun json_int :: "json \<Rightarrow> int option" where
  "json_int (JBool b) = Some (if b then 1 else 0)"
| "json_int (JInt n) = Some n"
| "json_int (JFloat _ n) = Some n"
| "json_int (JStr s) = py_int s"
| "json_int _ = None"

text \<open>
  What a nullable text column takes: \<open>Some None\<close> is a null, \<open>None\<close> a value that is not
  text, which the driver refuses.
\<close>

fun text_column :: "json \<Rightarrow> string option option" where
  "text_column JNull = Some None"
| "text_column (JStr s) = Some (Some s)"
| "text_column _ = None"

text \<open>\<open>json.dumps(v, separators=(",", ":"), ensure_ascii=True)\<close>.\<close>

definition dumps_char :: "char \<Rightarrow> string" where
  "dumps_char c =
     (let n = (of_char c :: nat) in
      if c = CHR 0x22 \<or> c = backslash then [backslash, c]
      else if n = 10 then [backslash, CHR ''n'']
      else if n = 13 then [backslash, CHR ''r'']
      else if n = 9 then [backslash, CHR ''t'']
      else if n = 8 then [backslash, CHR ''b'']
      else if n = 12 then [backslash, CHR ''f'']
      else if n < 32 \<or> n > 126 then backslash # ''u00'' @ [hex_digit (n div 16), hex_digit n]
      else [c])"

definition dumps_str :: "string \<Rightarrow> string" where
  "dumps_str s = CHR 0x22 # concat (map dumps_char s) @ [CHR 0x22]"

fun dumps :: "json \<Rightarrow> string" where
  "dumps JNull = ''null''"
| "dumps (JBool b) = (if b then ''true'' else ''false'')"
| "dumps (JInt n) = str_int n"
| "dumps (JFloat r _) = r"
| "dumps (JStr s) = dumps_str s"
| "dumps (JArr xs) = ''['' @ join '','' (map dumps xs) @ '']''"
| "dumps (JObj kvs) = ''{'' @ join '','' (map (\<lambda>(k, v). dumps_str k @ '':'' @ dumps v) kvs) @ ''}''"

subsection \<open>Lemmas\<close>

lemma dict_get_Nil [simp]: "dict_get [] k = JNull"
  by (simp add: dict_get_def)

lemma dict_get_Cons [simp]: "dict_get ((a, v) # kvs) k = (if a = k then v else dict_get kvs k)"
  by (simp add: dict_get_def)

lemma dict_get_filter [simp]: "P k \<Longrightarrow> dict_get (filter (\<lambda>(a, _). P a) kvs) k = dict_get kvs k"
  by (induction kvs) auto

end
