(* ===== verification/Locations.thy ===== *)
theory Locations
  imports Plans Json
begin

section \<open>Locations (\<open>pwa/services/locations.py\<close>)\<close>

text \<open>
  One entry node per location, read from the environment at every call.  JSON text is
  decoded by \<open>json.loads\<close>, a parameter \<open>loads\<close> of the definitions that read
  \<open>NL_AWG_PARAMS\<close>: it gives the decoded value, or \<open>None\<close> where it raises.

  The lemmas show that Germany always exists, that a location is found by its own key and
  no other, and that the one offered by default is configured, and not paused unless all are.
\<close>

definition DEFAULT :: string where
  "DEFAULT = ''de''"

record location =
  loc_key :: string
  host :: string
  loc_public_key :: string
  endpoint :: string
  params :: "(string \<times> string) list"
  mtu :: int

definition DE_PARAMS :: "(string \<times> string) list" where
  "DE_PARAMS =
     [(''Jc'', ''3''), (''Jmin'', ''50''), (''Jmax'', ''1000''),
      (''S1'', ''72''), (''S2'', ''146''),
      (''H1'', ''1163059398''), (''H2'', ''1787455160''),
      (''H3'', ''970047041''), (''H4'', ''133143559'')]"

definition PARAM_ORDER :: "string list" where
  "PARAM_ORDER =
     [''Jc'', ''Jmin'', ''Jmax'', ''S1'', ''S2'', ''S3'', ''S4'',
      ''H1'', ''H2'', ''H3'', ''H4'', ''I1'', ''I2'', ''I3'', ''I4'', ''I5'']"

definition parse_params :: "loads \<Rightarrow> string \<Rightarrow> (string \<times> string) list option" where
  "parse_params loads raw =
     (case loads raw of
        Some (JObj data) \<Rightarrow>
          if data = [] \<or> \<not> list_all (\<lambda>(k, _). k \<in> set PARAM_ORDER) data then None
          else Some (map (\<lambda>k. (k, json_str (the (map_of data k))))
                       (filter (\<lambda>k. map_of data k \<noteq> None) PARAM_ORDER))
      | _ \<Rightarrow> None)"

definition BRIDGE_PUB :: "env \<Rightarrow> string" where
  "BRIDGE_PUB e = getenv e ''BRIDGE_PUBLIC_KEY'' ''kCq1FK/tYvvB68h9luTRX5PAV0a2pIn2klbyNUKRMm0=''"

definition germany :: "env \<Rightarrow> location" where
  "germany e = \<lparr>loc_key = ''de'', host = getenv e ''BRIDGE_IP'' [], loc_public_key = BRIDGE_PUB e,
                endpoint = getenv e ''BRIDGE_ENDPOINT'' [], params = DE_PARAMS, mtu = 1300\<rparr>"

definition netherlands :: "loads \<Rightarrow> env \<Rightarrow> location option" where
  "netherlands loads e =
     (let h = strip (getenv e ''NL_ENTRY_IP'' []);
          pub = strip (getenv e ''NL_PUBLIC_KEY'' []);
          ep = strip (getenv e ''NL_ENDPOINT'' []);
          ps = parse_params loads (getenv e ''NL_AWG_PARAMS'' [])
      in if h = [] \<or> pub = [] \<or> ep = [] \<or> ps = None \<or> ps = Some [] then None
         else Some \<lparr>loc_key = ''nl'', host = h, loc_public_key = pub, endpoint = ep, params = the ps,
                    mtu = (case py_int (getenv e ''NL_MTU'' ''1280'') of Some m \<Rightarrow> m | None \<Rightarrow> 1280)\<rparr>)"

definition all_locations :: "loads \<Rightarrow> env \<Rightarrow> location list" where
  "all_locations loads e =
     (case netherlands loads e of Some nl \<Rightarrow> [nl] | None \<Rightarrow> []) @ [germany e]"

text \<open>\<open>get(key)\<close>; an absent or empty key is the default location.\<close>

definition get_location :: "loads \<Rightarrow> env \<Rightarrow> string \<Rightarrow> location option" where
  "get_location loads e key =
     (let k = (if key = [] then DEFAULT else key)
      in List.find (\<lambda>loc. loc_key loc = k) (all_locations loads e))"

definition location_keys :: "loads \<Rightarrow> env \<Rightarrow> string list" where
  "location_keys loads e = map loc_key (all_locations loads e)"

definition paused :: "env \<Rightarrow> string list" where
  "paused e = filter (\<lambda>k. k \<noteq> []) (map strip (split_on CHR '','' (getenv e ''LOCATIONS_PAUSED'' [])))"

definition recommended :: "loads \<Rightarrow> env \<Rightarrow> string" where
  "recommended loads e =
     (case List.find (\<lambda>k. k \<notin> set (paused e)) (location_keys loads e) of
        Some k \<Rightarrow> k
      | None \<Rightarrow> hd (location_keys loads e))"

definition default_for_new :: "loads \<Rightarrow> env \<Rightarrow> string" where
  "default_for_new loads e =
     (if DEFAULT \<notin> set (paused e) then DEFAULT else recommended loads e)"

subsection \<open>Lemmas\<close>

lemma netherlands_key: "netherlands loads e = Some nl \<Longrightarrow> loc_key nl = ''nl''"
  by (auto simp: netherlands_def Let_def split: if_splits)

lemma get_location_key: "get_location loads e k = Some loc \<Longrightarrow> k \<noteq> [] \<Longrightarrow> loc_key loc = k"
  by (auto simp: get_location_def Let_def dest: find_SomeD)

lemma get_location_default [simp]: "get_location loads e DEFAULT = Some (germany e)"
  by (auto simp: get_location_def all_locations_def DEFAULT_def germany_def find_append
      split: option.splits dest: netherlands_key)

lemma location_keys_eq:
  "location_keys loads e = (if netherlands loads e = None then [''de''] else [''nl'', ''de''])"
  by (auto simp: location_keys_def all_locations_def germany_def split: option.splits dest: netherlands_key)

lemma get_location_configured:
  "k \<in> set (location_keys loads e) \<Longrightarrow> \<exists>loc. get_location loads e k = Some loc \<and> loc_key loc = k"
  by (auto simp: location_keys_eq get_location_def all_locations_def germany_def Let_def
      split: if_splits option.splits dest: netherlands_key)

lemma default_for_new_configured:
  "\<exists>loc. get_location loads e (default_for_new loads e) = Some loc \<and> loc_key loc = default_for_new loads e"
proof -
  have "default_for_new loads e \<in> set (location_keys loads e)"
  proof (cases "DEFAULT \<in> set (paused e)")
    case True
    then show ?thesis
      by (auto simp: default_for_new_def recommended_def location_keys_eq dest!: find_SomeD
          split: option.splits)
  next
    case False
    then show ?thesis
      by (simp add: default_for_new_def DEFAULT_def location_keys_eq)
  qed
  then show ?thesis by (rule get_location_configured)
qed

lemma default_for_new_open:
  assumes "k \<in> set (location_keys loads e)" and "k \<notin> set (paused e)"
  shows "default_for_new loads e \<notin> set (paused e)"
proof (cases "List.find (\<lambda>k. k \<notin> set (paused e)) (location_keys loads e)")
  case None
  with assms show ?thesis by (auto simp: find_None_iff_list)
next
  case (Some x)
  then show ?thesis by (auto simp: default_for_new_def recommended_def dest: find_SomeD)
qed

end
