(* ===== verification/Node.thy ===== *)
theory Node
  imports Prelude
begin

section \<open>The entry node: its wrappers and how the portal reaches them\<close>

text \<open>
  The portal changes an entry node only through \<open>ssh\<close> and three shell wrappers
  (\<open>infrastructure/wrappers/pwa-add-peer\<close>, \<open>pwa-del-peer\<close>, \<open>pwa-awg-show\<close>).  This theory
  models the path of one command: \<open>shlex.quote\<close> on the portal, the words the remote shell
  reads, and what the wrapper does to the interface and to its configuration file.

  The \<open>awg\<close> program and the kernel interface behind it are not part of the repository: they
  are the parameter \<open>A\<close>, and locale \<open>awg_tool\<close> states what the wrappers rely on.  The
  network is a parameter too: for each call, whether it is answered, lost on the way there,
  or carried out without the answer coming back (\<open>subprocess.run\<close> raises in both cases).

  Locale \<open>entry_node\<close> is the contract the portal's own code relies on; the wrappers provide
  it on every \<open>awg_tool\<close>.  The lemmas show that quoting is exact, that the wrappers meet the
  contract, and that a peer added and removed again leaves no trace.
\<close>

subsection \<open>Quoting and the remote shell\<close>

definition sq :: char where
  "sq = char_of (39::nat)"

definition dq :: char where
  "dq = char_of (34::nat)"

definition shell_safe :: "char \<Rightarrow> bool" where
  "shell_safe c = (is_letter c \<or> is_digit c \<or> c \<in> set ''_@%+=:,./-'')"

definition escape_quote :: "char \<Rightarrow> string" where
  "escape_quote c = (if c = sq then [sq, dq, sq, dq, sq] else [c])"

text \<open>\<open>shlex.quote\<close>.\<close>

definition shlex_quote :: "string \<Rightarrow> string" where
  "shlex_quote s =
     (if s = [] then [sq, sq]
      else if list_all shell_safe s then s
      else sq # concat (map escape_quote s) @ [sq])"

text \<open>
  The words of a command line.  \<open>None\<close> where the shell would do anything but split it:
  an unquoted character it acts upon, an expansion inside double quotes, an open quote.
\<close>

datatype sh_mode = Plain | Single | Double

fun sh_split :: "sh_mode \<Rightarrow> string option \<Rightarrow> string \<Rightarrow> string list option" where
  "sh_split Plain None [] = Some []"
| "sh_split Plain (Some w) [] = Some [rev w]"
| "sh_split Single w [] = None"
| "sh_split Double w [] = None"
| "sh_split Plain w (c # s) =
     (let cur = (case w of None \<Rightarrow> [] | Some x \<Rightarrow> x) in
      if c = CHR '' '' then
        (case w of None \<Rightarrow> sh_split Plain None s | Some x \<Rightarrow> map_option (Cons (rev x)) (sh_split Plain None s))
      else if c = sq then sh_split Single (Some cur) s
      else if c = dq then sh_split Double (Some cur) s
      else if shell_safe c then sh_split Plain (Some (c # cur)) s
      else None)"
| "sh_split Single w (c # s) =
     (let cur = (case w of None \<Rightarrow> [] | Some x \<Rightarrow> x) in
      if c = sq then sh_split Plain (Some cur) s else sh_split Single (Some (c # cur)) s)"
| "sh_split Double w (c # s) =
     (let cur = (case w of None \<Rightarrow> [] | Some x \<Rightarrow> x) in
      if c = dq then sh_split Plain (Some cur) s
      else if c \<in> set [CHR ''$'', CHR ''`'', char_of (92::nat), CHR ''!''] then None
      else sh_split Double (Some (c # cur)) s)"

definition sh_words :: "string \<Rightarrow> string list option" where
  "sh_words s = sh_split Plain None s"

subsection \<open>The wrappers\<close>

record 'r awg =
  awg_reads :: "'r \<Rightarrow> bool"
  awg_table :: "'r \<Rightarrow> (string \<times> string list) list"
  awg_show :: "'r \<Rightarrow> string list \<Rightarrow> string \<times> string"
  awg_set :: "string \<Rightarrow> string \<Rightarrow> string \<Rightarrow> 'r \<Rightarrow> bool \<times> 'r"
  awg_remove :: "string \<Rightarrow> 'r \<Rightarrow> bool \<times> 'r"

record 'r node =
  runtime :: 'r
  conf :: "string list option"

type_synonym std = "string \<times> string"

definition nl :: string where
  "nl = [char_of (10::nat)]"

definition die :: "string \<Rightarrow> 'r node \<Rightarrow> std \<times> 'r node" where
  "die msg n = (([], msg @ nl), n)"

definition is_b64 :: "char \<Rightarrow> bool" where
  "is_b64 c = (is_letter c \<or> is_digit c \<or> c = CHR ''+'' \<or> c = CHR ''/'')"

definition is_key :: "string \<Rightarrow> bool" where
  "is_key s = (length s = 44 \<and> list_all is_b64 (butlast s) \<and> last s = CHR ''='')"

definition is_peer_name :: "string \<Rightarrow> bool" where
  "is_peer_name s =
     (1 \<le> length s \<and> length s \<le> 32 \<and>
      list_all (\<lambda>c. is_letter c \<or> is_digit c \<or> c = CHR ''_'' \<or> c = CHR ''-'') s)"

definition SUBNET_PREFIXES :: "string list" where
  "SUBNET_PREFIXES = [''10.88.88.'', ''10.88.89.'']"

text \<open>The last octet of an address \<open>10.88.8[89].X/32\<close> written without a leading zero.\<close>

definition client_octet :: "string \<Rightarrow> nat option" where
  "client_octet cip =
     (case List.find (\<lambda>p. startswith cip p) SUBNET_PREFIXES of
        None \<Rightarrow> None
      | Some p \<Rightarrow>
          let h = drop (length p) cip;
              o3 = take (length h - 3) h
          in if endswith h ''/32'' \<and> isdigit o3 \<and> length o3 \<le> 3 \<and> (o3 = ''0'' \<or> hd o3 \<noteq> CHR ''0'')
             then Some (nat_of_str o3) else None)"

text \<open>\<open>[[:space:]]\<close>, and the value of a line \<open>Key = value\<close> of the configuration file.\<close>

definition c_space :: "char \<Rightarrow> bool" where
  "c_space c = (let n = (of_char c :: nat) in 9 \<le> n \<and> n \<le> 13 \<or> n = 32)"

definition c_strip :: "string \<Rightarrow> string" where
  "c_strip s = rev (dropWhile c_space (rev (dropWhile c_space s)))"

definition conf_value :: "string \<Rightarrow> string \<Rightarrow> string option" where
  "conf_value key line =
     (let l = dropWhile c_space line;
          r = dropWhile c_space (drop (length key) l)
      in if startswith l key \<and> r \<noteq> [] \<and> hd r = CHR ''='' then Some (c_strip (tl r)) else None)"

definition conf_ips :: "string \<Rightarrow> string list" where
  "conf_ips line =
     (case conf_value ''AllowedIPs'' line of None \<Rightarrow> [] | Some v \<Rightarrow> map c_strip (split_on CHR '','' v))"

definition peer_block :: "string \<Rightarrow> string \<Rightarrow> string \<Rightarrow> string \<Rightarrow> string list" where
  "peer_block pubkey psk cip name =
     [[], [], ''### '' @ name, ''[Peer]'', ''PublicKey = '' @ pubkey,
      ''PresharedKey = '' @ psk, ''AllowedIPs = '' @ cip]"

definition pwa_add_peer :: "'r awg \<Rightarrow> string list \<Rightarrow> 'r node \<Rightarrow> std \<times> 'r node" where
  "pwa_add_peer A args n =
     (case args of
        [pubkey, psk, cip, name] \<Rightarrow>
          if \<not> is_key pubkey then die ''bad pubkey'' n
          else if \<not> is_key psk then die ''bad psk'' n
          else if \<not> list_ex (\<lambda>p. startswith cip p \<and> cip \<noteq> p) SUBNET_PREFIXES
            then die ''ip must be in a client subnet: 10.88.88. 10.88.89. (X/32)'' n
          else (case client_octet cip of
                  None \<Rightarrow> die ''ip must be X/32'' n
                | Some octet \<Rightarrow>
          if \<not> (2 \<le> octet \<and> octet \<le> 254) then die ''ip octet out of range'' n
          else if \<not> is_peer_name name then die ''bad name'' n
          else (case conf n of
                  None \<Rightarrow> die ''config not found: /etc/amnezia/amneziawg/awg0.conf'' n
                | Some lines \<Rightarrow>
          if \<not> awg_reads A (runtime n) then die ''cannot read awg0 peers'' n
          else if pubkey \<in> fst ` set (awg_table A (runtime n)) \<or> list_ex (\<lambda>l. contains l pubkey) lines
            then die ''peer exists (key)'' n
          else if list_ex (\<lambda>(k, ips). cip \<in> set ips) (awg_table A (runtime n))
            then die (''ip in use: '' @ cip) n
          else if list_ex (\<lambda>l. cip \<in> set (conf_ips l)) lines
            then die (''ip in use: '' @ cip @ '' (config only)'') n
          else
            let (ok, r) = awg_set A pubkey psk cip (runtime n) in
            if \<not> ok then die ''runtime add failed; config restored'' (n\<lparr>runtime := r\<rparr>)
            else ((''ok: added '' @ name @ '' ('' @ cip @ '')'' @ nl, []),
                  n\<lparr>runtime := r, conf := Some (lines @ peer_block pubkey psk cip name)\<rparr>)))
      | _ \<Rightarrow> die ''usage: pwa-add-peer <pubkey> <psk> <client_ip>/32 <client_name>'' n)"

text \<open>The awk program of \<open>pwa-del-peer\<close>: the buffered block, whether it is dropped, and
  whether it has its \<open>[Peer]\<close> line.\<close>

fun drop_block :: "string \<Rightarrow> string list \<Rightarrow> string list \<Rightarrow> bool \<Rightarrow> bool \<Rightarrow> string list" where
  "drop_block key [] buf gone seen = (if gone then [] else buf)"
| "drop_block key (l # ls) buf gone seen =
     (if startswith l ''###'' then (if gone then [] else buf) @ drop_block key ls [l] False False
      else if startswith l ''[Peer]'' then
        (if seen then (if gone then [] else buf) @ drop_block key ls [l] False True
         else drop_block key ls (buf @ [l]) gone True)
      else if buf \<noteq> [] then
        drop_block key ls (buf @ [l]) (gone \<or> conf_value ''PublicKey'' l = Some key) seen
      else l # drop_block key ls [] gone seen)"

definition allowed_ip :: "'r awg \<Rightarrow> string \<Rightarrow> 'r \<Rightarrow> string" where
  "allowed_ip A key r =
     (case map_of (awg_table A r) key of
        None \<Rightarrow> []
      | Some ips \<Rightarrow> (case ips of [] \<Rightarrow> ''(none)'' | ip # _ \<Rightarrow> ip))"

definition count_peers :: "string list \<Rightarrow> nat" where
  "count_peers lines = length (filter (\<lambda>l. startswith l ''[Peer]'') lines)"

definition remove_runtime ::
  "'r awg \<Rightarrow> string \<Rightarrow> 'r node \<Rightarrow> std \<times> 'r node"
where
  "remove_runtime A pub n =
     (let allowed = allowed_ip A pub (runtime n) in
      if allowed = [] then ((''ok: removed <config-only>'' @ nl, []), n)
      else
        let (ok, r) = awg_remove A pub (runtime n) in
        if \<not> ok then die ''error: config updated but runtime removal failed'' (n\<lparr>runtime := r\<rparr>)
        else ((''ok: removed '' @ allowed @ nl, []), n\<lparr>runtime := r\<rparr>))"

definition pwa_del_peer :: "'r awg \<Rightarrow> string list \<Rightarrow> 'r node \<Rightarrow> std \<times> 'r node" where
  "pwa_del_peer A args n =
     (case args of
        [pub] \<Rightarrow>
          if \<not> is_key pub then die ''error: malformed public key'' n
          else (case conf n of
                  None \<Rightarrow> die ''error: config not found'' n
                | Some lines \<Rightarrow>
          if \<not> awg_reads A (runtime n) then (([], []), n)
          else
            let allowed = allowed_ip A pub (runtime n);
                in_config = list_ex (\<lambda>l. contains l pub) lines;
                tmp = drop_block pub lines [] False False
            in if allowed = [] \<and> \<not> in_config then die ''error: peer not found in runtime or config'' n
               else if allowed \<noteq> [] \<and> \<not> list_ex (\<lambda>p. startswith allowed p) SUBNET_PREFIXES
                 then die (''error: refusing: '' @ allowed @ '' is outside the client subnets'') n
               else if \<not> in_config then remove_runtime A pub n
               else if Suc (count_peers tmp) \<noteq> count_peers lines
                 then die ''error: refusing to write: peer blocks'' n
               else if list_ex (\<lambda>l. contains l pub) tmp
                 then die ''error: refusing to write: key still present after removal'' n
               else if \<not> list_ex (\<lambda>l. startswith l ''[Interface]'') tmp
                 then die ''error: refusing to write: result has no [Interface] section'' n
               else remove_runtime A pub (n\<lparr>conf := Some tmp\<rparr>))
      | _ \<Rightarrow> die ''error: usage: pwa-del-peer <public-key>'' n)"

definition pwa_awg_show :: "'r awg \<Rightarrow> string list \<Rightarrow> 'r node \<Rightarrow> std \<times> 'r node" where
  "pwa_awg_show A args n =
     (let iface = (case args of [] \<Rightarrow> [] | i # _ \<Rightarrow> i);
          view = (case args of _ # v # _ \<Rightarrow> v | _ \<Rightarrow> [])
      in if iface \<notin> {[], ''awg0'', ''awg1''} then die ''bad interface'' n
         else if view \<notin> {[], ''allowed-ips''} then die ''bad view'' n
         else (awg_show A (runtime n)
                 (if iface = [] then [] else if view = [] then [iface] else [iface, view]), n))"

subsection \<open>One command over \<open>ssh\<close>\<close>

definition run_command :: "'r awg \<Rightarrow> string \<Rightarrow> 'r node \<Rightarrow> std \<times> 'r node" where
  "run_command A cmd n =
     (case sh_words cmd of
        Some (sudo # wrapper # args) \<Rightarrow>
          if sudo \<noteq> ''sudo'' then die ''not permitted'' n
          else if wrapper = ''pwa-add-peer'' then pwa_add_peer A args n
          else if wrapper = ''pwa-del-peer'' then pwa_del_peer A args n
          else if wrapper = ''pwa-awg-show'' then pwa_awg_show A args n
          else die ''not permitted'' n
      | _ \<Rightarrow> die ''not permitted'' n)"

datatype link = Answered | Lost | Unanswered

record 'r world =
  nodes :: "string \<Rightarrow> 'r node"
  calls :: nat

text \<open>\<open>None\<close> is an exception on the portal's side (\<open>TimeoutExpired\<close>).\<close>

definition node_ssh ::
  "'r awg \<Rightarrow> (nat \<Rightarrow> link) \<Rightarrow> string \<Rightarrow> string \<Rightarrow> 'r world \<Rightarrow> std option \<times> 'r world"
where
  "node_ssh A net h cmd w =
     (let (out, n) = run_command A cmd (nodes w h);
          w0 = w\<lparr>calls := Suc (calls w)\<rparr>;
          w1 = w0\<lparr>nodes := (nodes w)(h := n)\<rparr>
      in case net (calls w) of
           Answered \<Rightarrow> (Some out, w1)
         | Lost \<Rightarrow> (None, w0)
         | Unanswered \<Rightarrow> (None, w1))"

text \<open>The commands the portal sends (\<open>provisioner._add_peer_at\<close>, \<open>_remove_peer_at\<close>).\<close>

definition add_command :: "string \<Rightarrow> string \<Rightarrow> string \<Rightarrow> string \<Rightarrow> string" where
  "add_command pub psk peer_ip name =
     ''sudo pwa-add-peer '' @ join '' '' (map shlex_quote [pub, psk, peer_ip @ ''/32'', name])"

definition del_command :: "string \<Rightarrow> string" where
  "del_command pub = ''sudo pwa-del-peer '' @ shlex_quote pub"

subsection \<open>Lemmas: quoting\<close>

lemma quote_chars [simp]: "\<not> shell_safe sq" "\<not> shell_safe dq" "\<not> shell_safe CHR '' ''" "sq \<noteq> dq" "dq \<noteq> sq"
  "sq \<noteq> CHR '' ''" "dq \<noteq> CHR '' ''" "CHR '' '' \<noteq> sq" "CHR '' '' \<noteq> dq"
  "sq \<notin> set [CHR ''$'', CHR ''`'', char_of (92::nat), CHR ''!'']"
  by code_simp+

lemma sh_split_safe:
  "list_all shell_safe a \<Longrightarrow> sh_split Plain (Some w) (a @ rest) = sh_split Plain (Some (rev a @ w)) rest"
  by (induction a arbitrary: w) (auto simp: Let_def)

lemma sh_split_single:
  "sh_split Single (Some w) (concat (map escape_quote a) @ sq # rest) = sh_split Plain (Some (rev a @ w)) rest"
proof (induction a arbitrary: w)
  case (Cons c a)
  show ?case
  proof (cases "c = sq")
    case True
    have "sh_split Single (Some w) (concat (map escape_quote (c # a)) @ sq # rest) =
          sh_split Single (Some (sq # w)) (concat (map escape_quote a) @ sq # rest)"
      using True quote_chars(10) by (simp add: escape_quote_def Let_def)
    with Cons True show ?thesis by simp
  next
    case False
    with Cons show ?thesis by (simp add: escape_quote_def Let_def)
  qed
qed (simp add: Let_def)

lemma sh_split_quote: "sh_split Plain None (shlex_quote a @ rest) = sh_split Plain (Some (rev a)) rest"
proof (cases "a = [] \<or> \<not> list_all shell_safe a")
  case True
  then show ?thesis
    using sh_split_single [of "[]" a rest] by (auto simp: shlex_quote_def Let_def)
next
  case False
  then obtain c s where a: "a = c # s" "shell_safe c" "list_all shell_safe s"
    by (cases a) auto
  then show ?thesis
    using sh_split_safe [of s "[c]" rest] by (auto simp: shlex_quote_def Let_def)
qed

lemma sh_split_quotes:
  "sh_split Plain (Some w) (concat (map (\<lambda>x. '' '' @ shlex_quote x) as)) = Some (rev w # as)"
  by (induction "as" arbitrary: w) (simp_all add: Let_def sh_split_quote)

lemma sh_words_quoted:
  "list_all shell_safe c \<Longrightarrow> c \<noteq> [] \<Longrightarrow>
   sh_words (c @ concat (map (\<lambda>x. '' '' @ shlex_quote x) as)) = Some (c # as)"
  using sh_split_quotes [of "rev c"] sh_split_quote [of c "concat (map (\<lambda>x. '' '' @ shlex_quote x) as)"]
  by (simp add: sh_words_def shlex_quote_def)

subsection \<open>What the wrappers rely on, and what they promise\<close>

definition peers_on :: "'r awg \<Rightarrow> 'r world \<Rightarrow> string \<Rightarrow> string \<Rightarrow> string list option" where
  "peers_on A w h = map_of (awg_table A (runtime (nodes w h)))"

definition said_ok :: "std option \<Rightarrow> bool" where
  "said_ok r = (case r of None \<Rightarrow> False | Some (out, err) \<Rightarrow> startswith (strip out) ''ok:'')"

text \<open>
  \<open>awg set\<close> with an address nobody holds gives the new key exactly that address; removing a
  key takes it out; a command that exits with an error changes nothing.
\<close>

locale awg_tool =
  fixes A :: "'r awg"
  assumes set_adds: "awg_set A k psk ip r = (True, r') \<Longrightarrow> map_of (awg_table A r) k = None \<Longrightarrow>
      \<not> list_ex (\<lambda>(k, ips). ip \<in> set ips) (awg_table A r) \<Longrightarrow>
      map_of (awg_table A r') = (map_of (awg_table A r))(k \<mapsto> [ip])"
    and set_fails: "awg_set A k psk ip r = (False, r') \<Longrightarrow> map_of (awg_table A r') = map_of (awg_table A r)"
    and remove_takes: "awg_remove A k r = (True, r') \<Longrightarrow>
      map_of (awg_table A r') = (map_of (awg_table A r))(k := None)"
    and remove_fails: "awg_remove A k r = (False, r') \<Longrightarrow> map_of (awg_table A r') = map_of (awg_table A r)"
    and addresses: "map_of (awg_table A r) k = Some ips \<Longrightarrow> [] \<notin> set ips"
begin

lemma add_spec:
  assumes "pwa_add_peer A args n = ((out, err), n')"
  shows "out = [] \<and> map_of (awg_table A (runtime n')) = map_of (awg_table A (runtime n)) \<or>
    (\<exists>k psk cip name t. args = [k, psk, cip, name] \<and> out = ''ok:'' @ t \<and>
       map_of (awg_table A (runtime n)) k = None \<and>
       map_of (awg_table A (runtime n')) = (map_of (awg_table A (runtime n)))(k \<mapsto> [cip]))"
proof (cases "\<exists>k psk cip name lines octet. args = [k, psk, cip, name] \<and> is_key k \<and> is_key psk \<and>
    list_ex (\<lambda>p. startswith cip p \<and> cip \<noteq> p) SUBNET_PREFIXES \<and> client_octet cip = Some octet \<and>
    2 \<le> octet \<and> octet \<le> 254 \<and> is_peer_name name \<and> conf n = Some lines \<and> awg_reads A (runtime n) \<and>
    \<not> (k \<in> fst ` set (awg_table A (runtime n)) \<or> list_ex (\<lambda>l. contains l k) lines) \<and>
    \<not> list_ex (\<lambda>(k, ips). cip \<in> set ips) (awg_table A (runtime n)) \<and>
    \<not> list_ex (\<lambda>l. cip \<in> set (conf_ips l)) lines")
  case False
  with assms show ?thesis
    by (auto simp: pwa_add_peer_def die_def split: list.splits option.splits if_splits)
next
  case True
  then obtain k psk cip name lines octet where *: "args = [k, psk, cip, name]" "is_key k" "is_key psk"
    "list_ex (\<lambda>p. startswith cip p \<and> cip \<noteq> p) SUBNET_PREFIXES" "client_octet cip = Some octet"
    "2 \<le> octet" "octet \<le> 254" "is_peer_name name" "conf n = Some lines" "awg_reads A (runtime n)"
    "k \<notin> fst ` set (awg_table A (runtime n))" "\<not> list_ex (\<lambda>l. contains l k) lines"
    "\<not> list_ex (\<lambda>(k, ips). cip \<in> set ips) (awg_table A (runtime n))"
    "\<not> list_ex (\<lambda>l. cip \<in> set (conf_ips l)) lines"
    by blast
  obtain ok r where r: "awg_set A k psk cip (runtime n) = (ok, r)" by force
  have none: "map_of (awg_table A (runtime n)) k = None" using *(11) by (simp add: map_of_eq_None_iff)
  show ?thesis
  proof (cases ok)
    case True
    with r set_adds [OF _ none *(13)] have "map_of (awg_table A r) = (map_of (awg_table A (runtime n)))(k \<mapsto> [cip])"
      by simp
    with assms * r True none show ?thesis by (auto simp: pwa_add_peer_def)
  next
    case False
    with r set_fails have "map_of (awg_table A r) = map_of (awg_table A (runtime n))" by simp
    with assms * r False show ?thesis by (auto simp: pwa_add_peer_def die_def)
  qed
qed

lemma remove_runtime_spec:
  assumes "remove_runtime A k n = ((out, err), n')"
  shows "out = [] \<and> map_of (awg_table A (runtime n')) = map_of (awg_table A (runtime n)) \<or>
    (\<exists>t. out = ''ok:'' @ t \<and>
       map_of (awg_table A (runtime n')) = (map_of (awg_table A (runtime n)))(k := None))"
proof (cases "allowed_ip A k (runtime n) = []")
  case True
  then have "map_of (awg_table A (runtime n)) k = None"
    using addresses [of "runtime n" k] by (auto simp: allowed_ip_def split: option.splits list.splits)
  then show ?thesis
    using assms True by (auto simp: remove_runtime_def)
next
  case False
  obtain ok r where r: "awg_remove A k (runtime n) = (ok, r)" by force
  show ?thesis
    using assms False r remove_takes remove_fails
    by (cases ok) (auto simp: remove_runtime_def Let_def die_def)
qed

lemma del_spec:
  assumes "pwa_del_peer A [k] n = ((out, err), n')"
  shows "out = [] \<and> map_of (awg_table A (runtime n')) = map_of (awg_table A (runtime n)) \<or>
    (\<exists>t. out = ''ok:'' @ t \<and>
       map_of (awg_table A (runtime n')) = (map_of (awg_table A (runtime n)))(k := None))"
proof -
  have "(\<exists>m. remove_runtime A k m = ((out, err), n') \<and> runtime m = runtime n) \<or> out = [] \<and> runtime n' = runtime n"
  proof (cases "conf n")
    case None
    with assms show ?thesis by (auto simp: pwa_del_peer_def die_def split: if_splits)
  next
    case (Some lines)
    let ?n = "n\<lparr>conf := Some (drop_block k lines [] False False)\<rparr>"
    have "remove_runtime A k n = ((out, err), n') \<or> remove_runtime A k ?n = ((out, err), n') \<or>
        out = [] \<and> n' = n"
      using assms Some unfolding pwa_del_peer_def die_def Let_def
      by (simp split: if_splits)
    then show ?thesis by (metis node.select_convs(1) node.surjective node.update_convs(2))
  qed
  then show ?thesis using remove_runtime_spec by metis
qed

end

text \<open>
  What the portal's code relies on: an answered \<open>ok:\<close> means the peer is on, or off, the
  interface; an answered refusal means nothing changed; a call without an answer did one of
  the two; and no call touches another key or another node.
\<close>

locale entry_node =
  fixes ssh :: "string \<Rightarrow> string \<Rightarrow> 'w \<Rightarrow> std option \<times> 'w"
    and peers :: "'w \<Rightarrow> string \<Rightarrow> string \<Rightarrow> string list option"
  assumes show_keeps: "ssh h ''sudo pwa-awg-show'' w = (r, w') \<Longrightarrow> peers w' = peers w"
    and add_ok: "ssh h (add_command k psk ip name) w = (r, w') \<Longrightarrow> said_ok r \<Longrightarrow>
      peers w h k = None \<and> peers w' = (peers w)(h := (peers w h)(k \<mapsto> [ip @ ''/32'']))"
    and add_refused: "ssh h (add_command k psk ip name) w = (Some std, w') \<Longrightarrow> \<not> said_ok (Some std) \<Longrightarrow>
      peers w' = peers w"
    and add_unanswered: "ssh h (add_command k psk ip name) w = (None, w') \<Longrightarrow>
      peers w' = peers w \<or> peers w' = (peers w)(h := (peers w h)(k \<mapsto> [ip @ ''/32'']))"
    and del_ok: "ssh h (del_command k) w = (r, w') \<Longrightarrow> said_ok r \<Longrightarrow>
      peers w' = (peers w)(h := (peers w h)(k := None))"
    and del_refused: "ssh h (del_command k) w = (Some std, w') \<Longrightarrow> \<not> said_ok (Some std) \<Longrightarrow>
      peers w' = peers w"
    and del_unanswered: "ssh h (del_command k) w = (None, w') \<Longrightarrow>
      peers w' = peers w \<or> peers w' = (peers w)(h := (peers w h)(k := None))"
begin

lemma add_cases:
  assumes "ssh h (add_command k psk ip name) w = (r, w')"
  shows "peers w' = peers w \<and> \<not> said_ok r \<or> peers w' = (peers w)(h := (peers w h)(k \<mapsto> [ip @ ''/32'']))"
proof (cases r)
  case None
  with assms add_unanswered [of h k psk ip name w w'] show ?thesis by (auto simp: said_ok_def)
next
  case (Some std)
  with assms add_ok [of h k psk ip name w r w'] add_refused [of h k psk ip name w std w'] show ?thesis
    by blast
qed

lemma del_cases:
  assumes "ssh h (del_command k) w = (r, w')"
  shows "peers w' = peers w \<and> \<not> said_ok r \<or> peers w' = (peers w)(h := (peers w h)(k := None))"
proof (cases r)
  case None
  with assms del_unanswered [of h k w w'] show ?thesis by (auto simp: said_ok_def)
next
  case (Some std)
  with assms del_ok [of h k w r w'] del_refused [of h k w std w'] show ?thesis by blast
qed

lemma add_only:
  "ssh h (add_command k psk ip name) w = (r, w') \<Longrightarrow> (h', k') \<noteq> (h, k) \<Longrightarrow> peers w' h' k' = peers w h' k'"
  by (drule add_cases) (auto simp: fun_upd_def)

lemma del_only:
  "ssh h (del_command k) w = (r, w') \<Longrightarrow> (h', k') \<noteq> (h, k) \<Longrightarrow> peers w' h' k' = peers w h' k'"
  by (drule del_cases) (auto simp: fun_upd_def)

lemma del_never_adds:
  "ssh h (del_command k) w = (r, w') \<Longrightarrow> peers w h' k' = None \<Longrightarrow> peers w' h' k' = None"
  by (drule del_cases) (auto simp: fun_upd_def)

end

lemma said_ok_ok: "said_ok (Some (''ok:'' @ t, err))"
proof -
  have "\<not> is_space (hd ''ok:'')" "\<not> is_space (last ''ok:'')" by code_simp+
  then show ?thesis
    using strip_keeps_start [of "''ok:''" t] by (simp add: said_ok_def startswith_def)
qed

lemma said_ok_none [simp]: "\<not> said_ok (Some ([], err))" "\<not> said_ok None"
  by (simp_all add: said_ok_def strip_def lstrip_def rstrip_def startswith_def)

lemma sh_words_add:
  "sh_words (add_command k psk ip name) = Some [''sudo'', ''pwa-add-peer'', k, psk, ip @ ''/32'', name]"
proof -
  have safe: "list_all shell_safe ''sudo''" "list_all shell_safe ''pwa-add-peer''" by code_simp+
  then have q: "shlex_quote ''pwa-add-peer'' = ''pwa-add-peer''" by (simp add: shlex_quote_def)
  show ?thesis
    using sh_words_quoted [OF safe(1), of "[''pwa-add-peer'', k, psk, ip @ ''/32'', name]"]
    by (simp add: add_command_def join_def q)
qed

lemma sh_words_del: "sh_words (del_command k) = Some [''sudo'', ''pwa-del-peer'', k]"
proof -
  have safe: "list_all shell_safe ''sudo''" "list_all shell_safe ''pwa-del-peer''" by code_simp+
  then have q: "shlex_quote ''pwa-del-peer'' = ''pwa-del-peer''" by (simp add: shlex_quote_def)
  show ?thesis
    using sh_words_quoted [OF safe(1), of "[''pwa-del-peer'', k]"]
    by (simp add: del_command_def q)
qed

lemma sh_words_show: "sh_words ''sudo pwa-awg-show'' = Some [''sudo'', ''pwa-awg-show'']"
  by code_simp

lemma run_command_add: "run_command A (add_command k psk ip name) n = pwa_add_peer A [k, psk, ip @ ''/32'', name] n"
  by (simp add: run_command_def sh_words_add)

lemma run_command_del: "run_command A (del_command k) n = pwa_del_peer A [k] n"
  by (simp add: run_command_def sh_words_del)

lemma run_command_show: "run_command A ''sudo pwa-awg-show'' n = (awg_show A (runtime n) [], n)"
  by (simp add: run_command_def sh_words_show pwa_awg_show_def)

lemma node_ssh_cases:
  assumes "node_ssh A net h cmd w = (r, w')" and "run_command A cmd (nodes w h) = (out, n)"
  obtains "r = Some out" "nodes w' = (nodes w)(h := n)"
  | "r = None" "nodes w' = (nodes w)(h := n)"
  | "r = None" "nodes w' = nodes w"
  using assms by (cases "net (calls w)") (auto simp: node_ssh_def)

lemma peers_on_upd:
  "nodes w' = (nodes w)(h := n) \<Longrightarrow> peers_on A w' = (peers_on A w)(h := map_of (awg_table A (runtime n)))"
  by (auto simp: peers_on_def fun_eq_iff)

lemma peers_on_same: "nodes w' = nodes w \<Longrightarrow> peers_on A w' = peers_on A w"
  by (simp add: peers_on_def fun_eq_iff)

context awg_tool
begin

lemma ssh_add:
  assumes "node_ssh A net h (add_command k psk ip name) w = (r, w')"
  shows "said_ok r \<Longrightarrow> peers_on A w h k = None \<and>
      peers_on A w' = (peers_on A w)(h := (peers_on A w h)(k \<mapsto> [ip @ ''/32'']))"
    and "r = Some std \<Longrightarrow> \<not> said_ok r \<Longrightarrow> peers_on A w' = peers_on A w"
    and "r = None \<Longrightarrow> peers_on A w' = peers_on A w \<or>
      peers_on A w' = (peers_on A w)(h := (peers_on A w h)(k \<mapsto> [ip @ ''/32'']))"
proof -
  obtain out err n where run: "pwa_add_peer A [k, psk, ip @ ''/32'', name] (nodes w h) = ((out, err), n)"
    by (cases "pwa_add_peer A [k, psk, ip @ ''/32'', name] (nodes w h)") (metis surj_pair)
  then have rc: "run_command A (add_command k psk ip name) (nodes w h) = ((out, err), n)"
    by (simp add: run_command_add)
  from add_spec [OF run] have spec: "out = [] \<and> map_of (awg_table A (runtime n)) = peers_on A w h \<or>
      (\<exists>t. out = ''ok:'' @ t) \<and> peers_on A w h k = None \<and>
       map_of (awg_table A (runtime n)) = (peers_on A w h)(k \<mapsto> [ip @ ''/32''])"
    by (auto simp: peers_on_def)
  from assms rc show "said_ok r \<Longrightarrow> peers_on A w h k = None \<and>
      peers_on A w' = (peers_on A w)(h := (peers_on A w h)(k \<mapsto> [ip @ ''/32'']))"
    by (rule node_ssh_cases) (use spec in \<open>auto simp: peers_on_upd\<close>)
  from assms rc show "r = Some std \<Longrightarrow> \<not> said_ok r \<Longrightarrow> peers_on A w' = peers_on A w"
    by (rule node_ssh_cases) (use spec said_ok_ok in \<open>auto simp: peers_on_upd\<close>)
  from assms rc show "r = None \<Longrightarrow> peers_on A w' = peers_on A w \<or>
      peers_on A w' = (peers_on A w)(h := (peers_on A w h)(k \<mapsto> [ip @ ''/32'']))"
    by (rule node_ssh_cases) (use spec in \<open>auto simp: peers_on_upd dest: peers_on_same [of _ _ A]\<close>)
qed

lemma ssh_del:
  assumes "node_ssh A net h (del_command k) w = (r, w')"
  shows "said_ok r \<Longrightarrow> peers_on A w' = (peers_on A w)(h := (peers_on A w h)(k := None))"
    and "r = Some std \<Longrightarrow> \<not> said_ok r \<Longrightarrow> peers_on A w' = peers_on A w"
    and "r = None \<Longrightarrow> peers_on A w' = peers_on A w \<or>
      peers_on A w' = (peers_on A w)(h := (peers_on A w h)(k := None))"
proof -
  obtain out err n where run: "pwa_del_peer A [k] (nodes w h) = ((out, err), n)"
    by (cases "pwa_del_peer A [k] (nodes w h)") (metis surj_pair)
  then have rc: "run_command A (del_command k) (nodes w h) = ((out, err), n)"
    by (simp add: run_command_del)
  from del_spec [OF run] have spec: "out = [] \<and> map_of (awg_table A (runtime n)) = peers_on A w h \<or>
      (\<exists>t. out = ''ok:'' @ t) \<and> map_of (awg_table A (runtime n)) = (peers_on A w h)(k := None)"
    by (auto simp: peers_on_def)
  from assms rc show "said_ok r \<Longrightarrow> peers_on A w' = (peers_on A w)(h := (peers_on A w h)(k := None))"
    by (rule node_ssh_cases) (use spec in \<open>auto simp: peers_on_upd\<close>)
  from assms rc show "r = Some std \<Longrightarrow> \<not> said_ok r \<Longrightarrow> peers_on A w' = peers_on A w"
    by (rule node_ssh_cases) (use spec said_ok_ok in \<open>auto simp: peers_on_upd\<close>)
  from assms rc show "r = None \<Longrightarrow> peers_on A w' = peers_on A w \<or>
      peers_on A w' = (peers_on A w)(h := (peers_on A w h)(k := None))"
    by (rule node_ssh_cases) (use spec in \<open>auto simp: peers_on_upd dest: peers_on_same [of _ _ A]\<close>)
qed

end

text \<open>The wrappers keep the contract, on any interface tool and over any network.\<close>

sublocale awg_tool \<subseteq> wrappers: entry_node "node_ssh A net" "peers_on A" for net
proof unfold_locales
  fix h w r w'
  assume "node_ssh A net h ''sudo pwa-awg-show'' w = (r, w')"
  then show "peers_on A w' = peers_on A w"
    using run_command_show [of A "nodes w h"]
    by (rule node_ssh_cases) (auto intro: peers_on_same)
qed (fact ssh_add(1) ssh_add(2) [OF _ refl] ssh_add(3) [OF _ refl]
      ssh_del(1) ssh_del(2) [OF _ refl] ssh_del(3) [OF _ refl])+

text \<open>
  An interface kept as a table, whose \<open>set\<close> and \<open>remove\<close> succeed or fail as a list of
  outcomes says: the tool the wrappers are evaluated on.
\<close>

type_synonym table_if = "(string \<times> string list) list \<times> bool list"

definition table_awg :: "table_if awg" where
  "table_awg = \<lparr>
     awg_reads = (\<lambda>r. True),
     awg_table = (\<lambda>r. map (\<lambda>(k, ips). (k, filter (\<lambda>ip. ip \<noteq> []) ips)) (fst r)),
     awg_show = (\<lambda>r args. (concat (map (\<lambda>(k, ips). ''peer: '' @ k @ nl @ ''  allowed ips: '' @ join '', '' ips @ nl) (fst r)), [])),
     awg_set = (\<lambda>k psk ip r. case snd r of
        False # bs \<Rightarrow> (False, fst r, bs)
      | bs \<Rightarrow> if ip = [] then (False, r) else (True, (k, [ip]) # fst r, tl bs)),
     awg_remove = (\<lambda>k r. case snd r of
        False # bs \<Rightarrow> (False, fst r, bs)
      | bs \<Rightarrow> (True, filter (\<lambda>(k', _). k' \<noteq> k) (fst r), tl bs))\<rparr>"

lemma map_of_filter_key: "map_of (filter (\<lambda>(k', _). k' \<noteq> k) xs) = (map_of xs)(k := None)"
  by (induction xs) (auto simp: fun_eq_iff)

lemma map_of_mapped: "map_of (map (\<lambda>(k, v). (k, f v)) xs) k = map_option f (map_of xs k)"
  by (induction xs) auto

interpretation ta: awg_tool table_awg
proof unfold_locales
  fix k psk ip r r'
  assume "awg_set table_awg k psk ip r = (True, r')"
  then show "map_of (awg_table table_awg r') = (map_of (awg_table table_awg r))(k \<mapsto> [ip])"
    by (auto simp: table_awg_def split: list.splits bool.splits if_splits)
next
  fix k r r'
  assume "awg_remove table_awg k r = (True, r')"
  then have "fst r' = filter (\<lambda>(k', _). k' \<noteq> k) (fst r)"
    by (auto simp: table_awg_def split: list.splits bool.splits)
  then show "map_of (awg_table table_awg r') = (map_of (awg_table table_awg r))(k := None)"
    by (auto simp: table_awg_def map_of_mapped map_of_filter_key fun_eq_iff)
qed (auto simp: table_awg_def map_of_mapped split: list.splits bool.splits if_splits)

subsection \<open>Lemmas: the configuration file\<close>

lemma sublist_c_strip: "sublist (c_strip s) s"
proof -
  have "prefix (rev (dropWhile c_space (rev t))) t" for t
    by (metis rev_rev_ident suffix_dropWhile suffix_to_prefix)
  then have "sublist (c_strip s) (dropWhile c_space s)"
    by (simp add: c_strip_def prefix_imp_sublist)
  moreover have "sublist (dropWhile c_space s) s"
    by (simp add: suffix_dropWhile suffix_imp_sublist)
  ultimately show ?thesis by (rule sublist_order.order_trans)
qed

lemma conf_value_contains:
  assumes "conf_value key l = Some v"
  shows "contains l v"
proof -
  let ?l = "dropWhile c_space l"
  let ?r = "dropWhile c_space (drop (length key) ?l)"
  from assms have v: "v = c_strip (tl ?r)"
    by (auto simp: conf_value_def Let_def split: if_splits)
  have "suffix (tl ?r) ?r" "suffix ?r (drop (length key) ?l)" "suffix (drop (length key) ?l) ?l" "suffix ?l l"
    by (simp_all add: suffix_dropWhile suffix_drop suffix_tl)
  then have "suffix (tl ?r) l" by (meson suffix_order.order_trans)
  then show ?thesis
    using sublist_c_strip [of "tl ?r"] v
    by (metis contains_iff_sublist sublist_order.order_trans suffix_imp_sublist)
qed

lemma drop_block_keeps:
  assumes "\<forall>l\<in>set ls. conf_value ''PublicKey'' l \<noteq> Some key" and "startswith h ''###''"
  shows "drop_block key (ls @ h # rest) buf False seen = buf @ ls @ drop_block key rest [h] False False"
  using assms by (induction ls arbitrary: buf seen) auto

lemma is_key_facts:
  assumes "is_key k"
  shows "k \<noteq> []" "list_all (\<lambda>c. \<not> c_space c) k"
proof -
  show ne: "k \<noteq> []" using assms by (auto simp: is_key_def)
  have "\<not> c_space c" if "is_b64 c \<or> c = CHR ''=''" for c
    using that by (auto simp: is_b64_def is_letter_def is_digit_def c_space_def Let_def)
  moreover have "list_all (\<lambda>c. is_b64 c \<or> c = CHR ''='') (butlast k @ [last k])"
    using assms by (simp add: is_key_def list_all_iff)
  ultimately show "list_all (\<lambda>c. \<not> c_space c) k"
    using ne by (simp add: list_all_iff)
qed

lemma c_strip_id: "list_all (\<lambda>c. \<not> c_space c) k \<Longrightarrow> c_strip (CHR '' '' # k) = k"
proof -
  have drop: "dropWhile c_space t = t" if "list_all (\<lambda>c. \<not> c_space c) t" for t
    using that by (cases t) auto
  assume "list_all (\<lambda>c. \<not> c_space c) k"
  moreover from this have "list_all (\<lambda>c. \<not> c_space c) (rev k)" by simp
  moreover have "c_space CHR '' ''" by code_simp
  ultimately show ?thesis by (simp add: c_strip_def drop)
qed

lemma conf_value_own_key: "is_key k \<Longrightarrow> conf_value ''PublicKey'' (''PublicKey = '' @ k) = Some k"
proof -
  assume "is_key k"
  then have "c_strip (CHR '' '' # k) = k" by (simp add: is_key_facts c_strip_id)
  moreover have "\<not> c_space CHR ''P''" "c_space CHR '' ''" "\<not> c_space CHR ''=''" by code_simp+
  ultimately show ?thesis by (simp add: conf_value_def startswith_def)
qed

lemma drop_block_peer_block:
  assumes "is_key k" and "\<forall>l\<in>set lines. conf_value ''PublicKey'' l \<noteq> Some k"
  shows "drop_block k (lines @ peer_block k psk cip name) [] False False = lines @ [[], []]"
proof -
  have blank: "conf_value ''PublicKey'' [] = None" by (simp add: conf_value_def startswith_def)
  have sw: "startswith (''### '' @ name) ''###''" "startswith ''[Peer]'' ''[Peer]''"
      "\<not> startswith ''[Peer]'' ''###''"
      "\<not> startswith (''PublicKey = '' @ k) ''###''" "\<not> startswith (''PublicKey = '' @ k) ''[Peer]''"
      "\<not> startswith (''PresharedKey = '' @ psk) ''###''" "\<not> startswith (''PresharedKey = '' @ psk) ''[Peer]''"
      "\<not> startswith (''AllowedIPs = '' @ cip) ''###''" "\<not> startswith (''AllowedIPs = '' @ cip) ''[Peer]''"
    by (simp_all add: startswith_def)
  define rest where
    "rest = [''[Peer]'', ''PublicKey = '' @ k, ''PresharedKey = '' @ psk, ''AllowedIPs = '' @ cip]"
  have gone: "drop_block k rest [''### '' @ name] False False = []"
    unfolding rest_def using conf_value_own_key [OF assms(1)] sw by simp
  have "\<forall>l\<in>set (lines @ [[], []]). conf_value ''PublicKey'' l \<noteq> Some k"
    using assms(2) blank by auto
  then have "drop_block k ((lines @ [[], []]) @ (''### '' @ name) # rest) [] False False =
      [] @ (lines @ [[], []]) @ drop_block k rest [''### '' @ name] False False"
    by (rule drop_block_keeps [OF _ sw(1)])
  moreover have "lines @ peer_block k psk cip name = (lines @ [[], []]) @ (''### '' @ name) # rest"
    unfolding peer_block_def rest_def by simp
  ultimately show ?thesis using gone by (simp only: append_Nil append_Nil2)
qed

lemma pwa_add_peer_ok:
  assumes "pwa_add_peer A [k, psk, cip, name] n = ((out, err), n')" and "out \<noteq> []"
  obtains lines octet where "is_key k" "client_octet cip = Some octet" "2 \<le> octet" "octet \<le> 254"
    "list_ex (\<lambda>p. startswith cip p) SUBNET_PREFIXES"
    "conf n = Some lines" "\<not> list_ex (\<lambda>l. contains l k) lines"
    "map_of (awg_table A (runtime n)) k = None"
    "\<not> list_ex (\<lambda>(k, ips). cip \<in> set ips) (awg_table A (runtime n))"
    "awg_set A k psk cip (runtime n) = (True, runtime n')"
    "conf n' = Some (lines @ peer_block k psk cip name)"
proof -
  obtain lines where lines: "conf n = Some lines"
    using assms by (cases "conf n") (auto simp: pwa_add_peer_def die_def split: option.splits if_splits)
  obtain octet where octet: "client_octet cip = Some octet"
    using assms by (cases "client_octet cip") (auto simp: pwa_add_peer_def die_def split: if_splits)
  obtain ok r where r: "awg_set A k psk cip (runtime n) = (ok, r)" by force
  have "is_key k \<and> 2 \<le> octet \<and> octet \<le> 254 \<and>
    list_ex (\<lambda>p. startswith cip p \<and> cip \<noteq> p) SUBNET_PREFIXES \<and> \<not> list_ex (\<lambda>l. contains l k) lines \<and>
    k \<notin> fst ` set (awg_table A (runtime n)) \<and>
    \<not> list_ex (\<lambda>(k, ips). cip \<in> set ips) (awg_table A (runtime n)) \<and> ok \<and>
    n' = n\<lparr>runtime := r, conf := Some (lines @ peer_block k psk cip name)\<rparr>"
    using assms unfolding pwa_add_peer_def die_def
    by (simp add: lines octet r split: if_splits)
  then show ?thesis
    using lines octet r by (intro that) (auto simp: map_of_eq_None_iff list_ex_iff)
qed

subsection \<open>Properties\<close>

text \<open>
  C15: what the portal sends is what the wrapper receives.  Whatever the key, the address and
  the name, hostile text included, the remote shell reads the command for a new peer as
  \<open>sudo\<close>, the wrapper and exactly the four arguments, and the command to remove a key as
  \<open>sudo\<close>, the wrapper and that key.
\<close>

theorem commands_arrive_whole:
  "sh_words (add_command k psk ip name) = Some [''sudo'', ''pwa-add-peer'', k, psk, ip @ ''/32'', name] \<and>
   sh_words (del_command k) = Some [''sudo'', ''pwa-del-peer'', k]"
  by (simp add: sh_words_add sh_words_del)


definition sample_key :: "char \<Rightarrow> string" where
  "sample_key c = replicate 43 c @ ''=''"

definition sample_node :: "table_if node" where
  "sample_node = \<lparr>runtime = ([(sample_key CHR ''B'', [''10.77.77.2/32'', ''0.0.0.0/0''])], []),
     conf = Some [''[Interface]'', ''ListenPort = 443'', [], ''[Peer]'',
                  ''PublicKey = '' @ sample_key CHR ''B'', ''AllowedIPs = 10.77.77.2/32, 0.0.0.0/0'']\<rparr>"


text \<open>
  A peer added and then removed leaves no trace.  After \<open>pwa-add-peer\<close> has said ok,
  \<open>pwa-del-peer\<close> for its key, if the interface can be read and takes the removal, says ok
  too; the interface then has the peers it had before, and the configuration file the lines
  it had before, followed by the two blank lines that opened the block.
\<close>

theorem add_del_roundtrip:
  assumes "awg_tool A" and "conf n = Some lines" and "list_ex (\<lambda>l. startswith l ''[Interface]'') lines"
    and "pwa_add_peer A [k, psk, cip, name] n = ((out, err), n1)" and "out \<noteq> []"
    and "awg_reads A (runtime n1)" and "fst (awg_remove A k (runtime n1))"
  shows "\<exists>t n2. pwa_del_peer A [k] n1 = ((''ok:'' @ t, []), n2) \<and> conf n2 = Some (lines @ [[], []]) \<and>
    map_of (awg_table A (runtime n2)) = map_of (awg_table A (runtime n))"
proof -
  let ?T = "\<lambda>n. map_of (awg_table A (runtime n))"
  from assms(4,5) obtain lines' where ok: "is_key k" "list_ex (\<lambda>p. startswith cip p) SUBNET_PREFIXES"
      "conf n = Some lines'" "\<not> list_ex (\<lambda>l. contains l k) lines'" "?T n k = None"
      "conf n1 = Some (lines' @ peer_block k psk cip name)"
    by (rule pwa_add_peer_ok)
  then have "lines' = lines" using assms(2) by simp
  note add = ok(1,2,4-6) [unfolded this]
  have T1: "?T n1 = (?T n)(k \<mapsto> [cip])" using awg_tool.add_spec [OF assms(1,4)] assms(5) by auto
  have "cip \<noteq> []" using add(2) by (auto simp: SUBNET_PREFIXES_def startswith_def)
  with T1 have allowed: "allowed_ip A k (runtime n1) = cip" by (simp add: allowed_ip_def)
  define tmp where "tmp = lines @ [[], []]"
  have block: "drop_block k (lines @ peer_block k psk cip name) [] False False = tmp"
    unfolding tmp_def using add(1,3) conf_value_contains
    by (intro drop_block_peer_block) (auto simp: list_ex_iff)
  have here: "list_ex (\<lambda>l. contains l k) (lines @ peer_block k psk cip name)"
    using conf_value_contains [OF conf_value_own_key [OF add(1)]] by (simp add: peer_block_def)
  have count: "Suc (count_peers tmp) = count_peers (lines @ peer_block k psk cip name)"
    by (simp add: tmp_def count_peers_def peer_block_def startswith_def)
  have key_gone: "\<not> list_ex (\<lambda>l. contains l k) tmp"
    using add(3) is_key_facts(1) [OF add(1)] by (simp add: tmp_def)
  have iface: "list_ex (\<lambda>l. startswith l ''[Interface]'') tmp"
    using assms(3) by (simp add: tmp_def)
  obtain r where r: "awg_remove A k (runtime n1) = (True, r)" using assms(7) by (metis prod.collapse)
  have "pwa_del_peer A [k] n1 = remove_runtime A k (n1\<lparr>conf := Some tmp\<rparr>)"
    using add(1,2,5) assms(6) allowed \<open>cip \<noteq> []\<close> block here count key_gone iface
    by (simp add: pwa_del_peer_def Let_def)
  also have "\<dots> = ((''ok:'' @ '' removed '' @ cip @ nl, []), n1\<lparr>conf := Some tmp, runtime := r\<rparr>)"
    using allowed \<open>cip \<noteq> []\<close> r by (simp add: remove_runtime_def)
  finally have run: "pwa_del_peer A [k] n1 =
      ((''ok:'' @ '' removed '' @ cip @ nl, []), n1\<lparr>conf := Some tmp, runtime := r\<rparr>)" .
  have "map_of (awg_table A r) = ?T n"
    using awg_tool.remove_takes [OF assms(1) r] T1 add(4) by auto
  with run show ?thesis unfolding tmp_def by fastforce
qed

theorem add_del_roundtrip_witness:
  "\<exists>t n2. pwa_del_peer table_awg [sample_key CHR ''C'']
      (snd (pwa_add_peer table_awg [sample_key CHR ''C'', sample_key CHR ''D'', ''10.88.88.42/32'', ''auto-ann''] sample_node))
      = ((''ok:'' @ t, []), n2) \<and>
    map_of (awg_table table_awg (runtime n2)) = map_of (awg_table table_awg (runtime sample_node))"
proof -
  let ?args = "[sample_key CHR ''C'', sample_key CHR ''D'', ''10.88.88.42/32'', ''auto-ann'']"
  have o: "fst (pwa_add_peer table_awg ?args sample_node) = (''ok: added auto-ann (10.88.88.42/32)'' @ nl, [])"
    by code_simp
  then have run: "pwa_add_peer table_awg ?args sample_node =
      ((''ok: added auto-ann (10.88.88.42/32)'' @ nl, []), snd (pwa_add_peer table_awg ?args sample_node))"
    by (simp add: prod_eq_iff)
  have c: "conf sample_node = Some (the (conf sample_node))"
    "list_ex (\<lambda>l. startswith l ''[Interface]'') (the (conf sample_node))"
    "awg_reads table_awg (runtime (snd (pwa_add_peer table_awg ?args sample_node)))"
    "fst (awg_remove table_awg (sample_key CHR ''C'') (runtime (snd (pwa_add_peer table_awg ?args sample_node))))"
    by code_simp+
  show ?thesis
    using add_del_roundtrip [OF ta.awg_tool_axioms c(1,2) run _ c(3,4)] by blast
qed

end
