(* ===== verification/Provisioner.thy ===== *)
theory Provisioner
  imports Credit Locations Node
begin

section \<open>Issuing devices and activating payments (\<open>pwa/services/provisioner.py\<close>)\<close>

text \<open>
  The portal's side of the entry nodes, and the one path from a confirmed payment to a
  subscription.  What is not in the repository comes in the record \<open>'w platform\<close>: the
  environment, the JSON decoder, the \<open>ssh\<close> client with the nodes behind it (\<open>'w\<close>), and
  Fernet's two functions.  Key generation (X25519, \<open>os.urandom\<close>) is the argument \<open>kp\<close>: the
  private key, public key and preshared key it gave, or \<open>None\<close> where it raised.

  \<open>Raised\<close> is an exception that leaves the function (an \<open>ssh\<close> call that timed out); the
  session it returns is then what had been committed.  The function \<open>issue_config\<close> adds its
  row without committing, as the code does.

  The lemmas show where an address comes from, that issuing and removing agree with the
  node, and what an activation does to every table.
\<close>

record 'w platform =
  pf_env :: env
  pf_loads :: loads
  pf_ssh :: "string \<Rightarrow> string \<Rightarrow> 'w \<Rightarrow> std option \<times> 'w"
  pf_encrypt :: "string \<Rightarrow> string"
  pf_decrypt :: "string \<Rightarrow> string"

type_synonym pool = "string \<times> nat \<times> nat"

definition CLIENT_POOL :: pool where
  "CLIENT_POOL = (''10.88.88'', 42, 199)"

definition TRIAL_POOL :: pool where
  "TRIAL_POOL = (''10.88.89'', 10, 250)"

definition BRIDGE_IP :: "env \<Rightarrow> string" where
  "BRIDGE_IP e = getenv e ''BRIDGE_IP'' []"

definition BRIDGE_ENDPOINT :: "env \<Rightarrow> string" where
  "BRIDGE_ENDPOINT e = getenv e ''BRIDGE_ENDPOINT'' []"

definition ssh_bridge :: "'w platform \<Rightarrow> string \<Rightarrow> string \<Rightarrow> 'w \<Rightarrow> (string \<times> string) option \<times> 'w" where
  "ssh_bridge P h cmd w =
     (let (r, w') = pf_ssh P (if h = [] then BRIDGE_IP (pf_env P) else h) cmd w
      in (map_option (\<lambda>(out, err). (strip out, strip err)) r, w'))"

definition line_ips :: "string \<Rightarrow> string list" where
  "line_ips line =
     (let l = strip line in
      if startswith l ''allowed ips:''
      then filter (\<lambda>a. a \<noteq> [])
             (map (\<lambda>part. hd (split_on CHR ''/'' (strip part))) (split_on CHR '','' (after CHR '':'' l)))
      else [])"

definition entry_used_ips :: "'w platform \<Rightarrow> string \<Rightarrow> 'w \<Rightarrow> string list \<times> 'w" where
  "entry_used_ips P h w =
     (let (r, w') = ssh_bridge P h ''sudo pwa-awg-show'' w
      in case r of
           None \<Rightarrow> ([], w')
         | Some (stdout, _) \<Rightarrow> (concat (map line_ips (splitlines stdout)), w'))"

definition bridge_used_ips :: "'w platform \<Rightarrow> 'w \<Rightarrow> string list \<times> 'w" where
  "bridge_used_ips P w = entry_used_ips P (BRIDGE_IP (pf_env P)) w"

definition pool_ip :: "string \<Rightarrow> nat \<Rightarrow> string" where
  "pool_ip pre i = pre @ ''.'' @ str_nat i"

definition find_free_ip :: "db \<Rightarrow> string list \<Rightarrow> pool \<Rightarrow> string \<Rightarrow> string option" where
  "find_free_ip d exclude pl location =
     (case pl of (pre, start, stop) \<Rightarrow>
        let used = map c_peer_ip (filter (\<lambda>c. c_is_active c \<and> c_location c = location \<and> c_peer_ip c \<noteq> [])
                     (configs d))
        in List.find (\<lambda>candidate. candidate \<notin> set used \<and> candidate \<notin> set exclude)
             (map (pool_ip pre) [start..<Suc stop]))"

definition add_peer_at ::
  "'w platform \<Rightarrow> string \<Rightarrow> string \<Rightarrow> string \<Rightarrow> string \<Rightarrow> string \<Rightarrow> 'w \<Rightarrow> (bool \<times> string) outcome \<times> 'w"
where
  "add_peer_at P h pub psk peer_ip client_name w =
     (let (r, w') = ssh_bridge P h (add_command pub psk peer_ip client_name) w
      in case r of
           None \<Rightarrow> (Raised, w')
         | Some (stdout, stderr) \<Rightarrow>
             if startswith stdout ''ok:'' then (Done (True, ''ok''), w')
             else (Done (False, strip (stdout @ '' '' @ stderr)), w'))"

definition add_peer_to_bridge ::
  "'w platform \<Rightarrow> string \<Rightarrow> string \<Rightarrow> string \<Rightarrow> string \<Rightarrow> 'w \<Rightarrow> (bool \<times> string) outcome \<times> 'w"
where
  "add_peer_to_bridge P pub psk peer_ip client_name w =
     add_peer_at P (BRIDGE_IP (pf_env P)) pub psk peer_ip client_name w"

definition remove_peer_at :: "'w platform \<Rightarrow> string \<Rightarrow> string \<Rightarrow> 'w \<Rightarrow> (bool \<times> string) outcome \<times> 'w" where
  "remove_peer_at P h pub w =
     (let (r, w') = ssh_bridge P h (del_command pub) w
      in case r of
           None \<Rightarrow> (Raised, w')
         | Some (stdout, stderr) \<Rightarrow>
             if startswith stdout ''ok:'' then (Done (True, ''ok''), w')
             else (Done (False, strip (stdout @ '' '' @ stderr)), w'))"

definition remove_peer_from_bridge :: "'w platform \<Rightarrow> string \<Rightarrow> 'w \<Rightarrow> (bool \<times> string) outcome \<times> 'w" where
  "remove_peer_from_bridge P pub w = remove_peer_at P (BRIDGE_IP (pf_env P)) pub w"

text \<open>\<open>None\<close> where the location is not configured and the code raises \<open>ValueError\<close>.\<close>

definition build_conf :: "'w platform \<Rightarrow> string \<Rightarrow> string \<Rightarrow> string \<Rightarrow> string \<Rightarrow> string option" where
  "build_conf P priv psk peer_ip loc =
     (case get_location (pf_loads P) (pf_env P) loc of
        None \<Rightarrow> None
      | Some l \<Rightarrow>
          let (params_map, m, pub_key, ep) =
                (if loc_key l = DEFAULT
                 then (DE_PARAMS, 1300, BRIDGE_PUB (pf_env P), BRIDGE_ENDPOINT (pf_env P))
                 else (params l, mtu l, loc_public_key l, endpoint l));
              ps = join nl (map (\<lambda>(k, v). k @ '' = '' @ v) params_map)
          in Some (''[Interface]'' @ nl @
                   ''PrivateKey = '' @ priv @ nl @
                   ''Address = '' @ peer_ip @ ''/32'' @ nl @
                   ''DNS = 1.1.1.1'' @ nl @
                   ''MTU = '' @ str_int m @ nl @
                   ps @ nl @ nl @
                   ''[Peer]'' @ nl @
                   ''PublicKey = '' @ pub_key @ nl @
                   ''PresharedKey = '' @ psk @ nl @
                   ''Endpoint = '' @ ep @ nl @
                   ''AllowedIPs = 0.0.0.0/0'' @ nl @
                   ''PersistentKeepalive = 25'' @ nl))"

subsection \<open>Issuing a device\<close>

text \<open>The retry loop: at most \<open>n\<close> more addresses are tried.  \<open>Done None\<close> is a device not issued.\<close>

fun issue_tries ::
  "nat \<Rightarrow> 'w platform \<Rightarrow> db \<Rightarrow> location \<Rightarrow> pool \<Rightarrow> string \<Rightarrow> string \<Rightarrow> string \<Rightarrow> string list \<Rightarrow> 'w \<Rightarrow>
   string option outcome \<times> 'w"
where
  "issue_tries 0 P d loc pl pub psk client_name tried w = (Done None, w)"
| "issue_tries (Suc n) P d loc pl pub psk client_name tried w =
     (case find_free_ip d tried pl (loc_key loc) of
        None \<Rightarrow> (Done None, w)
      | Some ip \<Rightarrow>
          (case (if loc_key loc = DEFAULT then add_peer_to_bridge P pub psk ip client_name w
                 else add_peer_at P (host loc) pub psk ip client_name w) of
             (Raised, w') \<Rightarrow> (Raised, w')
           | (Done (ok, why), w') \<Rightarrow>
               if ok then (Done (Some ip), w')
               else if \<not> contains why ''ip in use'' then (Done None, w')
               else issue_tries n P d loc pl pub psk client_name (ip # tried) w'))"

definition pool_of :: "string \<Rightarrow> pool" where
  "pool_of kind = (if kind = ''trial'' then TRIAL_POOL else CLIENT_POOL)"

definition client_name_of :: "string \<Rightarrow> string \<Rightarrow> string" where
  "client_name_of kind uname =
     take 32 ((if kind = ''trial'' then ''trial-'' else ''auto-'') @ uname)"

definition issue_config ::
  "'w platform \<Rightarrow> user \<Rightarrow> string \<Rightarrow> string \<Rightarrow> string \<Rightarrow> (string \<times> string \<times> string) option \<Rightarrow> datetime \<Rightarrow>
   db \<Rightarrow> 'w \<Rightarrow> config_row option outcome \<times> db \<times> 'w"
where
  "issue_config P u name kind location kp now d w =
     (case get_location (pf_loads P) (pf_env P) (if kind = ''trial'' then DEFAULT else location) of
        None \<Rightarrow> (Done None, d, w)
      | Some loc \<Rightarrow>
          (case kp of
             None \<Rightarrow> (Done None, d, w)
           | Some (priv, pub, psk) \<Rightarrow>
               let (tried, w1) = (if loc_key loc = DEFAULT then bridge_used_ips P w
                                  else entry_used_ips P (host loc) w);
                   (r, w2) = issue_tries 10 P d loc (pool_of kind) pub psk
                               (client_name_of kind (username u)) tried w1
               in case r of
                    Raised \<Rightarrow> (Raised, d, w2)
                  | Done None \<Rightarrow> (Done None, d, w2)
                  | Done (Some ip) \<Rightarrow>
                      let (i, d1) = new_uuid d;
                          row = \<lparr>c_id = i, c_user_id = u_id u, c_name = name, c_peer_ip = ip,
                                 c_kind = kind, c_location = loc_key loc,
                                 private_key = pf_encrypt P priv, public_key = pub,
                                 preshared_key = pf_encrypt P psk, c_is_active = True,
                                 c_created_at = now\<rparr>
                      in (Done (Some row), d1\<lparr>configs := configs d1 @ [row]\<rparr>, w2)))"

definition active_configs :: "user \<Rightarrow> db \<Rightarrow> config_row list" where
  "active_configs u d =
     sort_key (\<lambda>c. - c_created_at c) (filter (\<lambda>c. c_user_id c = u_id u \<and> c_is_active c) (configs d))"

definition location_or_default :: "config_row \<Rightarrow> string" where
  "location_or_default c = (if c_location c = [] then DEFAULT else c_location c)"

definition render_config :: "'w platform \<Rightarrow> config_row \<Rightarrow> string option" where
  "render_config P c =
     build_conf P (pf_decrypt P (private_key c)) (pf_decrypt P (preshared_key c)) (c_peer_ip c)
       (location_or_default c)"

definition remove_peer_for :: "'w platform \<Rightarrow> config_row \<Rightarrow> 'w \<Rightarrow> (bool \<times> string) outcome \<times> 'w" where
  "remove_peer_for P c w =
     (let key = location_or_default c in
      if key = DEFAULT then remove_peer_from_bridge P (public_key c) w
      else case get_location (pf_loads P) (pf_env P) key of
             None \<Rightarrow> (Done (False, ''location '' @ key @ '' is not configured''), w)
           | Some loc \<Rightarrow> remove_peer_at P (host loc) (public_key c) w)"

text \<open>\<open>None\<close> is no device; \<open>Some None\<close> is the \<open>ValueError\<close> of an unconfigured location.\<close>

definition get_client_config :: "'w platform \<Rightarrow> user \<Rightarrow> db \<Rightarrow> string option option" where
  "get_client_config P u d =
     (case active_configs u d of [] \<Rightarrow> None | c # _ \<Rightarrow> Some (render_config P c))"

subsection \<open>Activating a payment\<close>

text \<open>Trial peers come off after the commit, best effort: a failure of any kind is logged only.\<close>

fun remove_trial_devices :: "'w platform \<Rightarrow> config_row list \<Rightarrow> db \<Rightarrow> 'w \<Rightarrow> db \<times> 'w" where
  "remove_trial_devices P [] d w = (d, w)"
| "remove_trial_devices P (c # cs) d w =
     (case remove_peer_from_bridge P (public_key c) w of
        (Done (True, _), w') \<Rightarrow> remove_trial_devices P cs (put_config (c\<lparr>c_is_active := False\<rparr>) d) w'
      | (_, w') \<Rightarrow> remove_trial_devices P cs d w')"

definition or_ru :: "string \<Rightarrow> string" where
  "or_ru l = (if l = [] then ''ru'' else l)"

text \<open>
  The middle part, up to the commit: the account and the payment are written, the credit
  spent, the referrer's reward recorded, the buyer's own waiting rewards applied, the bell
  rung and a running trial closed.
\<close>

definition close_trial :: "datetime \<Rightarrow> user \<Rightarrow> user" where
  "close_trial now u =
     (case trial_until u of
        Some t \<Rightarrow> if t > now then u\<lparr>trial_until := Some now\<rparr> else u
      | None \<Rightarrow> u)"

definition settle_payment ::
  "'w platform \<Rightarrow> plan \<Rightarrow> user \<Rightarrow> payment \<Rightarrow> datetime \<Rightarrow> session \<Rightarrow> user \<times> session"
where
  "settle_payment P info u p now s =
     (let base = max now (case subscribed_until u of None \<Rightarrow> now | Some t \<Rightarrow> t);
          u1 = u\<lparr>is_subscribed := True, u_plan := Some (p_plan p),
                 subscribed_until := Some (base + days (plan_days info))\<rparr>;
          p1 = p\<lparr>p_status := ''paid'', paid_at := Some now\<rparr>;
          d1 = put_payment p1 (put_user u1 (fst s));
          d2 = snd (spend_on_payment d1 p1 now);
          d3 = snd (reward_for_payment d2 p1 now);
          (added, u2, s3) = apply_rewards_for (pf_env P) u1 now (d3, snd s);
          (b, s4) = notify (pf_env P) u2 (if provider p = Some ''manual'' then Granted else Paid) None
                      [(''plan'', PPlan (tier info) (plan_days info) (or_ru (lang u2))),
                       (''date'', PStr (strftime_date (the (subscribed_until u2))))] now s3;
          u3 = close_trial now u2
      in (u3, put_user u3 (fst s4), snd s4))"

definition receipt :: "plan \<Rightarrow> user \<Rightarrow> payment \<Rightarrow> bool \<Rightarrow> outbox \<Rightarrow> outbox" where
  "receipt info u p first out =
     mail_send_later (email u)
       (\<lambda>a. if provider p = Some ''manual''
            then AccessOpen a (tier info) (the (subscribed_until u)) first
            else Receipt a (tier info) (p_amount p) (if p_currency p = [] then ''RUB'' else p_currency p)
                   (the (subscribed_until u)) first) out"

text \<open>
  The device of a first purchase.  \<open>Done (Some ip)\<close> is the address \<open>user.peer_ip\<close> then holds;
  with a paid device already there, nothing is issued and the address stays.
\<close>

definition first_device ::
  "'w platform \<Rightarrow> user \<Rightarrow> (string \<times> string \<times> string) option \<Rightarrow> datetime \<Rightarrow> config_row list \<Rightarrow> db \<Rightarrow> 'w \<Rightarrow>
   string option option outcome \<times> db \<times> 'w"
where
  "first_device P u kp now existing d w =
     (if existing \<noteq> [] then (Done (Some (u_peer_ip u)), d, w)
      else
        let (q, d1, w1) = issue_config P u ''device-1'' ''paid''
                            (default_for_new (pf_loads P) (pf_env P)) kp now d w
        in (case q of
              Raised \<Rightarrow> Raised
            | Done None \<Rightarrow> Done None
            | Done (Some c) \<Rightarrow> Done (Some (Some (c_peer_ip c))), d1, w1))"

definition activate_payment ::
  "'w platform \<Rightarrow> user \<Rightarrow> payment \<Rightarrow> (string \<times> string \<times> string) option \<Rightarrow> datetime \<Rightarrow> session \<Rightarrow> 'w \<Rightarrow>
   bool outcome \<times> session \<times> 'w"
where
  "activate_payment P u p kp now s w =
     (case plan_info (Some (p_plan p)) of
        None \<Rightarrow> (Done False, s, w)
      | Some info \<Rightarrow>
          let held = filter (\<lambda>c. c_user_id c = u_id u \<and> c_is_active c) (configs (fst s));
              existing = filter (\<lambda>c. c_kind c \<noteq> ''trial'') held;
              trial_devices = filter (\<lambda>c. c_kind c = ''trial'') held;
              (issued, d1, w1) = first_device P u kp now existing (fst s) w
          in case issued of
               Raised \<Rightarrow> (Raised, s, w1)
             | Done None \<Rightarrow> (Done False, s, w1)
             | Done (Some ip) \<Rightarrow>
                 let (u1, d2, out2) = settle_payment P info (u\<lparr>u_peer_ip := ip\<rparr>) p now (d1, snd s);
                     (d3, w3) = remove_trial_devices P trial_devices d2 w1
                 in (Done True, (d3, receipt info u1 p (existing = []) out2), w3))"

subsection \<open>Lemmas: addresses\<close>

definition held_ips :: "db \<Rightarrow> string \<Rightarrow> string list" where
  "held_ips d location = map c_peer_ip (filter (\<lambda>c. c_is_active c \<and> c_location c = location) (configs d))"

definition in_pool :: "pool \<Rightarrow> string \<Rightarrow> bool" where
  "in_pool pl ip = (case pl of (pre, start, stop) \<Rightarrow> ip \<in> set (map (pool_ip pre) [start..<Suc stop]))"

lemma find_free_ip_Some:
  assumes "find_free_ip d exclude pl location = Some ip"
  shows "in_pool pl ip" "ip \<notin> set exclude" "ip \<notin> set (held_ips d location)" "ip \<noteq> []"
proof -
  obtain pre start stop where pl: "pl = (pre, start, stop)" by (cases pl)
  let ?used = "map c_peer_ip (filter (\<lambda>c. c_is_active c \<and> c_location c = location \<and> c_peer_ip c \<noteq> []) (configs d))"
  from assms pl have "ip \<in> set (map (pool_ip pre) [start..<Suc stop]) \<and> ip \<notin> set ?used \<and> ip \<notin> set exclude"
    by (auto simp: find_free_ip_def Let_def simp del: upt_Suc dest!: find_SomeD)
  moreover from this show "ip \<noteq> []" by (auto simp: pool_ip_def)
  ultimately show "in_pool pl ip" "ip \<notin> set exclude" "ip \<notin> set (held_ips d location)"
    by (auto simp: pl in_pool_def held_ips_def simp del: upt_Suc)
qed

lemma pool_ip_inject: "pool_ip pre i = pool_ip pre j \<longleftrightarrow> i = j"
  by (simp add: pool_ip_def)

lemma find_free_ip_None:
  assumes "find_free_ip d exclude (pre, start, stop) location = None" and "start \<le> i" "i \<le> stop"
  shows "pool_ip pre i \<in> set (held_ips d location) \<union> set exclude"
proof -
  have "pool_ip pre i \<in> set (map (pool_ip pre) [start..<Suc stop])"
    using assms(2,3) by (auto simp del: upt_Suc)
  with assms(1) show ?thesis
    by (auto simp: find_free_ip_def Let_def find_None_iff_list held_ips_def simp del: upt_Suc)
qed

text \<open>The two pools share no address.\<close>

lemma pools_disjoint: "in_pool CLIENT_POOL ip \<Longrightarrow> \<not> in_pool TRIAL_POOL ip"
  by (auto simp: in_pool_def CLIENT_POOL_def TRIAL_POOL_def pool_ip_def simp del: upt_Suc)

subsection \<open>The portal and a node that keeps its contract\<close>

definition entry_of :: "'w platform \<Rightarrow> string \<Rightarrow> string" where
  "entry_of P location = (if location = DEFAULT then BRIDGE_IP (pf_env P)
     else host (the (get_location (pf_loads P) (pf_env P) location)))"

lemma entry_of_get:
  assumes "get_location (pf_loads P) (pf_env P) k = Some loc"
  shows "entry_of P (loc_key loc) = (if loc_key loc = DEFAULT then BRIDGE_IP (pf_env P) else host loc)"
    and "loc_key loc \<noteq> DEFAULT \<Longrightarrow> host loc \<noteq> []"
proof -
  let ?k = "if k = [] then DEFAULT else k"
  have k: "loc_key loc = ?k" and mem: "loc \<in> set (all_locations (pf_loads P) (pf_env P))"
    using assms by (auto simp: get_location_def Let_def dest: find_SomeD)
  then have "get_location (pf_loads P) (pf_env P) (loc_key loc) = Some loc"
    using assms by (auto simp: get_location_def Let_def DEFAULT_def split: if_splits)
  then show "entry_of P (loc_key loc) = (if loc_key loc = DEFAULT then BRIDGE_IP (pf_env P) else host loc)"
    by (simp add: entry_of_def)
  show "host loc \<noteq> []" if "loc_key loc \<noteq> DEFAULT"
    using mem that
    by (auto simp: all_locations_def germany_def DEFAULT_def netherlands_def Let_def
        split: option.splits if_splits)
qed

text \<open>A table of the nodes' peers with one more device.\<close>

definition with_peer ::
  "string \<Rightarrow> string \<Rightarrow> string \<Rightarrow> (string \<Rightarrow> string \<Rightarrow> string list option) \<Rightarrow> string \<Rightarrow> string \<Rightarrow> string list option"
where
  "with_peer h pub ip T = T(h := (T h)(pub \<mapsto> [ip @ ''/32'']))"

lemma loc_key_germany: "loc_key (germany e) = DEFAULT"
  by (simp add: germany_def DEFAULT_def)

locale provisioning = entry_node "pf_ssh P" peers
  for P :: "'w platform" and peers :: "'w \<Rightarrow> string \<Rightarrow> string \<Rightarrow> string list option"
begin

lemma bridge_ok:
  assumes "ssh_bridge P h cmd w = (r, w')"
  shows "\<exists>raw. pf_ssh P (if h = [] then BRIDGE_IP (pf_env P) else h) cmd w = (raw, w') \<and>
     (raw = None \<longleftrightarrow> r = None) \<and> (\<forall>out err. r = Some (out, err) \<longrightarrow> (startswith out ''ok:'' \<longleftrightarrow> said_ok raw))"
proof -
  obtain raw w1 where raw: "pf_ssh P (if h = [] then BRIDGE_IP (pf_env P) else h) cmd w = (raw, w1)" by force
  then have r: "r = map_option (\<lambda>(out, err). (strip out, strip err)) raw" "w1 = w'"
    using assms by (simp_all add: ssh_bridge_def)
  show ?thesis using raw r by (cases raw) (auto simp: said_ok_def)
qed

lemma used_ips_keeps:
  assumes "entry_used_ips P h w = (ips, w')"
  shows "peers w' = peers w"
proof -
  obtain r w1 where q: "ssh_bridge P h ''sudo pwa-awg-show'' w = (r, w1)" by force
  then have "w1 = w'" using assms by (cases r) (auto simp: entry_used_ips_def)
  with bridge_ok [OF q] show_keeps show ?thesis by blast
qed

lemma add_peer_at_spec:
  assumes "add_peer_at P h pub psk ip name w = (r, w')" and "h \<noteq> [] \<or> h = BRIDGE_IP (pf_env P)"
  shows "r = Done (True, why) \<Longrightarrow> peers w h pub = None \<and>
      peers w' = (peers w)(h := (peers w h)(pub \<mapsto> [ip @ ''/32'']))"
    and "r = Done (False, why) \<Longrightarrow> peers w' = peers w"
    and "r = Raised \<Longrightarrow> peers w' = peers w \<or> peers w' = (peers w)(h := (peers w h)(pub \<mapsto> [ip @ ''/32'']))"
proof -
  have h: "(if h = [] then BRIDGE_IP (pf_env P) else h) = h" using assms(2) by auto
  obtain q where q: "ssh_bridge P h (add_command pub psk ip name) w = (q, w')"
    using assms(1) by (auto simp: add_peer_at_def Let_def split: prod.splits option.splits if_splits)
  from bridge_ok [OF this] obtain raw where
    raw: "pf_ssh P h (add_command pub psk ip name) w = (raw, w')" "raw = None \<longleftrightarrow> q = None"
      "\<And>out err. q = Some (out, err) \<Longrightarrow> startswith out ''ok:'' \<longleftrightarrow> said_ok raw"
    unfolding h by blast
  note r = assms(1) [unfolded add_peer_at_def q Let_def]
  show "r = Done (True, why) \<Longrightarrow> peers w h pub = None \<and>
      peers w' = (peers w)(h := (peers w h)(pub \<mapsto> [ip @ ''/32'']))"
    using r raw add_ok [OF raw(1)] by (auto split: option.splits if_splits)
  show "r = Done (False, why) \<Longrightarrow> peers w' = peers w"
    using r raw add_refused [of h pub psk ip name w] by (auto split: option.splits if_splits)
  show "r = Raised \<Longrightarrow> peers w' = peers w \<or> peers w' = (peers w)(h := (peers w h)(pub \<mapsto> [ip @ ''/32'']))"
    using r raw add_unanswered [of h pub psk ip name w] by (auto split: option.splits if_splits)
qed

lemma remove_peer_at_spec:
  assumes "remove_peer_at P h pub w = (r, w')" and "h \<noteq> [] \<or> h = BRIDGE_IP (pf_env P)"
  shows "r = Done (True, why) \<Longrightarrow> peers w' = (peers w)(h := (peers w h)(pub := None))"
    and "r = Done (False, why) \<Longrightarrow> peers w' = peers w"
    and "r = Raised \<Longrightarrow> peers w' = peers w \<or> peers w' = (peers w)(h := (peers w h)(pub := None))"
proof -
  have h: "(if h = [] then BRIDGE_IP (pf_env P) else h) = h" using assms(2) by auto
  obtain q where q: "ssh_bridge P h (del_command pub) w = (q, w')"
    using assms(1) by (auto simp: remove_peer_at_def Let_def split: prod.splits option.splits if_splits)
  from bridge_ok [OF this] obtain raw where
    raw: "pf_ssh P h (del_command pub) w = (raw, w')" "raw = None \<longleftrightarrow> q = None"
      "\<And>out err. q = Some (out, err) \<Longrightarrow> startswith out ''ok:'' \<longleftrightarrow> said_ok raw"
    unfolding h by blast
  note r = assms(1) [unfolded remove_peer_at_def q Let_def]
  show "r = Done (True, why) \<Longrightarrow> peers w' = (peers w)(h := (peers w h)(pub := None))"
    using r raw del_ok [OF raw(1)] by (auto split: option.splits if_splits)
  show "r = Done (False, why) \<Longrightarrow> peers w' = peers w"
    using r raw del_refused [of h pub w] by (auto split: option.splits if_splits)
  show "r = Raised \<Longrightarrow> peers w' = peers w \<or> peers w' = (peers w)(h := (peers w h)(pub := None))"
    using r raw del_unanswered [of h pub w] by (auto split: option.splits if_splits)
qed

lemma issue_tries_spec:
  assumes "issue_tries n P d loc pl pub psk name tried w = (r, w')"
    and "get_location (pf_loads P) (pf_env P) key = Some loc"
  shows "(case r of
      Done None \<Rightarrow> peers w' = peers w
    | Done (Some ip) \<Rightarrow> in_pool pl ip \<and> ip \<notin> set tried \<and> ip \<notin> set (held_ips d (loc_key loc)) \<and>
        peers w (entry_of P (loc_key loc)) pub = None \<and>
        peers w' = with_peer (entry_of P (loc_key loc)) pub ip (peers w)
    | Raised \<Rightarrow> peers w' = peers w \<or> (\<exists>ip. peers w' = with_peer (entry_of P (loc_key loc)) pub ip (peers w)))"
  using assms(1)
proof (induction n arbitrary: tried w)
  case 0
  then show ?case by auto
next
  case (Suc n)
  let ?h = "entry_of P (loc_key loc)"
  show ?case
  proof (cases "find_free_ip d tried pl (loc_key loc)")
    case None
    with Suc.prems show ?thesis by auto
  next
    case (Some ip)
    note free = find_free_ip_Some [OF Some]
    have add: "(if loc_key loc = DEFAULT then add_peer_to_bridge P pub psk ip name w
        else add_peer_at P (host loc) pub psk ip name w) = add_peer_at P ?h pub psk ip name w"
      using entry_of_get(1) [OF assms(2)] by (simp add: add_peer_to_bridge_def)
    have h: "?h \<noteq> [] \<or> ?h = BRIDGE_IP (pf_env P)"
      using entry_of_get [OF assms(2)] by auto
    obtain q w1 where q: "add_peer_at P ?h pub psk ip name w = (q, w1)" by force
    note spec = add_peer_at_spec [OF q h]
    show ?thesis
    proof (cases q)
      case Raised
      then have "r = Raised" "w' = w1" using Suc.prems Some add q by simp_all
      with Raised spec(3) show ?thesis by (auto simp: with_peer_def)
    next
      case (Done x)
      obtain ok why where x: "x = (ok, why)" by force
      show ?thesis
      proof (cases ok)
        case True
        then have "r = Done (Some ip)" "w' = w1" using Suc.prems Some add q Done x by simp_all
        with spec(1) [of why] Done x True free show ?thesis by (simp add: with_peer_def)
      next
        case False
        with Done x have same: "peers w1 = peers w" using spec(2) [of why] by simp
        show ?thesis
        proof (cases "contains why ''ip in use''")
          case True
          then have "issue_tries n P d loc pl pub psk name (ip # tried) w1 = (r, w')"
            using Suc.prems Some add q Done x False by simp
          from Suc.IH [OF this] same show ?thesis
            by (auto simp: with_peer_def split: outcome.splits option.splits)
        next
          case nf: False
          then have "r = Done None" "w' = w1" using Suc.prems Some add q Done x False by simp_all
          with same show ?thesis by simp
        qed
      qed
    qed
  qed
qed

lemma issue_config_spec:
  assumes "issue_config P u name kind location kp now d w = (r, d', w')"
  shows "(case r of
      Done None \<Rightarrow> d' = d \<and> peers w' = peers w
    | Raised \<Rightarrow> d' = d \<and> (peers w' = peers w \<or>
        (\<exists>h pub ip. map_option (fst \<circ> snd) kp = Some pub \<and> peers w' = with_peer h pub ip (peers w)))
    | Done (Some c) \<Rightarrow>
        in_pool (pool_of kind) (c_peer_ip c) \<and> c_peer_ip c \<notin> set (held_ips d (c_location c)) \<and>
        peers w (entry_of P (c_location c)) (public_key c) = None \<and>
        peers w' = with_peer (entry_of P (c_location c)) (public_key c) (c_peer_ip c) (peers w) \<and>
        d' = (snd (new_uuid d))\<lparr>configs := configs d @ [c]\<rparr> \<and>
        c_is_active c \<and> c_user_id c = u_id u \<and> c_kind c = kind \<and> c_name c = name \<and> c_location c \<noteq> [] \<and>
        c_id c = uuid_tape d (uuid_pos d) \<and>
        (\<exists>loc priv psk. kp = Some (priv, public_key c, psk) \<and>
           private_key c = pf_encrypt P priv \<and> preshared_key c = pf_encrypt P psk \<and>
           get_location (pf_loads P) (pf_env P) (if kind = ''trial'' then DEFAULT else location) = Some loc \<and>
           c_location c = loc_key loc))"
proof (cases "get_location (pf_loads P) (pf_env P) (if kind = ''trial'' then DEFAULT else location)")
  case None
  with assms show ?thesis by (auto simp: issue_config_def)
next
  case loc: (Some loc)
  show ?thesis
  proof (cases kp)
    case None
    with assms loc show ?thesis by (auto simp: issue_config_def)
  next
    case (Some k)
    obtain priv pub psk where k: "k = (priv, pub, psk)" by (cases k)
    obtain tried w1 where tried: "(if loc_key loc = DEFAULT then bridge_used_ips P w
        else entry_used_ips P (host loc) w) = (tried, w1)" by force
    then have same: "peers w1 = peers w"
      using used_ips_keeps by (auto simp: bridge_used_ips_def split: if_splits)
    obtain q w2 where q: "issue_tries 10 P d loc (pool_of kind) pub psk
        (client_name_of kind (username u)) tried w1 = (q, w2)" by force
    note spec = issue_tries_spec [OF q loc]
    have ne: "loc_key loc \<noteq> []"
      using loc by (auto simp: get_location_def Let_def DEFAULT_def split: if_splits dest!: find_SomeD)
    note run = assms [unfolded issue_config_def loc Some k option.case prod.case tried Let_def q]
    show ?thesis
    proof (cases q)
      case Raised
      with run have "r = Raised" "d' = d" "w' = w2" by simp_all
      with Raised spec same show ?thesis
        by (auto simp: with_peer_def Some k)
    next
      case (Done x)
      show ?thesis
      proof (cases x)
        case None
        with run Done have "r = Done None" "d' = d" "w' = w2" by simp_all
        with Done None spec same show ?thesis by simp
      next
        case ip: (Some ip)
        define c where "c = \<lparr>c_id = uuid_tape d (uuid_pos d), c_user_id = u_id u, c_name = name, c_peer_ip = ip,
             c_kind = kind, c_location = loc_key loc, private_key = pf_encrypt P priv, public_key = pub,
             preshared_key = pf_encrypt P psk, c_is_active = True, c_created_at = now\<rparr>"
        have rr: "r = Done (Some c)" "d' = (snd (new_uuid d))\<lparr>configs := configs d @ [c]\<rparr>" "w' = w2"
          using run Done ip by (simp_all add: new_uuid_def c_def)
        have "in_pool (pool_of kind) ip" "ip \<notin> set (held_ips d (loc_key loc))"
          "peers w (entry_of P (loc_key loc)) pub = None"
          "peers w' = with_peer (entry_of P (loc_key loc)) pub ip (peers w)"
          using spec Done ip same rr(3) by (simp_all add: with_peer_def)
        then show ?thesis
          unfolding rr using ne loc Some k by (simp add: c_def)
      qed
    qed
  qed
qed

lemma remove_peer_for_spec:
  assumes "remove_peer_for P c w = (r, w')"
  defines "h \<equiv> entry_of P (location_or_default c)"
  shows "r = Done (True, why) \<Longrightarrow> peers w' = (peers w)(h := (peers w h)(public_key c := None))"
    and "r = Done (False, why) \<Longrightarrow> peers w' = peers w"
    and "r = Raised \<Longrightarrow> peers w' = peers w \<or> peers w' = (peers w)(h := (peers w h)(public_key c := None))"
proof -
  let ?k = "location_or_default c"
  have ne: "?k \<noteq> []" by (simp add: location_or_default_def DEFAULT_def)
  have "(\<exists>m. r = Done (False, m)) \<and> w' = w \<or>
      remove_peer_at P h (public_key c) w = (r, w') \<and> (h \<noteq> [] \<or> h = BRIDGE_IP (pf_env P))"
  proof (cases "?k = DEFAULT")
    case True
    with assms show ?thesis
      by (simp add: remove_peer_for_def remove_peer_from_bridge_def entry_of_def)
  next
    case False
    show ?thesis
    proof (cases "get_location (pf_loads P) (pf_env P) ?k")
      case None
      with False assms show ?thesis by (auto simp: remove_peer_for_def)
    next
      case (Some loc)
      have "loc_key loc = ?k" using get_location_key [OF Some ne] .
      with False Some assms entry_of_get [OF Some] show ?thesis
        by (auto simp: remove_peer_for_def)
    qed
  qed
  then show "r = Done (True, why) \<Longrightarrow> peers w' = (peers w)(h := (peers w h)(public_key c := None))"
    and "r = Done (False, why) \<Longrightarrow> peers w' = peers w"
    and "r = Raised \<Longrightarrow> peers w' = peers w \<or> peers w' = (peers w)(h := (peers w h)(public_key c := None))"
    using remove_peer_at_spec by auto
qed

end

sublocale awg_tool \<subseteq> portal: provisioning "P\<lparr>pf_ssh := node_ssh A net\<rparr>" "peers_on A" for P net
  by (simp add: provisioning_def wrappers.entry_node_axioms)

subsection \<open>Lemmas: settling a payment\<close>

text \<open>No identifier still to be given is that of a stored reward.\<close>

definition fresh_ids :: "db \<Rightarrow> bool" where
  "fresh_ids d = (\<forall>i\<ge>uuid_pos d. uuid_tape d i \<notin> rr_id ` set (referral_rewards d))"

definition paid_until :: "plan \<Rightarrow> user \<Rightarrow> datetime \<Rightarrow> datetime" where
  "paid_until info u now =
     max now (case subscribed_until u of None \<Rightarrow> now | Some t \<Rightarrow> t) + days (plan_days info)"

definition subscribe :: "plan \<Rightarrow> string \<Rightarrow> datetime \<Rightarrow> user \<Rightarrow> user" where
  "subscribe info k now u =
     u\<lparr>is_subscribed := True, u_plan := Some k, subscribed_until := Some (paid_until info u now)\<rparr>"

definition mark_paid :: "datetime \<Rightarrow> payment \<Rightarrow> payment" where
  "mark_paid now p = p\<lparr>p_status := ''paid'', paid_at := Some now\<rparr>"

lemma subscribe_simps [simp]: "u_id (subscribe info k now u) = u_id u"
  "subscribed_until (subscribe info k now u) = Some (paid_until info u now)"
  "is_subscribed (subscribe info k now u)"
  by (simp_all add: subscribe_def)

lemma close_trial_simps [simp]: "u_id (close_trial now u) = u_id u"
  "subscribed_until (close_trial now u) = subscribed_until u" "is_subscribed (close_trial now u) = is_subscribed u"
  "u_plan (close_trial now u) = u_plan u"
  by (auto simp: close_trial_def split: option.splits)

lemma subscribed_subscribe: "0 < plan_days info \<Longrightarrow> subscribed (subscribe info k now u) now"
proof -
  assume "0 < plan_days info"
  then have "0 < days (plan_days info)" by simp
  then have "now < paid_until info u now" unfolding paid_until_def by linarith
  then show ?thesis by (simp add: subscribed_def)
qed

lemma spend_mark_paid [simp]:
  "credit_entries (snd (spend_on_payment (put_payment q (put_user u d)) (mark_paid now p) t)) =
   credit_entries (snd (spend_on_payment d p t))"
  by (simp add: spend_on_payment_def mark_paid_def new_uuid_def Let_def)

lemma settle_payment_spec:
  assumes "settle_payment P info u p now (d, out) = (u', d', out')"
    and "0 < plan_days info" and "reward_keys d" and "fresh_ids d"
    and "u0 \<in> set (users d)" and "u_id u0 = u_id u" and "p_user_id p = u_id u"
  shows "u' = close_trial now (extend_by (due_days d (u_id u) now) (subscribe info (p_plan p) now u))"
    and "users d' = users (put_user u' d)"
    and "payments d' = payments (put_payment (mark_paid now p) d)"
    and "configs d' = configs d"
    and "credit_entries d' = credit_entries (snd (spend_on_payment d p now))"
    and "feed_unique d \<longrightarrow> feed_unique d'"
proof -
  define u1 where "u1 = subscribe info (p_plan p) now u"
  define d1 where "d1 = put_payment (mark_paid now p) (put_user u1 d)"
  define d2 where "d2 = snd (spend_on_payment d1 (mark_paid now p) now)"
  define d3 where "d3 = snd (reward_for_payment d2 (mark_paid now p) now)"
  obtain n u2 d4 out4 where app: "apply_rewards_for (pf_env P) u1 now (d3, out) = (n, u2, d4, out4)"
    by (metis prod_cases4)
  obtain b d5 out5 where nt: "notify (pf_env P) u2 (if provider p = Some ''manual'' then Granted else Paid) None
      [(''plan'', PPlan (tier info) (plan_days info) (or_ru (lang u2))),
       (''date'', PStr (strftime_date (the (subscribed_until u2))))] now (d4, out4) = (b, d5, out5)"
    by (metis prod_cases3)
  have res: "u' = close_trial now u2" "d' = put_user (close_trial now u2) d5"
    using assms(1) app nt
    by (auto simp: settle_payment_def Let_def u1_def d1_def d2_def d3_def subscribe_def paid_until_def mark_paid_def)
  have us3: "users d3 = users (put_user u1 d)" by (simp add: d3_def d2_def d1_def)
  have idu: "u_id u1 = u_id u" by (simp add: u1_def)
  have rr2: "referral_rewards d2 = referral_rewards d" "uuid_tape d2 = uuid_tape d" "uuid_pos d \<le> uuid_pos d2"
    using spend_on_payment_frame(9) [of d1] by (simp_all add: d2_def d1_def)
  from reward_for_payment_rows [of d2 "mark_paid now p" now] have
    rr3: "referral_rewards d3 = referral_rewards d \<or> (\<exists>r. referral_rewards d3 = referral_rewards d @ [r] \<and>
      rr_id r = uuid_tape d (uuid_pos d2) \<and> referrer_user_id r \<noteq> u_id u)"
    using assms(7) by (simp add: d3_def rr2 mark_paid_def)
  have keys3: "reward_keys d3"
    using rr3 assms(3,4) rr2(3) us3 by (auto simp: reward_keys_def fresh_ids_def)
  have "due_rewards d3 (u_id u) now = due_rewards d (u_id u) now"
    using rr3 by (auto simp: due_rewards_def)
  then have due: "due_days d3 (u_id u) now = due_days d (u_id u) now" by (simp add: due_days_def)
  have u1in: "u1 \<in> set (users d3)"
    unfolding us3 using assms(5,6) idu in_users_put_user [of u0 d u1] by simp
  note spec = apply_rewards_for_spec [OF app keys3 u1in]
  have u2: "u2 = extend_by (due_days d (u_id u) now) u1"
    using spec(2) due subscribed_subscribe [OF assms(2)] idu by (simp add: rewarded_def u1_def)
  then show "u' = close_trial now (extend_by (due_days d (u_id u) now) (subscribe info (p_plan p) now u))"
    by (simp add: res u1_def)
  have ids: "u_id u' = u_id u" "u_id u2 = u_id u" using u2 idu by (simp_all add: res)
  note nsame = notify_same_but_feed [OF nt, unfolded same_but_feed_def]
  note asame = spec(6) [unfolded same_but_feed_def]
  have us5: "users d5 = users (put_user u2 (put_user u1 d))"
    using nsame spec(3) us3 by (simp add: put_user_def)
  show "users d' = users (put_user u' d)"
  proof -
    have "users d' = users (put_user u' (put_user u2 (put_user u1 d)))"
      unfolding res(2) res(1) [symmetric] using us5 by (simp add: put_user_def)
    then show ?thesis using ids idu by simp
  qed
  show "payments d' = payments (put_payment (mark_paid now p) d)"
    using nsame asame by (simp add: res d3_def d2_def d1_def put_payment_def)
  show "configs d' = configs d"
    using nsame asame by (simp add: res d3_def d2_def d1_def)
  show "credit_entries d' = credit_entries (snd (spend_on_payment d p now))"
    using nsame asame by (simp add: res d3_def d2_def d1_def)
  show "feed_unique d \<longrightarrow> feed_unique d'"
    using spec(7) notify_unique [OF _ nt] by (simp add: res d3_def d2_def d1_def feed_unique_def)
qed

lemma remove_trial_devices_configs:
  "\<exists>cs'. fst (remove_trial_devices P cs d w) = d\<lparr>configs := cs'\<rparr>"
proof (induction cs arbitrary: d w)
  case Nil
  have "fst (remove_trial_devices P [] d w) = d\<lparr>configs := configs d\<rparr>" by simp
  then show ?case by blast
next
  case (Cons c cs)
  obtain r w1 where r: "remove_peer_from_bridge P (public_key c) w = (r, w1)" by force
  show ?case
  proof (cases "\<exists>why. r = Done (True, why)")
    case True
    with r Cons [of "put_config (c\<lparr>c_is_active := False\<rparr>) d" w1] show ?thesis
      by (auto simp: put_config_def)
  next
    case False
    with r have "remove_trial_devices P (c # cs) d w = remove_trial_devices P cs d w1"
      by (auto split: outcome.splits bool.splits prod.splits)
    with Cons [of d w1] show ?thesis by simp
  qed
qed

lemma remove_trial_devices_frame:
  assumes "remove_trial_devices P cs d w = (d', w')"
  shows "users d' = users d" "payments d' = payments d" "credit_entries d' = credit_entries d"
    "referral_rewards d' = referral_rewards d" "notifications d' = notifications d"
    "promo_codes d' = promo_codes d" "trial_grants d' = trial_grants d"
  using remove_trial_devices_configs [of P cs d w] assms by auto

subsection \<open>Lemmas: revoked devices\<close>

text \<open>
  \<open>revoked_off P T d\<close>: no peer of the nodes' table \<open>T\<close> belongs to a device the database
  calls revoked.  \<open>device_rows\<close> is what the rows themselves keep: distinct identifiers, and
  trial devices in the default location.
\<close>

definition revoked_off :: "'w platform \<Rightarrow> (string \<Rightarrow> string \<Rightarrow> string list option) \<Rightarrow> db \<Rightarrow> bool" where
  "revoked_off P T d =
     list_all (\<lambda>c. c_is_active c \<or> T (entry_of P (location_or_default c)) (public_key c) = None) (configs d)"

definition device_rows :: "db \<Rightarrow> bool" where
  "device_rows d =
     (distinct (map c_id (configs d)) \<and>
      list_all (\<lambda>c. c_kind c = ''trial'' \<longrightarrow> location_or_default c = DEFAULT) (configs d))"

definition new_key :: "(string \<times> string \<times> string) option \<Rightarrow> db \<Rightarrow> bool" where
  "new_key kp d = (case kp of None \<Rightarrow> True | Some (_, pub, _) \<Rightarrow> pub \<notin> public_key ` set (configs d))"

lemma revoked_off_mono:
  "revoked_off P T d \<Longrightarrow> (\<And>h k. T h k = None \<Longrightarrow> T' h k = None) \<Longrightarrow> revoked_off P T' d"
  by (auto simp: revoked_off_def list_all_iff)

lemma revoked_off_same_configs: "configs d' = configs d \<Longrightarrow> revoked_off P T d' = revoked_off P T d"
  by (simp add: revoked_off_def)

lemma device_rows_same_configs: "configs d' = configs d \<Longrightarrow> device_rows d' = device_rows d"
  by (simp add: device_rows_def)

lemma revoked_off_with_peer:
  "revoked_off P T d \<Longrightarrow> pub \<notin> public_key ` set (configs d) \<Longrightarrow> revoked_off P (with_peer h pub ip T) d"
  by (auto simp: revoked_off_def list_all_iff with_peer_def image_iff)

lemma device_rows_revoke:
  "device_rows d \<Longrightarrow> c \<in> set (configs d) \<Longrightarrow> device_rows (put_config (c\<lparr>c_is_active := False\<rparr>) d)"
  by (auto simp: device_rows_def put_config_def list_all_iff map_update_where set_update_where
      location_or_default_def)

context provisioning
begin

lemma revoke_step:
  assumes "remove_peer_for P c w = (Done (True, why), w')" and "revoked_off P (peers w) d"
    and "c \<in> set (configs d)" and "device_rows d"
  shows "revoked_off P (peers w') (put_config (c\<lparr>c_is_active := False\<rparr>) d)"
proof -
  have p: "peers w' = (peers w)(entry_of P (location_or_default c) :=
      (peers w (entry_of P (location_or_default c)))(public_key c := None))"
    using remove_peer_for_spec(1) [OF assms(1)] by simp
  have "c_is_active x \<or> peers w' (entry_of P (location_or_default x)) (public_key x) = None"
    if x: "x \<in> set (configs (put_config (c\<lparr>c_is_active := False\<rparr>) d))" for x
  proof -
    from x consider "x = c\<lparr>c_is_active := False\<rparr>" | "x \<in> set (configs d)"
      by (auto simp: put_config_def set_update_where split: if_splits)
    then show ?thesis
    proof cases
      case 1
      then show ?thesis by (simp add: p location_or_default_def)
    next
      case 2
      with assms(2) show ?thesis by (auto simp: revoked_off_def list_all_iff p)
    qed
  qed
  then show ?thesis by (simp add: revoked_off_def list_all_iff)
qed

lemma remove_cases:
  assumes "remove_peer_for P c w = (r, w')"
  defines "h \<equiv> entry_of P (location_or_default c)"
  shows "peers w' = peers w \<or> peers w' = (peers w)(h := (peers w h)(public_key c := None))"
proof (cases r)
  case Raised
  with remove_peer_for_spec(3) [OF assms(1)] show ?thesis by (simp add: h_def)
next
  case (Done x)
  obtain ok why where x: "x = (ok, why)" by force
  with Done remove_peer_for_spec(1,2) [OF assms(1), of why] show ?thesis
    by (cases ok) (simp_all add: h_def)
qed

lemma remove_never_adds:
  "remove_peer_for P c w = (r, w') \<Longrightarrow> peers w h k = None \<Longrightarrow> peers w' h k = None"
  by (drule remove_cases) auto

lemma remove_keeps_revoked:
  "remove_peer_for P c w = (r, w') \<Longrightarrow> revoked_off P (peers w) d \<Longrightarrow> revoked_off P (peers w') d"
  by (erule revoked_off_mono) (rule remove_never_adds)

lemma remove_trial_devices_revoked:
  assumes "remove_trial_devices P cs d w = (d', w')" and "revoked_off P (peers w) d" and "device_rows d"
    and "set cs \<subseteq> set (configs d)" and "distinct (map c_id cs)" and "\<forall>c\<in>set cs. c_kind c = ''trial''"
  shows "revoked_off P (peers w') d' \<and> device_rows d'"
  using assms
proof (induction cs arbitrary: d w)
  case (Cons c cs)
  have "location_or_default c = DEFAULT"
    using Cons.prems(3,4,6) by (auto simp: device_rows_def list_all_iff)
  then have eq: "remove_peer_from_bridge P (public_key c) w = remove_peer_for P c w"
    by (simp add: remove_peer_for_def)
  obtain r w1 where r: "remove_peer_for P c w = (r, w1)" by force
  let ?d = "put_config (c\<lparr>c_is_active := False\<rparr>) d"
  show ?case
  proof (cases "\<exists>why. r = Done (True, why)")
    case True
    then obtain why where why: "r = Done (True, why)" ..
    then have rest: "remove_trial_devices P cs ?d w1 = (d', w')" using Cons.prems(1) r eq by simp
    have c: "c \<in> set (configs d)" using Cons.prems(4) by simp
    have sub: "set cs \<subseteq> set (configs ?d)"
    proof
      fix x assume x: "x \<in> set cs"
      then have "c_id x \<in> set (map c_id cs)" by simp
      then have "c_id x \<noteq> c_id c" using Cons.prems(5) by auto
      with x Cons.prems(4) show "x \<in> set (configs ?d)"
        by (auto simp: put_config_def set_update_where intro: rev_image_eqI)
    qed
    have "revoked_off P (peers w1) ?d" using revoke_step [OF _ Cons.prems(2) c Cons.prems(3)] r why by blast
    from Cons.IH [OF rest this device_rows_revoke [OF Cons.prems(3) c] sub] Cons.prems(5,6) show ?thesis
      by simp
  next
    case False
    then have rest: "remove_trial_devices P cs d w1 = (d', w')"
      using Cons.prems(1) r eq by (auto split: outcome.splits bool.splits prod.splits)
    have "revoked_off P (peers w1) d" using remove_keeps_revoked [OF r Cons.prems(2)] .
    from Cons.IH [OF rest this Cons.prems(3)] Cons.prems(4-6) show ?thesis by simp
  qed
qed simp

lemma issue_config_revoked:
  assumes "issue_config P u name kind location kp now d w = (r, d', w')"
    and "revoked_off P (peers w) d" and "new_key kp d"
  shows "revoked_off P (peers w') d'" and "revoked_off P (peers w') d"
proof -
  note spec = issue_config_spec [OF assms(1)]
  have add: "revoked_off P (with_peer h pub ip (peers w)) d" if "map_option (fst \<circ> snd) kp = Some pub" for h pub ip
    using that assms(2,3) by (intro revoked_off_with_peer) (auto simp: new_key_def)
  have "revoked_off P (peers w') d' \<and> revoked_off P (peers w') d"
  proof (cases r)
    case Raised
    with spec assms(2) add show ?thesis by auto
  next
    case (Done x)
    show ?thesis
    proof (cases x)
      case None
      with spec Done assms(2) show ?thesis by simp
    next
      case (Some c)
      with spec Done have d': "configs d' = configs d @ [c]" "c_is_active c"
        and p: "peers w' = with_peer (entry_of P (c_location c)) (public_key c) (c_peer_ip c) (peers w)"
        and k: "map_option (fst \<circ> snd) kp = Some (public_key c)"
        by auto
      from add [OF k] show ?thesis by (simp add: revoked_off_def d' p)
    qed
  qed
  then show "revoked_off P (peers w') d'" and "revoked_off P (peers w') d" by simp_all
qed

lemma issue_config_rows:
  assumes "issue_config P u name kind location kp now d w = (r, d', w')" and "device_rows d"
    and "uuid_tape d (uuid_pos d) \<notin> c_id ` set (configs d)"
  shows "device_rows d'" "users d' = users d" "payments d' = payments d" "credit_entries d' = credit_entries d"
    "referral_rewards d' = referral_rewards d" "uuid_tape d' = uuid_tape d" "uuid_pos d \<le> uuid_pos d'"
    "notifications d' = notifications d" "trial_grants d' = trial_grants d" "promo_codes d' = promo_codes d"
proof -
  note spec = issue_config_spec [OF assms(1)]
  have "d' = d \<or> (\<exists>c. d' = (snd (new_uuid d))\<lparr>configs := configs d @ [c]\<rparr> \<and> c_id c = uuid_tape d (uuid_pos d) \<and>
      (c_kind c = ''trial'' \<longrightarrow> location_or_default c = DEFAULT))"
  proof (cases r)
    case (Done x)
    show ?thesis
    proof (cases x)
      case (Some c)
      with spec Done have c: "d' = (snd (new_uuid d))\<lparr>configs := configs d @ [c]\<rparr>" "c_id c = uuid_tape d (uuid_pos d)"
        "c_kind c = kind" and loc: "\<exists>loc. get_location (pf_loads P) (pf_env P)
            (if kind = ''trial'' then DEFAULT else location) = Some loc \<and> c_location c = loc_key loc"
        by auto
      have "c_location c = DEFAULT" if "kind = ''trial''"
        using loc that loc_key_germany by auto
      with c show ?thesis by (auto simp: location_or_default_def)
    qed (use spec Done in simp)
  qed (use spec in simp)
  then show "device_rows d'" "users d' = users d" "payments d' = payments d" "credit_entries d' = credit_entries d"
    "referral_rewards d' = referral_rewards d" "uuid_tape d' = uuid_tape d" "uuid_pos d \<le> uuid_pos d'"
    "notifications d' = notifications d" "trial_grants d' = trial_grants d" "promo_codes d' = promo_codes d"
    using assms(2,3) by (auto simp: device_rows_def new_uuid_def)
qed

end

text \<open>An activation that succeeds: the device issued or not, the settled state, the trial peers.\<close>

lemma activate_payment_cases:
  assumes "activate_payment P u p kp now (d, out) w = (r, (d', out'), w')"
  obtains (no_plan) "plan_info (Some (p_plan p)) = None" "r = Done False" "d' = d" "out' = out" "w' = w"
  | (no_device) info d1 q where "plan_info (Some (p_plan p)) = Some info"
      "issue_config P u ''device-1'' ''paid'' (default_for_new (pf_loads P) (pf_env P)) kp now d w = (q, d1, w')"
      "q = Raised \<and> r = Raised \<or> q = Done None \<and> r = Done False" "d' = d" "out' = out"
      "\<forall>c\<in>set (configs d). c_user_id c = u_id u \<and> c_is_active c \<longrightarrow> c_kind c = ''trial''"
  | (paid) info ip d1 w1 u' d2 out2 where "plan_info (Some (p_plan p)) = Some info"
      "d1 = d \<and> w1 = w \<and> ip = u_peer_ip u \<and>
         (\<exists>c\<in>set (configs d). c_user_id c = u_id u \<and> c_is_active c \<and> c_kind c \<noteq> ''trial'') \<or>
       (\<exists>c. issue_config P u ''device-1'' ''paid'' (default_for_new (pf_loads P) (pf_env P)) kp now d w =
            (Done (Some c), d1, w1) \<and> ip = Some (c_peer_ip c)) \<and>
         (\<forall>c\<in>set (configs d). c_user_id c = u_id u \<and> c_is_active c \<longrightarrow> c_kind c = ''trial'')"
      "settle_payment P info (u\<lparr>u_peer_ip := ip\<rparr>) p now (d1, out) = (u', d2, out2)"
      "remove_trial_devices P (filter (\<lambda>c. c_kind c = ''trial'')
         (filter (\<lambda>c. c_user_id c = u_id u \<and> c_is_active c) (configs d))) d2 w1 = (d', w')"
      "r = Done True"
proof (cases "plan_info (Some (p_plan p))")
  case None
  with assms no_plan show ?thesis by (simp add: activate_payment_def)
next
  case info: (Some info)
  let ?held = "filter (\<lambda>c. c_user_id c = u_id u \<and> c_is_active c) (configs d)"
  let ?ex = "filter (\<lambda>c. c_kind c \<noteq> ''trial'') ?held"
  let ?tr = "filter (\<lambda>c. c_kind c = ''trial'') ?held"
  have all_trial: "\<forall>c\<in>set (configs d). c_user_id c = u_id u \<and> c_is_active c \<longrightarrow> c_kind c = ''trial''"
    if "?ex = []" using that by (auto simp: filter_empty_conv)
  have some: "\<exists>c\<in>set (configs d). c_user_id c = u_id u \<and> c_is_active c \<and> c_kind c \<noteq> ''trial''"
    if "?ex \<noteq> []" using that by (auto simp: filter_empty_conv)
  obtain i d1 w1 where i: "first_device P u kp now ?ex d w = (i, d1, w1)"
    by (rule prod_cases3 [of "first_device P u kp now ?ex d w"])
  note run = assms [unfolded activate_payment_def info option.case Let_def fst_conv snd_conv i prod.case]
  have "from": "?ex \<noteq> [] \<and> i = Done (Some (u_peer_ip u)) \<and> d1 = d \<and> w1 = w \<or>
      ?ex = [] \<and> (\<exists>q. issue_config P u ''device-1'' ''paid'' (default_for_new (pf_loads P) (pf_env P)) kp now d w
          = (q, d1, w1) \<and> (q = Raised \<and> i = Raised \<or> q = Done None \<and> i = Done None \<or>
            (\<exists>c. q = Done (Some c) \<and> i = Done (Some (Some (c_peer_ip c))))))"
  proof (cases "?ex = []")
    case True
    obtain q d0 w0 where q: "issue_config P u ''device-1'' ''paid''
        (default_for_new (pf_loads P) (pf_env P)) kp now d w = (q, d0, w0)" by (metis prod_cases3)
    have "d0 = d1" "w0 = w1" and "q = Raised \<and> i = Raised \<or> q = Done None \<and> i = Done None \<or>
        (\<exists>c. q = Done (Some c) \<and> i = Done (Some (Some (c_peer_ip c))))"
      using i q unfolding first_device_def True
      by (auto split: outcome.splits option.splits)
    with q True show ?thesis by blast
  next
    case False
    with i show ?thesis by (simp add: first_device_def)
  qed
  show ?thesis
  proof (cases "\<exists>ip. i = Done (Some ip)")
    case True
    then obtain ip where ip: "i = Done (Some ip)" ..
    obtain u' d2 out2 where st: "settle_payment P info (u\<lparr>u_peer_ip := ip\<rparr>) p now (d1, out) = (u', d2, out2)"
      by (metis prod_cases3)
    obtain d3 w3 where rm: "remove_trial_devices P ?tr d2 w1 = (d3, w3)" by force
    have res: "r = Done True" "d' = d3" "w' = w3" using run ip st rm by simp_all
    have how: "d1 = d \<and> w1 = w \<and> ip = u_peer_ip u \<and>
         (\<exists>c\<in>set (configs d). c_user_id c = u_id u \<and> c_is_active c \<and> c_kind c \<noteq> ''trial'') \<or>
       (\<exists>c. issue_config P u ''device-1'' ''paid'' (default_for_new (pf_loads P) (pf_env P)) kp now d w =
            (Done (Some c), d1, w1) \<and> ip = Some (c_peer_ip c)) \<and>
         (\<forall>c\<in>set (configs d). c_user_id c = u_id u \<and> c_is_active c \<longrightarrow> c_kind c = ''trial'')"
      using "from" ip some all_trial by fastforce
    show ?thesis using paid [OF info how st] rm res by blast
  next
    case False
    with "from" obtain q where ex: "?ex = []" and q: "issue_config P u ''device-1'' ''paid''
        (default_for_new (pf_loads P) (pf_env P)) kp now d w = (q, d1, w1)"
      "q = Raised \<and> i = Raised \<or> q = Done None \<and> i = Done None" by blast
    have res: "d' = d" "out' = out" "w' = w1" "q = Raised \<and> r = Raised \<or> q = Done None \<and> r = Done False"
      using run q(2) by auto
    show ?thesis using no_device [OF info] q(1) res all_trial [OF ex] by blast
  qed
qed

definition fresh_device_id :: "db \<Rightarrow> bool" where
  "fresh_device_id d = (uuid_tape d (uuid_pos d) \<notin> c_id ` set (configs d))"

lemma settle_payment_tables:
  assumes "settle_payment P info u p now (d, out) = (u', d', out')"
  shows "configs d' = configs d" "payments d' = payments (put_payment (mark_paid now p) d)"
    "credit_entries d' = credit_entries (snd (spend_on_payment d p now))"
    "promo_codes d' = promo_codes d"
    "p_promo_code p = None \<Longrightarrow> length (referral_rewards d') = length (referral_rewards d)"
proof -
  define d1 where "d1 = put_payment (mark_paid now p) (put_user (subscribe info (p_plan p) now u) d)"
  define d2 where "d2 = snd (spend_on_payment d1 (mark_paid now p) now)"
  obtain n u2 d4 out4 where app: "apply_rewards_for (pf_env P) (subscribe info (p_plan p) now u) now
      (snd (reward_for_payment d2 (mark_paid now p) now), out) = (n, u2, d4, out4)" by (metis prod_cases4)
  obtain b d5 out5 where nt: "notify (pf_env P) u2 (if provider p = Some ''manual'' then Granted else Paid) None
      [(''plan'', PPlan (tier info) (plan_days info) (or_ru (lang u2))),
       (''date'', PStr (strftime_date (the (subscribed_until u2))))] now (d4, out4) = (b, d5, out5)"
    by (metis prod_cases3)
  have d': "d' = put_user (close_trial now u2) d5"
    using assms app nt
    by (auto simp: settle_payment_def Let_def subscribe_def paid_until_def mark_paid_def d1_def d2_def)
  note f = notify_same_but_feed [OF nt, unfolded same_but_feed_def] apply_rewards_for_frame [OF app]
  have "credit_entries d2 = credit_entries (snd (spend_on_payment d p now))"
    by (simp add: d2_def spend_on_payment_def d1_def mark_paid_def new_uuid_def put_payment_def put_user_def)
  with f show "configs d' = configs d" "payments d' = payments (put_payment (mark_paid now p) d)"
    "credit_entries d' = credit_entries (snd (spend_on_payment d p now))" "promo_codes d' = promo_codes d"
    by (simp_all add: d' d2_def d1_def put_payment_def)
  have "reward_for_payment d2 (mark_paid now p) now = (0, d2)" if "p_promo_code p = None"
    using that by (simp add: reward_for_payment_def mark_paid_def given_def)
  with f show "length (referral_rewards d') = length (referral_rewards d)" if "p_promo_code p = None"
    using that by (simp add: d' d2_def d1_def)
qed

lemma issue_config_db:
  assumes "issue_config P u name kind location kp now d w = (r, d', w')"
  shows "d' = d \<or> (\<exists>c. d' = (snd (new_uuid d))\<lparr>configs := configs d @ [c]\<rparr>)"
  using assms
  by (auto simp: issue_config_def Let_def new_uuid_def split: option.splits prod.splits outcome.splits)

text \<open>The money tables after an activation, whatever the state of the nodes.\<close>

lemma activate_payment_tables:
  assumes "activate_payment P u p kp now (d, out) w = (r, (d', out'), w')"
  shows "(r \<noteq> Done True \<longrightarrow> d' = d \<and> out' = out) \<and>
    (r = Done True \<longrightarrow> payments d' = payments (put_payment (mark_paid now p) d) \<and>
      (\<forall>v t. balance d' v t = balance d v t -
         (if u_id v = p_user_id p then fst (spend_on_payment d p now) else 0)) \<and>
      (\<forall>e\<in>set (credit_entries d'). e \<in> set (credit_entries d) \<or> ce_payment_id e = Some (p_id p)) \<and>
      (p_promo_code p = None \<longrightarrow> length (referral_rewards d') = length (referral_rewards d)))"
  using assms
proof (cases rule: activate_payment_cases)
  case (paid info ip d1 w1 u' d2 out2)
  have d1: "payments d1 = payments d" "credit_entries d1 = credit_entries d" "referral_rewards d1 = referral_rewards d"
  proof -
    have "d1 = d \<or> (\<exists>c. d1 = (snd (new_uuid d))\<lparr>configs := configs d @ [c]\<rparr>)"
      using paid(2) by (elim disjE conjE exE) (simp, drule issue_config_db, assumption)
    then show "payments d1 = payments d" "credit_entries d1 = credit_entries d" "referral_rewards d1 = referral_rewards d"
      by (auto simp: new_uuid_def)
  qed
  note fr = settle_payment_tables [OF paid(3)] remove_trial_devices_frame [OF paid(4)]
  have "balance d' v t = balance d v t - (if u_id v = p_user_id p then fst (spend_on_payment d p now) else 0)"
    for v t
  proof -
    have "balance d' v t = balance (snd (spend_on_payment d1 p now)) v t"
      using fr by (simp add: balance_def)
    also have "\<dots> = balance d1 v t - (if u_id v = p_user_id p then fst (spend_on_payment d1 p now) else 0)"
      by (rule spend_balance) simp
    also have "fst (spend_on_payment d1 p now) = fst (spend_on_payment d p now)"
      by (simp add: spend_on_payment_def d1 new_uuid_def)
    finally show ?thesis using d1(2) by (simp add: balance_def)
  qed
  moreover have "e \<in> set (credit_entries d) \<or> ce_payment_id e = Some (p_id p)" if "e \<in> set (credit_entries d')" for e
    using that fr d1(2) by (auto simp: spend_on_payment_def new_uuid_def split: if_splits)
  ultimately show ?thesis using fr d1 paid(5) by (simp add: put_payment_def)
qed auto

context provisioning
begin

lemma activate_payment_revoked:
  assumes "activate_payment P u p kp now (d, out) w = (r, (d', out'), w')"
    and "revoked_off P (peers w) d" and "device_rows d" and "new_key kp d" and "fresh_device_id d"
  shows "revoked_off P (peers w') d' \<and> device_rows d'"
  using assms(1)
proof (cases rule: activate_payment_cases)
  case no_plan
  with assms show ?thesis by simp
next
  case (no_device info d1 q)
  with issue_config_revoked [OF no_device(2) assms(2,4)] assms(3) show ?thesis by simp
next
  case (paid info ip d1 w1 u' d2 out2)
  let ?tr = "filter (\<lambda>c. c_kind c = ''trial'') (filter (\<lambda>c. c_user_id c = u_id u \<and> c_is_active c) (configs d))"
  have d1: "revoked_off P (peers w1) d1 \<and> device_rows d1 \<and> set (configs d) \<subseteq> set (configs d1)"
  proof (cases "d1 = d \<and> w1 = w")
    case True
    with assms show ?thesis by simp
  next
    case False
    with paid(2) obtain c where q: "issue_config P u ''device-1'' ''paid''
        (default_for_new (pf_loads P) (pf_env P)) kp now d w = (Done (Some c), d1, w1)" by blast
    then have "configs d1 = configs d @ [c]" using issue_config_spec [OF q] by simp
    with issue_config_revoked(1) [OF q assms(2,4)] issue_config_rows(1) [OF q assms(3)] assms(5)
    show ?thesis by (auto simp: fresh_device_id_def)
  qed
  have c2: "configs d2 = configs d1" using settle_payment_tables(1) [OF paid(3)] .
  have dist: "distinct (map c_id ?tr)" using assms(3) by (simp add: device_rows_def distinct_map_filter)
  have off: "revoked_off P (peers w1) d2" and rows: "device_rows d2"
    using d1 by (simp_all add: revoked_off_same_configs [OF c2] device_rows_same_configs [OF c2])
  have sub: "set ?tr \<subseteq> set (configs d2)" using d1 by (auto simp: c2)
  show ?thesis by (rule remove_trial_devices_revoked [OF paid(4) off rows sub dist]) simp
qed

end

text \<open>What a successful activation does to every table of money and accounts.\<close>

lemma activate_payment_effect:
  assumes "provisioning P peers"
    and "activate_payment P u p kp now (d, out) w = (Done True, (d', out'), w')"
    and "get_user d (u_id u) = Some u" and "p_user_id p = u_id u"
    and "reward_keys d" and "fresh_ids d" and "device_rows d" and "fresh_device_id d"
  shows "\<exists>info u'. plan_info (Some (p_plan p)) = Some info \<and> get_user d' (u_id u) = Some u' \<and>
    is_subscribed u' \<and> u_plan u' = Some (p_plan p) \<and>
    subscribed_until u' = Some (max now (case subscribed_until u of None \<Rightarrow> now | Some t \<Rightarrow> t)
      + days (plan_days info) + days (due_days d (u_id u) now)) \<and>
    (\<forall>t. trial_until u' = Some t \<longrightarrow> t \<le> now) \<and>
    payments d' = payments (put_payment (mark_paid now p) d) \<and>
    (\<forall>v t. balance d' v t = balance d v t - (if u_id v = u_id u then fst (spend_on_payment d p now) else 0)) \<and>
    (\<forall>i. i \<noteq> u_id u \<longrightarrow> get_user d' i = get_user d i)"
  using assms(2)
proof (cases rule: activate_payment_cases)
  case (paid info ip d1 w1 u' d2 out2)
  note rows = provisioning.issue_config_rows [OF assms(1) _ assms(7) assms(8) [unfolded fresh_device_id_def]]
  have d1: "users d1 = users d" "payments d1 = payments d" "credit_entries d1 = credit_entries d"
      "referral_rewards d1 = referral_rewards d" "uuid_tape d1 = uuid_tape d" "uuid_pos d \<le> uuid_pos d1"
    using paid(2) by (auto dest: rows)
  have u: "u \<in> set (users d1)" using get_user_SomeD [OF assms(3)] d1(1) by simp
  have keys: "reward_keys d1" "fresh_ids d1"
    using assms(5,6) d1 by (simp_all add: reward_keys_def fresh_ids_def)
  have pos: "0 < plan_days info" using plan_info_bounds(2) [OF paid(1)] by simp
  have due: "due_days d1 (u_id u) now = due_days d (u_id u) now"
    by (simp add: due_days_def due_rewards_def d1)
  note spec = settle_payment_spec [OF paid(3) pos keys u]
  have u': "u' = close_trial now (extend_by (due_days d (u_id u) now) (subscribe info (p_plan p) now (u\<lparr>u_peer_ip := ip\<rparr>)))"
    using spec(1) assms(4) due by simp
  note fr = remove_trial_devices_frame [OF paid(4)]
  have "get_user d' i = get_user (put_user u' d) i" for i
    using fr(1) spec(2) assms(4) d1(1) by (simp add: get_user_def put_user_def)
  moreover have idu: "u_id u' = u_id u" by (simp add: u')
  ultimately have users: "get_user d' (u_id u) = Some u'" "i \<noteq> u_id u \<Longrightarrow> get_user d' i = get_user d i" for i
    using assms(3) by (auto simp: get_user_put_user split: option.splits)
  have trial: "t \<le> now" if "trial_until u' = Some t" for t
    using that unfolding u' by (auto simp: close_trial_def split: option.splits if_splits)
  note money = activate_payment_tables [OF assms(2), unfolded assms(4), simplified]
  have acc: "is_subscribed u'" "u_plan u' = Some (p_plan p)"
      "subscribed_until u' = Some (max now (case subscribed_until u of None \<Rightarrow> now | Some t \<Rightarrow> t)
        + days (plan_days info) + days (due_days d (u_id u) now))"
    by (simp_all add: u' extend_by_def paid_until_def subscribe_def)
  show ?thesis
    by (rule exI [of _ info], rule exI [of _ u'], intro conjI)
      (use paid(1) users acc trial money in blast)+
qed simp_all

subsection \<open>Properties\<close>

text \<open>
  C2: a device that is issued is a device that works.  When \<open>issue_config\<close> returns a row,
  its address is in the pool of its kind (trial devices in the trial pool and in the default
  location, paid ones in the client pool), no active device of that location has it, the
  entry of that location now carries its public key with exactly that address and did not
  before, no other peer anywhere changed, and the stored keys are the encryption of the
  generated ones.
\<close>

theorem issue_config_sound:
  assumes "provisioning P peers"
    and "issue_config P u name kind location kp now d w = (Done (Some c), d', w')"
  shows "in_pool (if kind = ''trial'' then TRIAL_POOL else CLIENT_POOL) (c_peer_ip c) \<and>
    (kind = ''trial'' \<longrightarrow> c_location c = DEFAULT) \<and>
    c_peer_ip c \<notin> set (held_ips d (c_location c)) \<and>
    peers w (entry_of P (c_location c)) (public_key c) = None \<and>
    peers w' (entry_of P (c_location c)) (public_key c) = Some [c_peer_ip c @ ''/32''] \<and>
    (\<forall>h k. (h, k) \<noteq> (entry_of P (c_location c), public_key c) \<longrightarrow> peers w' h k = peers w h k) \<and>
    configs d' = configs d @ [c] \<and> c_user_id c = u_id u \<and> c_is_active c \<and>
    (\<exists>priv psk. kp = Some (priv, public_key c, psk) \<and> private_key c = pf_encrypt P priv \<and>
       preshared_key c = pf_encrypt P psk)"
proof -
  note spec = provisioning.issue_config_spec [OF assms, simplified]
  have loc: "c_location c = DEFAULT" if "kind = ''trial''"
    using spec that loc_key_germany by auto
  show ?thesis
    using spec loc by (auto simp: pool_of_def with_peer_def)
qed

definition sample_platform :: "(nat \<Rightarrow> link) \<Rightarrow> table_if world platform" where
  "sample_platform net = \<lparr>pf_env = (\<lambda>_. None), pf_loads = (\<lambda>_. None), pf_ssh = node_ssh table_awg net,
     pf_encrypt = Cons CHR ''#'', pf_decrypt = tl\<rparr>"

definition sample_world :: "table_if world" where
  "sample_world = \<lparr>nodes = (\<lambda>_. sample_node), calls = 0\<rparr>"

definition sample_keys :: "(string \<times> string \<times> string) option" where
  "sample_keys = Some (sample_key CHR ''P'', sample_key CHR ''K'', sample_key CHR ''S'')"

lemma sample_provisioning: "provisioning (sample_platform net) (peers_on table_awg)"
  using ta.portal.provisioning_axioms [of net "sample_platform net"] by (simp add: sample_platform_def)

theorem issue_config_sound_witness:
  "\<exists>c d' w'. issue_config (sample_platform (\<lambda>_. Answered)) (sample_user ''ann'') ''device-1'' ''paid'' ''de''
       sample_keys 0 sample_shop sample_world = (Done (Some c), d', w') \<and>
     peers_on table_awg w' [] (sample_key CHR ''K'') = Some [''10.88.88.42/32'']"
proof -
  let ?run = "issue_config (sample_platform (\<lambda>_. Answered)) (sample_user ''ann'') ''device-1'' ''paid'' ''de''
       sample_keys 0 sample_shop sample_world"
  have r: "(case fst ?run of Done (Some c) \<Rightarrow> (c_peer_ip c, c_location c, public_key c) | _ \<Rightarrow> ([], [], [])) =
      (''10.88.88.42'', ''de'', sample_key CHR ''K'')"
    by code_simp
  then obtain c where c: "fst ?run = Done (Some c)" "c_peer_ip c = ''10.88.88.42''" "c_location c = ''de''"
      "public_key c = sample_key CHR ''K''"
    by (auto split: outcome.splits option.splits)
  obtain d' w' where run: "?run = (Done (Some c), d', w')" using c(1) by (metis prod.collapse)
  have "entry_of (sample_platform (\<lambda>_. Answered)) ''de'' = []" by code_simp
  with issue_config_sound [OF sample_provisioning run] run c show ?thesis by auto
qed

text \<open>
  C1: a confirmed payment buys its plan's days on top of what is left.  When \<open>activate_payment\<close>
  succeeds, the buyer is subscribed to the plan until the later of now and the end of the
  period already paid for, plus the plan's days, plus the days of the referral rewards that
  were waiting for a live subscription; a running trial is closed; the payment is marked
  paid; the buyer's credit falls by what the order had reserved, once; and no other account
  and no other balance changes.
\<close>

theorem activate_payment_extends:
  assumes "provisioning P peers"
    and "activate_payment P u p kp now (d, out) w = (Done True, (d', out'), w')"
    and "get_user d (u_id u) = Some u" and "p_user_id p = u_id u"
    and "reward_keys d" and "fresh_ids d" and "device_rows d" and "fresh_device_id d"
  shows "\<exists>info u'. plan_info (Some (p_plan p)) = Some info \<and> get_user d' (u_id u) = Some u' \<and>
    is_subscribed u' \<and> u_plan u' = Some (p_plan p) \<and>
    subscribed_until u' = Some (max now (case subscribed_until u of None \<Rightarrow> now | Some t \<Rightarrow> t)
      + days (plan_days info) + days (due_days d (u_id u) now)) \<and>
    (\<forall>t. trial_until u' = Some t \<longrightarrow> t \<le> now) \<and>
    payments d' = payments (put_payment (mark_paid now p) d) \<and>
    (\<forall>v t. balance d' v t = balance d v t - (if u_id v = u_id u then fst (spend_on_payment d p now) else 0)) \<and>
    (\<forall>i. i \<noteq> u_id u \<longrightarrow> get_user d' i = get_user d i)"
  using activate_payment_effect [OF assms] .

definition sample_device :: "string \<Rightarrow> string \<Rightarrow> string \<Rightarrow> string \<Rightarrow> config_row" where
  "sample_device i uid kind ip = \<lparr>c_id = i, c_user_id = uid, c_name = i, c_peer_ip = ip, c_kind = kind,
     c_location = ''de'', private_key = [], public_key = i, preshared_key = [], c_is_active = True,
     c_created_at = 0\<rparr>"

definition sample_renewal :: db where
  "sample_renewal = sample_shop\<lparr>configs := [sample_device ''c1'' ''bob'' ''paid'' ''10.88.88.42''],
     payments := [sample_order]\<rparr>"

lemma activate_payment_renewal:
  assumes "plan_info (Some (p_plan p)) = Some info"
    and "list_ex (\<lambda>c. c_user_id c = u_id u \<and> c_is_active c \<and> c_kind c \<noteq> ''trial'') (configs d)"
  shows "\<exists>d' out' w'. activate_payment P u p kp now (d, out) w = (Done True, (d', out'), w')"
proof -
  have "filter (\<lambda>c. c_kind c \<noteq> ''trial'') (filter (\<lambda>c. c_user_id c = u_id u \<and> c_is_active c) (configs d)) \<noteq> []"
    using assms(2) by (auto simp: list_ex_iff filter_empty_conv)
  then show ?thesis
    using assms(1) by (simp add: activate_payment_def first_device_def split: prod.splits)
qed

theorem activate_payment_extends_witness:
  "\<exists>d' out' w'. activate_payment (sample_platform (\<lambda>_. Lost)) (sample_user ''bob'') sample_order None 5
      (sample_renewal, empty_outbox) sample_world = (Done True, (d', out'), w') \<and>
    map_option subscribed_until (get_user d' ''bob'') = Some (Some (5 + days 30)) \<and>
    balance d' (sample_user ''bob'') 0 = 18"
proof -
  let ?u = "sample_user ''bob''"
  have info: "plan_info (Some (p_plan sample_order)) = Some (mk_plan ''basic'' 2 30 ''350'')" by code_simp
  have held: "list_ex (\<lambda>c. c_user_id c = u_id ?u \<and> c_is_active c \<and> c_kind c \<noteq> ''trial'') (configs sample_renewal)"
    by code_simp
  from activate_payment_renewal [OF info held, of "sample_platform (\<lambda>_. Lost)" None 5 empty_outbox sample_world] obtain d' out' w' where
    run: "activate_payment (sample_platform (\<lambda>_. Lost)) ?u sample_order None 5 (sample_renewal, empty_outbox)
      sample_world = (Done True, (d', out'), w')" by blast
  have h: "get_user sample_renewal (u_id ?u) = Some ?u" "p_user_id sample_order = u_id ?u"
    "reward_keys sample_renewal" "device_rows sample_renewal" "due_days sample_renewal (u_id ?u) 5 = 0"
    "subscribed_until ?u = None" "balance sample_renewal ?u 0 = 175"
    "fst (spend_on_payment sample_renewal sample_order 5) = 157" "u_id ?u = ''bob''"
    "referral_rewards sample_renewal = []"
    by code_simp+
  have fresh: "fresh_ids sample_renewal" "fresh_device_id sample_renewal"
    by (simp add: fresh_ids_def h(10)) code_simp
  from activate_payment_extends [OF sample_provisioning run h(1-3) fresh(1) h(4) fresh(2)] info h(5-9) run
  show ?thesis by auto
qed



end
