(* ===== verification/Subscriptions.thy ===== *)
theory Subscriptions
  imports Provisioner Trial
begin

section \<open>When access ends (\<open>pwa/services/subscriptions.py\<close>, \<open>pwa/expire_subscriptions.py\<close>)\<close>

text \<open>
  The two access gates, the two hourly sweeps and the script that runs them.  A sweep works
  in one transaction: \<open>Raised\<close> is an \<open>ssh\<close> call that broke, after which the session is the one
  the sweep started from, while the nodes keep what had already been done to them.

  The lemmas show that a sweep revokes exactly the accounts that are due and whose devices
  the node has let go, that a device is marked revoked only when it is off the node, and
  that every other account is left alone.
\<close>

definition has_active_subscription :: "user \<Rightarrow> datetime \<Rightarrow> bool" where
  "has_active_subscription u now =
     (if \<not> is_subscribed u then False
      else case subscribed_until u of None \<Rightarrow> False | Some until \<Rightarrow> until > now)"

definition has_access :: "user \<Rightarrow> datetime \<Rightarrow> bool" where
  "has_access u now = (has_active_subscription u now \<or> trial_active u now)"

subsection \<open>Ended trials\<close>

record trial_stats =
  trials_due :: int
  trial_peers_removed :: int
  trial_failures :: int

definition due_trials :: "db \<Rightarrow> datetime \<Rightarrow> (config_row \<times> user) list" where
  "due_trials d now =
     concat (map (\<lambda>c. map (\<lambda>u. (c, u))
         (filter (\<lambda>u. u_id u = c_user_id c \<and>
                      (case trial_until u of None \<Rightarrow> False | Some t \<Rightarrow> t \<le> now)) (users d)))
       (filter (\<lambda>c. c_kind c = ''trial'' \<and> c_is_active c) (configs d)))"

fun expire_trial_rows ::
  "'w platform \<Rightarrow> datetime \<Rightarrow> (config_row \<times> user) list \<Rightarrow> trial_stats \<Rightarrow> session \<Rightarrow> 'w \<Rightarrow>
   trial_stats outcome \<times> session \<times> 'w"
where
  "expire_trial_rows P now [] st s w = (Done st, s, w)"
| "expire_trial_rows P now ((c, u) # rows) st s w =
     (case remove_peer_for P c w of
        (Raised, w1) \<Rightarrow> (Raised, s, w1)
      | (Done (ok, why), w1) \<Rightarrow>
          if ok then
            let d1 = put_config (c\<lparr>c_is_active := False\<rparr>) (fst s);
                s1 = (if \<not> has_active_subscription u now
                      then ended (pf_env P) u TrialEnded (the (trial_until u)) now (d1, snd s)
                      else (d1, snd s))
            in expire_trial_rows P now rows
                 (st\<lparr>trial_peers_removed := trial_peers_removed st + 1\<rparr>) s1 w1
          else expire_trial_rows P now rows (st\<lparr>trial_failures := trial_failures st + 1\<rparr>) s w1)"

definition expire_due_trials ::
  "'w platform \<Rightarrow> datetime \<Rightarrow> session \<Rightarrow> 'w \<Rightarrow> trial_stats outcome \<times> session \<times> 'w"
where
  "expire_due_trials P now s w =
     (let rows = due_trials (fst s) now;
          (r, s1, w1) = expire_trial_rows P now rows
                          \<lparr>trials_due = int (length rows), trial_peers_removed = 0, trial_failures = 0\<rparr> s w
      in case r of Raised \<Rightarrow> (Raised, s, w1) | Done st \<Rightarrow> (Done st, s1, w1))"

subsection \<open>Ended subscriptions\<close>

record sub_stats =
  users_due :: int
  users_revoked :: int
  peers_removed :: int
  failures :: int
  undated :: "string list"

definition due_users :: "db \<Rightarrow> datetime \<Rightarrow> user list" where
  "due_users d now =
     filter (\<lambda>u. is_subscribed u \<and> (case subscribed_until u of None \<Rightarrow> False | Some t \<Rightarrow> t < now)) (users d)"

fun revoke_configs ::
  "'w platform \<Rightarrow> config_row list \<Rightarrow> bool \<Rightarrow> sub_stats \<Rightarrow> db \<Rightarrow> 'w \<Rightarrow> (bool \<times> sub_stats) outcome \<times> db \<times> 'w"
where
  "revoke_configs P [] all_removed st d w = (Done (all_removed, st), d, w)"
| "revoke_configs P (c # cs) all_removed st d w =
     (case remove_peer_for P c w of
        (Raised, w1) \<Rightarrow> (Raised, d, w1)
      | (Done (ok, why), w1) \<Rightarrow>
          if ok then revoke_configs P cs all_removed (st\<lparr>peers_removed := peers_removed st + 1\<rparr>)
                       (put_config (c\<lparr>c_is_active := False\<rparr>) d) w1
          else revoke_configs P cs False (st\<lparr>failures := failures st + 1\<rparr>) d w1)"

definition held_configs :: "db \<Rightarrow> user \<Rightarrow> config_row list" where
  "held_configs d u = filter (\<lambda>c. c_user_id c = u_id u \<and> c_is_active c) (configs d)"

fun revoke_users ::
  "'w platform \<Rightarrow> datetime \<Rightarrow> user list \<Rightarrow> sub_stats \<Rightarrow> session \<Rightarrow> 'w \<Rightarrow> sub_stats outcome \<times> session \<times> 'w"
where
  "revoke_users P now [] st s w = (Done st, s, w)"
| "revoke_users P now (u # us) st s w =
     (case revoke_configs P (held_configs (fst s) u) True st (fst s) w of
        (Raised, d1, w1) \<Rightarrow> (Raised, s, w1)
      | (Done (all_removed, st1), d1, w1) \<Rightarrow>
          if all_removed then
            let u1 = u\<lparr>is_subscribed := False\<rparr>;
                s1 = ended (pf_env P) u1 SubEnded (the (subscribed_until u)) now (put_user u1 d1, snd s)
            in revoke_users P now us (st1\<lparr>users_revoked := users_revoked st1 + 1\<rparr>) s1 w1
          else revoke_users P now us st1 (d1, snd s) w1)"

definition expire_due_subscriptions ::
  "'w platform \<Rightarrow> datetime \<Rightarrow> session \<Rightarrow> 'w \<Rightarrow> sub_stats outcome \<times> session \<times> 'w"
where
  "expire_due_subscriptions P now s w =
     (let due = due_users (fst s) now;
          (r, s1, w1) = revoke_users P now due
             \<lparr>users_due = int (length due), users_revoked = 0, peers_removed = 0, failures = 0, undated = []\<rparr> s w
      in case r of
           Raised \<Rightarrow> (Raised, s, w1)
         | Done st \<Rightarrow>
             (Done (st\<lparr>undated := map username
                 (filter (\<lambda>u. is_subscribed u \<and> subscribed_until u = None) (users (fst s1)))\<rparr>), s1, w1))"

subsection \<open>The hourly script\<close>

text \<open>
  \<open>main\<close>: the four parts in order, each with the instant it reads; the exit status is 1 when
  one of them raised.
\<close>

definition sweep_main ::
  "'w platform \<Rightarrow> datetime \<times> datetime \<times> datetime \<times> datetime \<Rightarrow> session \<Rightarrow> 'w \<Rightarrow> int \<times> session \<times> 'w"
where
  "sweep_main P at s w =
     (case at of (t1, t2, t3, t4) \<Rightarrow>
        let (rewarded, added, s1) = apply_due_rewards (pf_env P) t1 s in
        case expire_due_subscriptions P t2 s1 w of
          (Raised, s2, w2) \<Rightarrow> (1, s2, w2)
        | (Done st, s2, w2) \<Rightarrow>
            (case expire_due_trials P t3 s2 w2 of
               (Raised, s3, w3) \<Rightarrow> (1, s3, w3)
             | (Done tst, s3, w3) \<Rightarrow>
                 let (n, s4) = remind_due (pf_env P) t4 s3 in (0, s4, w3)))"

subsection \<open>Lemmas: revoking a set of devices\<close>

definition deactivate :: "string set \<Rightarrow> db \<Rightarrow> db" where
  "deactivate S d = d\<lparr>configs := update_where (\<lambda>c. c_id c \<in> S) (\<lambda>c. c\<lparr>c_is_active := False\<rparr>) (configs d)\<rparr>"

lemma deactivate_empty [simp]: "deactivate {} d = d"
  by (simp add: deactivate_def update_where_def)

lemma deactivate_deactivate [simp]: "deactivate S (deactivate T d) = deactivate (S \<union> T) d"
  by (auto simp: deactivate_def update_where_def comp_def)

lemma configs_deactivate_cong: "configs a = configs b \<Longrightarrow> configs (deactivate S a) = configs (deactivate S b)"
  by (simp add: deactivate_def)

lemma deactivate_frame [simp]:
  "users (deactivate S d) = users d" "payments (deactivate S d) = payments d"
  "credit_entries (deactivate S d) = credit_entries d" "referral_rewards (deactivate S d) = referral_rewards d"
  "notifications (deactivate S d) = notifications d" "promo_codes (deactivate S d) = promo_codes d"
  "trial_grants (deactivate S d) = trial_grants d"
  "map c_id (configs (deactivate S d)) = map c_id (configs d)"
  by (simp_all add: deactivate_def map_update_where)

lemma put_config_deactivate:
  assumes "device_rows d" and "c \<in> set (configs d)"
  shows "put_config (c\<lparr>c_is_active := False\<rparr>) d = deactivate {c_id c} d"
proof -
  have "x = c" if "x \<in> set (configs d)" "c_id x = c_id c" for x
    using assms that by (auto simp: device_rows_def intro: distinct_map_eqD)
  then have "update_where (\<lambda>x. c_id x = c_id (c\<lparr>c_is_active := False\<rparr>)) (\<lambda>_. c\<lparr>c_is_active := False\<rparr>) (configs d) =
      update_where (\<lambda>c'. c_id c' \<in> {c_id c}) (\<lambda>c. c\<lparr>c_is_active := False\<rparr>) (configs d)"
    by (auto simp: update_where_def)
  then show ?thesis by (simp add: put_config_def deactivate_def)
qed

lemma held_configs_deactivate:
  "held_configs (deactivate S d) u = filter (\<lambda>c. c_id c \<notin> S) (held_configs d u)"
proof -
  have "filter (\<lambda>c. c_user_id c = i \<and> c_is_active c) (map (\<lambda>c. if c_id c \<in> S then c\<lparr>c_is_active := False\<rparr> else c) cs) =
      filter (\<lambda>c. c_id c \<notin> S) (filter (\<lambda>c. c_user_id c = i \<and> c_is_active c) cs)" for i cs
    by (induction cs) auto
  then show ?thesis by (simp add: held_configs_def deactivate_def update_where_def)
qed

lemma device_rows_deactivate: "device_rows d \<Longrightarrow> device_rows (deactivate S d)"
  unfolding device_rows_def deactivate_frame
  by (auto simp: deactivate_def list_all_iff set_update_where location_or_default_def)

lemma held_configs_other:
  assumes "device_rows d" and "S \<subseteq> c_id ` set (held_configs d u)" and "u_id v \<noteq> u_id u"
  shows "held_configs (deactivate S d) v = held_configs d v"
proof -
  have "c_id c \<notin> S" if c: "c \<in> set (held_configs d v)" for c
  proof
    assume "c_id c \<in> S"
    then obtain x where x: "x \<in> set (held_configs d u)" "c_id x = c_id c" using assms(2) by auto
    then have "x = c" using assms(1) c by (auto simp: device_rows_def held_configs_def intro: distinct_map_eqD)
    with x c assms(3) show False by (simp add: held_configs_def)
  qed
  then show ?thesis by (simp add: held_configs_deactivate filter_id_conv)
qed

text \<open>What a sweep leaves of an account that was due: revoked with its devices, or kept with one.\<close>

definition settled_account :: "user \<Rightarrow> db \<Rightarrow> bool" where
  "settled_account u d' =
     (get_user d' (u_id u) = Some (u\<lparr>is_subscribed := False\<rparr>) \<and> held_configs d' u = [] \<or>
      get_user d' (u_id u) = Some u \<and> held_configs d' u \<noteq> [])"

definition same_account :: "db \<Rightarrow> db \<Rightarrow> user \<Rightarrow> bool" where
  "same_account d d' v = (get_user d' (u_id v) = get_user d (u_id v) \<and> held_configs d' v = held_configs d v)"

context provisioning
begin

lemma revoke_configs_spec:
  assumes "revoke_configs P cs b st d w = (r, d', w')" and "device_rows d" and "revoked_off P (peers w) d"
    and "set cs \<subseteq> set (configs d)" and "distinct (map c_id cs)"
  shows "revoked_off P (peers w') d' \<and> (\<forall>h k. peers w h k = None \<longrightarrow> peers w' h k = None) \<and>
    (\<exists>S. d' = deactivate S d \<and> S \<subseteq> c_id ` set cs \<and>
       (\<forall>b' st'. r = Done (b', st') \<longrightarrow> b' = (b \<and> S = c_id ` set cs)))"
  using assms
proof (induction cs arbitrary: b st d w)
  case Nil
  then have "d' = deactivate {} d" "w' = w" "r = Done (b, st)" by simp_all
  with Nil.prems(3) show ?case by (intro conjI exI [of _ "{}"]) auto
next
  case (Cons c cs)
  obtain q w1 where q: "remove_peer_for P c w = (q, w1)" by force
  have mono: "peers w h k = None \<Longrightarrow> peers w1 h k = None" for h k using remove_never_adds [OF q] .
  have off1: "revoked_off P (peers w1) d" using remove_keeps_revoked [OF q Cons.prems(3)] .
  have c: "c \<in> set (configs d)" "set cs \<subseteq> set (configs d)" "c_id c \<notin> c_id ` set cs" "distinct (map c_id cs)"
    using Cons.prems(4,5) by auto
  show ?case
  proof (cases q)
    case Raised
    then have "r = Raised" "d' = deactivate {} d" "w' = w1" using Cons.prems(1) q by simp_all
    with off1 mono show ?thesis by (intro conjI exI [of _ "{}"]) auto
  next
    case (Done x)
    obtain ok why where x: "x = (ok, why)" by force
    show ?thesis
    proof (cases ok)
      case True
      let ?d = "deactivate {c_id c} d"
      have eq: "put_config (c\<lparr>c_is_active := False\<rparr>) d = ?d"
        using put_config_deactivate [OF Cons.prems(2) c(1)] .
      have run: "revoke_configs P cs b (st\<lparr>peers_removed := peers_removed st + 1\<rparr>) ?d w1 = (r, d', w')"
        using Cons.prems(1) q Done x True eq by simp
      have off: "revoked_off P (peers w1) ?d"
        using revoke_step [OF _ Cons.prems(3) c(1) Cons.prems(2), of why w1] q Done x True eq by simp
      have sub: "set cs \<subseteq> set (configs ?d)"
        using c(2,3) by (auto simp: deactivate_def set_update_where image_iff)
      from Cons.IH [OF run device_rows_deactivate [OF Cons.prems(2)] off sub c(4)] obtain S where
        S: "revoked_off P (peers w') d'" "\<forall>h k. peers w1 h k = None \<longrightarrow> peers w' h k = None"
          "d' = deactivate S ?d" "S \<subseteq> c_id ` set cs"
          "\<forall>b' st'. r = Done (b', st') \<longrightarrow> b' = (b \<and> S = c_id ` set cs)" by blast
      have "d' = deactivate (insert (c_id c) S) d" using S(3) by simp
      moreover have "insert (c_id c) S = c_id ` set (c # cs) \<longleftrightarrow> S = c_id ` set cs"
        using S(4) c(3) insert_ident [of "c_id c" S "c_id ` set cs"] by (simp add: subset_iff, blast)
      ultimately show ?thesis using S mono by (intro conjI exI [of _ "insert (c_id c) S"]) auto
    next
      case False
      have run: "revoke_configs P cs False (st\<lparr>failures := failures st + 1\<rparr>) d w1 = (r, d', w')"
        using Cons.prems(1) q Done x False by simp
      from Cons.IH [OF run Cons.prems(2) off1 c(2,4)] obtain S where
        S: "revoked_off P (peers w') d'" "\<forall>h k. peers w1 h k = None \<longrightarrow> peers w' h k = None"
          "d' = deactivate S d" "S \<subseteq> c_id ` set cs" "\<forall>b' st'. r = Done (b', st') \<longrightarrow> \<not> b'" by blast
      moreover have "S \<noteq> c_id ` set (c # cs)" using S(4) c(3) by auto
      ultimately show ?thesis using mono by (intro conjI exI [of _ S]) auto
    qed
  qed
qed

lemma revoke_users_spec:
  assumes "revoke_users P now us st (d, out) w = (r, (d', out'), w')" and "device_rows d"
    and "revoked_off P (peers w) d" and "distinct (map u_id us)" and "\<forall>u\<in>set us. get_user d (u_id u) = Some u"
  shows "(\<forall>h k. peers w h k = None \<longrightarrow> peers w' h k = None) \<and> (\<forall>st'. r = Done st' \<longrightarrow>
    revoked_off P (peers w') d' \<and> device_rows d' \<and> (\<forall>u\<in>set us. settled_account u d') \<and>
    (\<forall>v. u_id v \<notin> u_id ` set us \<longrightarrow> same_account d d' v) \<and> (feed_unique d \<longrightarrow> feed_unique d') \<and>
    map u_id (users d') = map u_id (users d))"
  using assms
proof (induction us arbitrary: st d out w)
  case Nil
  then show ?case by (auto simp: same_account_def)
next
  case (Cons u us)
  obtain q d1 w1 where q: "revoke_configs P (held_configs d u) True st d w = (q, d1, w1)" by (metis prod_cases3)
  have sub: "set (held_configs d u) \<subseteq> set (configs d)" by (auto simp: held_configs_def)
  have dist: "distinct (map c_id (held_configs d u))"
    using Cons.prems(2) by (simp add: held_configs_def device_rows_def distinct_map_filter)
  from revoke_configs_spec [OF q Cons.prems(2,3) sub dist] obtain S where
    off1: "revoked_off P (peers w1) d1" and mono1: "\<And>h k. peers w h k = None \<Longrightarrow> peers w1 h k = None"
    and S: "d1 = deactivate S d" "S \<subseteq> c_id ` set (held_configs d u)"
      "\<And>b' st'. q = Done (b', st') \<Longrightarrow> b' = (S = c_id ` set (held_configs d u))"
    by auto
  show ?case
  proof (cases q)
    case Raised
    then have "r = Raised" "w' = w1" using Cons.prems(1) q by simp_all
    with mono1 show ?thesis by auto
  next
    case (Done x)
    obtain b' st1 where x: "x = (b', st1)" by force
    have b': "b' = (S = c_id ` set (held_configs d u))" using S(3) Done x by simp
    have held_u: "held_configs d1 u = [] \<longleftrightarrow> b'"
      using S(1,2) b' by (auto simp: held_configs_deactivate filter_empty_conv)
    have held_v: "held_configs d1 v = held_configs d v" if "u_id v \<noteq> u_id u" for v
      using held_configs_other [OF Cons.prems(2) S(2) that] S(1) by simp
    define u1 where "u1 = u\<lparr>is_subscribed := False\<rparr>"
    obtain d2 out2 where s2: "(if b' then ended (pf_env P) u1 SubEnded (the (subscribed_until u)) now (put_user u1 d1, out)
        else (d1, out)) = (d2, out2)" by force
    obtain st2 where run: "revoke_users P now us st2 (d2, out2) w1 = (r, (d', out'), w')"
      using Cons.prems(1) q Done x s2 by (auto simp: u1_def split: if_splits)
    have d2: "users d2 = users (if b' then put_user u1 d else d)" "configs d2 = configs d1"
      "feed_unique d \<longrightarrow> feed_unique d2"
    proof -
      have "feed_unique (put_user u1 d1) = feed_unique d" "feed_unique d1 = feed_unique d"
        using S(1) by (simp_all add: feed_unique_def)
      moreover have "users (put_user u1 d1) = users (put_user u1 d)" using S(1) by (simp add: put_user_def)
      ultimately show "users d2 = users (if b' then put_user u1 d else d)" "configs d2 = configs d1"
        "feed_unique d \<longrightarrow> feed_unique d2"
        using s2 S(1) ended_same_but_feed [of "pf_env P" u1 SubEnded _ now "put_user u1 d1" out d2 out2]
          ended_unique [of "put_user u1 d1" "pf_env P" u1 SubEnded _ now out d2 out2]
        by (auto simp: same_but_feed_def split: if_splits)
    qed
    have id1: "u_id u1 = u_id u" by (simp add: u1_def)
    have gu: "get_user d2 i = (if b' \<and> i = u_id u then Some u1 else get_user d i)" for i
    proof -
      have "get_user d2 i = get_user (if b' then put_user u1 d else d) i" by (simp add: get_user_def d2(1))
      then show ?thesis using Cons.prems(5) id1 by (auto simp: get_user_put_user split: option.splits)
    qed
    have dr2: "device_rows d2" using device_rows_deactivate [OF Cons.prems(2), of S] S(1)
      by (simp add: device_rows_same_configs [OF d2(2)])
    have off2: "revoked_off P (peers w1) d2" using off1 by (simp add: revoked_off_same_configs [OF d2(2)])
    have out: "u_id u \<notin> u_id ` set us" using Cons.prems(4) by simp
    have ne: "u_id v \<noteq> u_id u" if "v \<in> set us" for v
      using out imageI [OF that, of u_id] by auto
    have present: "\<forall>v\<in>set us. get_user d2 (u_id v) = Some v" using Cons.prems(5) ne by (simp add: gu)
    have dist_us: "distinct (map u_id us)" using Cons.prems(4) by simp
    note IH = Cons.IH [OF run dr2 off2 dist_us present]
    have hc: "held_configs d2 v = held_configs d1 v" for v by (simp add: held_configs_def d2(2))
    have u_in: "get_user d (u_id u) = Some u" using Cons.prems(5) by simp
    have "settled_account u d'" if "r = Done st'" for st'
    proof -
      have "u_id u \<notin> u_id ` set us" using Cons.prems(4) by simp
      then have "same_account d2 d' u" using IH that by blast
      then show ?thesis
        using held_u hc gu [of "u_id u"] u_in by (cases b') (auto simp: settled_account_def same_account_def u1_def)
    qed
    moreover have "same_account d d' v" if "r = Done st'" "u_id v \<notin> u_id ` set (u # us)" for st' v
    proof -
      have "same_account d2 d' v" using IH that by auto
      then show ?thesis using that held_v hc gu by (simp add: same_account_def)
    qed
    moreover have "map u_id (users d2) = map u_id (users d)" using d2(1) by simp
    ultimately show ?thesis using IH mono1 d2(3) by (auto simp del: map_eq_conv)
  qed
qed

end

subsection \<open>Lemmas: ended trials\<close>

lemma filter_key_single: "distinct (map k us) \<Longrightarrow> length (filter (\<lambda>u. k u = i \<and> Q u) us) \<le> 1"
  by (induction us) (auto simp: filter_empty_conv, metis image_eqI)

lemma due_trials_rows:
  "x \<in> set (due_trials d now) \<Longrightarrow> fst x \<in> set (configs d) \<and> c_kind (fst x) = ''trial'' \<and> c_is_active (fst x) \<and>
     snd x \<in> set (users d)"
  by (auto simp: due_trials_def)

lemma distinct_due_trials:
  assumes "distinct (map u_id (users d))" and "device_rows d"
  shows "distinct (map (c_id \<circ> fst) (due_trials d now))"
proof -
  define g where "g = (\<lambda>c::config_row. map (\<lambda>u. (c, u)) (filter (\<lambda>u. u_id u = c_user_id c \<and>
      (case trial_until u of None \<Rightarrow> False | Some t \<Rightarrow> t \<le> now)) (users d)))"
  have len: "length (g c) \<le> 1" for c
    using filter_key_single [OF assms(1), of "c_user_id c"] by (simp add: g_def)
  have fst_g: "fst ` set (g c) \<subseteq> {c}" for c by (auto simp: g_def)
  have all: "distinct (map (c_id \<circ> fst) (concat (map g cs))) \<and>
      set (map (c_id \<circ> fst) (concat (map g cs))) \<subseteq> c_id ` set cs" if "distinct (map c_id cs)" for cs
    using that
  proof (induction cs)
    case (Cons c cs)
    consider "g c = []" | y where "g c = [y]" using len [of c] by (cases "g c") auto
    then show ?case
    proof cases
      case 2
      then have "fst y = c" using fst_g [of c] by simp
      have cs: "distinct (map c_id cs)" "c_id c \<notin> c_id ` set cs" using Cons.prems by simp_all
      define M where "M = map (c_id \<circ> fst) (concat (map g cs))"
      have M: "distinct M" "set M \<subseteq> c_id ` set cs" using Cons.IH [OF cs(1)] by (simp_all only: M_def)
      have eq: "map (c_id \<circ> fst) (concat (map g (c # cs))) = c_id c # M"
        using 2 \<open>fst y = c\<close> by (simp add: M_def)
      show ?thesis unfolding eq using M cs(2) by auto
    qed (use Cons in auto)
  qed simp
  have "distinct (map c_id (filter (\<lambda>c. c_kind c = ''trial'' \<and> c_is_active c) (configs d)))"
    using assms(2) by (simp add: device_rows_def distinct_map_filter)
  from conjunct1 [OF all [OF this]] show ?thesis unfolding due_trials_def g_def .
qed

lemma due_trials_deactivate:
  assumes "users d' = users d" and "configs d' = configs (deactivate (c_id ` fst ` set (due_trials d now)) d)"
  shows "due_trials d' now = []"
proof -
  let ?S = "c_id ` fst ` set (due_trials d now)"
  have "False" if x: "(c, u) \<in> set (due_trials d' now)" for c u
  proof -
    from x assms have c: "c \<in> set (configs (deactivate ?S d))" "c_kind c = ''trial''" "c_is_active c"
      "u \<in> set (users d)" "u_id u = c_user_id c" "case trial_until u of None \<Rightarrow> False | Some t \<Rightarrow> t \<le> now"
      by (auto simp: due_trials_def)
    then have old: "c \<in> set (configs d)" "c_id c \<notin> ?S"
      by (auto simp: deactivate_def set_update_where split: if_splits)
    then have "(c, u) \<in> set (due_trials d now)" using c by (auto simp: due_trials_def)
    then have "c_id c \<in> ?S" by force
    with old show False by simp
  qed
  then show ?thesis by (metis list.set_intros(1) neq_Nil_conv surj_pair)
qed

definition trials_handled ::
  "(config_row \<times> user) list \<Rightarrow> trial_stats \<Rightarrow> db \<Rightarrow> trial_stats \<Rightarrow> db \<Rightarrow> bool"
where
  "trials_handled rows st d st' d' =
     (users d' = users d \<and> (feed_unique d \<longrightarrow> feed_unique d') \<and> trials_due st' = trials_due st \<and>
      trial_peers_removed st' + trial_failures st' = trial_peers_removed st + trial_failures st + int (length rows) \<and>
      trial_failures st \<le> trial_failures st' \<and>
      (\<exists>S. configs d' = configs (deactivate S d) \<and> S \<subseteq> c_id ` fst ` set rows \<and>
        (trial_failures st' = trial_failures st \<longrightarrow> S = c_id ` fst ` set rows)))"

lemma trials_handled_failed:
  assumes "trials_handled rows (st\<lparr>trial_failures := trial_failures st + 1\<rparr>) d st' d'"
  shows "trials_handled (cu # rows) st d st' d'"
proof -
  from assms obtain S where "configs d' = configs (deactivate S d)" "S \<subseteq> c_id ` fst ` set rows"
    "trial_failures st + 1 \<le> trial_failures st'" by (auto simp: trials_handled_def)
  then have "\<exists>S. configs d' = configs (deactivate S d) \<and> S \<subseteq> c_id ` fst ` set (cu # rows) \<and>
      (trial_failures st' = trial_failures st \<longrightarrow> S = c_id ` fst ` set (cu # rows))"
    by (intro exI [of _ S]) auto
  with assms show ?thesis unfolding trials_handled_def by simp
qed

lemma trials_handled_removed:
  assumes "trials_handled rows (st\<lparr>trial_peers_removed := trial_peers_removed st + 1\<rparr>) d2 st' d'"
    and "users d2 = users d" and "configs d2 = configs (deactivate {c_id c} d)"
    and "feed_unique d \<longrightarrow> feed_unique d2"
  shows "trials_handled ((c, u) # rows) st d st' d'"
proof -
  from assms(1) obtain S where S: "configs d' = configs (deactivate S d2)" "S \<subseteq> c_id ` fst ` set rows"
    "trial_failures st' = trial_failures st \<longrightarrow> S = c_id ` fst ` set rows" by (auto simp: trials_handled_def)
  have "configs (deactivate S d2) = configs (deactivate S (deactivate {c_id c} d))"
    by (rule configs_deactivate_cong [OF assms(3)])
  then have "configs d' = configs (deactivate (insert (c_id c) S) d)" using S(1) by simp
  with S(2,3) have "\<exists>S. configs d' = configs (deactivate S d) \<and> S \<subseteq> c_id ` fst ` set ((c, u) # rows) \<and>
      (trial_failures st' = trial_failures st \<longrightarrow> S = c_id ` fst ` set ((c, u) # rows))"
    by (intro exI [of _ "insert (c_id c) S"]) auto
  with assms show ?thesis unfolding trials_handled_def by simp
qed

context provisioning
begin

lemma expire_trial_rows_spec:
  assumes "expire_trial_rows P now rows st (d, out) w = (r, (d', out'), w')" and "device_rows d"
    and "revoked_off P (peers w) d" and "fst ` set rows \<subseteq> set (configs d)" and "distinct (map (c_id \<circ> fst) rows)"
  shows "(\<forall>h k. peers w h k = None \<longrightarrow> peers w' h k = None) \<and>
    (\<forall>st'. r = Done st' \<longrightarrow> revoked_off P (peers w') d' \<and> trials_handled rows st d st' d')"
  using assms
proof (induction rows arbitrary: st d out w)
  case Nil
  then show ?case by (auto simp: trials_handled_def intro!: exI [of _ "{}"])
next
  case (Cons cu rows)
  obtain c u where cu: "cu = (c, u)" by force
  obtain q w1 where q: "remove_peer_for P c w = (q, w1)" by force
  have mono: "peers w h k = None \<Longrightarrow> peers w1 h k = None" for h k using remove_never_adds [OF q] .
  have off1: "revoked_off P (peers w1) d" using remove_keeps_revoked [OF q Cons.prems(3)] .
  have c: "c \<in> set (configs d)" "fst ` set rows \<subseteq> set (configs d)" "c_id c \<notin> c_id ` fst ` set rows"
    "distinct (map (c_id \<circ> fst) rows)" using Cons.prems(4,5) cu by (auto simp: image_comp comp_def)
  show ?case
  proof (cases q)
    case Raised
    then have "r = Raised" "w' = w1" using Cons.prems(1) q cu by simp_all
    with mono show ?thesis by auto
  next
    case (Done x)
    obtain ok why where x: "x = (ok, why)" by force
    show ?thesis
    proof (cases ok)
      case False
      then have run: "expire_trial_rows P now rows (st\<lparr>trial_failures := trial_failures st + 1\<rparr>) (d, out) w1 =
          (r, (d', out'), w')" using Cons.prems(1) q cu Done x by simp
      note IH = Cons.IH [OF run Cons.prems(2) off1 c(2,4)]
      have "trials_handled (cu # rows) st d st' d'" if "r = Done st'" for st'
        using IH that trials_handled_failed by blast
      with IH mono show ?thesis by blast
    next
      case True
      let ?d = "deactivate {c_id c} d"
      have eq: "put_config (c\<lparr>c_is_active := False\<rparr>) d = ?d"
        using put_config_deactivate [OF Cons.prems(2) c(1)] .
      obtain d2 out2 where s2: "(if \<not> has_active_subscription u now
          then ended (pf_env P) u TrialEnded (the (trial_until u)) now (?d, out) else (?d, out)) = (d2, out2)" by force
      have run: "expire_trial_rows P now rows (st\<lparr>trial_peers_removed := trial_peers_removed st + 1\<rparr>) (d2, out2) w1 =
          (r, (d', out'), w')" using Cons.prems(1) q cu Done x True eq s2
        by (simp add: Let_def cong: if_cong)
      have d2: "users d2 = users d" "configs d2 = configs ?d" "feed_unique d \<longrightarrow> feed_unique d2"
        using s2 ended_same_but_feed [of "pf_env P" u TrialEnded _ now ?d out d2 out2]
          ended_unique [of ?d "pf_env P" u TrialEnded _ now out d2 out2]
        by (auto simp: same_but_feed_def feed_unique_def split: if_splits)
      have off2: "revoked_off P (peers w1) d2"
        using revoke_step [OF _ Cons.prems(3) c(1) Cons.prems(2), of why w1] q Done x True eq
        by (simp add: revoked_off_same_configs [OF d2(2)])
      have dr2: "device_rows d2"
        using device_rows_deactivate [OF Cons.prems(2)] by (simp add: device_rows_same_configs [OF d2(2)])
      have sub: "fst ` set rows \<subseteq> set (configs d2)"
      proof
        fix y assume y: "y \<in> fst ` set rows"
        from imageI [OF this, of c_id] have "c_id y \<noteq> c_id c" using c(3) by metis
        moreover have "y \<in> set (configs d)" using y c(2) by blast
        ultimately show "y \<in> set (configs d2)" by (auto simp: d2(2) deactivate_def set_update_where image_iff)
      qed
      note IH = Cons.IH [OF run dr2 off2 sub c(4)]
      have "trials_handled (cu # rows) st d st' d'" if "r = Done st'" for st'
        using IH that trials_handled_removed [OF _ d2] unfolding cu by blast
      with IH mono show ?thesis by blast
    qed
  qed
qed

end

subsection \<open>Properties\<close>

text \<open>
  C23: the expiry sweep revokes exactly what it may.  After a completed sweep every account
  whose paid period has ended is either revoked, with no device left active, or still
  subscribed because at least one of its devices could not be taken off; every other account
  and its devices are as they were.  A sweep that broke off has changed no row.  Whether it
  completed or not, no device that is marked revoked is on a node.
\<close>

theorem expire_due_subscriptions_exact:
  assumes "provisioning P peers"
    and "expire_due_subscriptions P now (d, out) w = (r, (d', out'), w')"
    and "device_rows d" and "revoked_off P (peers w) d" and "distinct (map u_id (users d))"
  shows "revoked_off P (peers w') d' \<and> (r = Raised \<longrightarrow> d' = d \<and> out' = out) \<and>
    (r \<noteq> Raised \<longrightarrow> (\<forall>u\<in>set (users d).
      if is_subscribed u \<and> (\<exists>t. subscribed_until u = Some t \<and> t < now)
      then get_user d' (u_id u) = Some (u\<lparr>is_subscribed := False\<rparr>) \<and> held_configs d' u = [] \<or>
           get_user d' (u_id u) = Some u \<and> held_configs d' u \<noteq> []
      else get_user d' (u_id u) = Some u \<and> held_configs d' u = held_configs d u))"
proof -
  define st where "st = \<lparr>users_due = int (length (due_users d now)), users_revoked = 0, peers_removed = 0,
      failures = 0, undated = []\<rparr>"
  obtain q d1 out1 w1 where q: "revoke_users P now (due_users d now) st (d, out) w = (q, (d1, out1), w1)"
    by (metis prod_cases4 surj_pair)
  have due: "u \<in> set (due_users d now) \<longleftrightarrow>
      u \<in> set (users d) \<and> is_subscribed u \<and> (\<exists>t. subscribed_until u = Some t \<and> t < now)" for u
    by (auto simp: due_users_def split: option.splits)
  have present: "\<forall>u\<in>set (due_users d now). get_user d (u_id u) = Some u"
    using get_user_in_users [OF assms(5)] by (simp add: due)
  have dist: "distinct (map u_id (due_users d now))"
    using assms(5) by (simp add: due_users_def distinct_map_filter)
  note spec = provisioning.revoke_users_spec [OF assms(1) q assms(3,4) dist present]
  show ?thesis
  proof (cases q)
    case Raised
    then have "r = Raised" "d' = d" "out' = out" "w' = w1"
      using assms(2) q by (simp_all add: expire_due_subscriptions_def st_def Let_def)
    moreover have "revoked_off P (peers w1) d" using revoked_off_mono [OF assms(4)] conjunct1 [OF spec] by blast
    ultimately show ?thesis by simp
  next
    case (Done st')
    then have res: "r \<noteq> Raised" "d' = d1" "w' = w1"
      using assms(2) q by (auto simp: expire_due_subscriptions_def st_def Let_def)
    note fin = conjunct2 [OF spec, rule_format, OF Done]
    have "if is_subscribed u \<and> (\<exists>t. subscribed_until u = Some t \<and> t < now)
      then get_user d' (u_id u) = Some (u\<lparr>is_subscribed := False\<rparr>) \<and> held_configs d' u = [] \<or>
           get_user d' (u_id u) = Some u \<and> held_configs d' u \<noteq> []
      else get_user d' (u_id u) = Some u \<and> held_configs d' u = held_configs d u"
      if u: "u \<in> set (users d)" for u
    proof (cases "u \<in> set (due_users d now)")
      case True
      then have "settled_account u d'" using fin res(2) by blast
      with True show ?thesis by (simp add: due settled_account_def)
    next
      case False
      have "u_id u \<notin> u_id ` set (due_users d now)"
      proof
        assume "u_id u \<in> u_id ` set (due_users d now)"
        then obtain v where "v \<in> set (due_users d now)" "u_id v = u_id u" by auto
        then have "v = u" using distinct_map_eqD [OF assms(5)] u due by auto
        with \<open>v \<in> set (due_users d now)\<close> False show False by simp
      qed
      then have "same_account d d' u" using fin res(2) by blast
      with False u show ?thesis
        using get_user_in_users [OF assms(5) u] by (auto simp: due same_account_def)
    qed
    moreover have "revoked_off P (peers w') d'" using res fin by simp
    ultimately show ?thesis using res(1) by blast
  qed
qed

definition sample_lapsed :: db where
  "sample_lapsed = empty_db\<lparr>
     users := [(sample_user ''ann'')\<lparr>is_subscribed := True, subscribed_until := Some 3\<rparr>],
     configs := [(sample_device ''c1'' ''ann'' ''paid'' ''10.88.88.42'')\<lparr>public_key := sample_key CHR ''K''\<rparr>]\<rparr>"

theorem expire_due_subscriptions_exact_witness:
  "\<exists>d' out' w'. expire_due_subscriptions (sample_platform (\<lambda>_. Lost)) 10 (sample_lapsed, empty_outbox) sample_world =
     (Raised, (d', out'), w') \<and> revoked_off (sample_platform (\<lambda>_. Lost)) (peers_on table_awg w') d' \<and>
     d' = sample_lapsed"
proof -
  let ?run = "expire_due_subscriptions (sample_platform (\<lambda>_. Lost)) 10 (sample_lapsed, empty_outbox) sample_world"
  have "fst ?run = Raised" by code_simp
  then obtain d' out' w' where run: "?run = (Raised, (d', out'), w')" by (metis prod.collapse)
  have h: "device_rows sample_lapsed" "revoked_off (sample_platform (\<lambda>_. Lost)) (peers_on table_awg sample_world) sample_lapsed"
    "distinct (map u_id (users sample_lapsed))" by code_simp+
  from expire_due_subscriptions_exact [OF sample_provisioning run h] run show ?thesis by blast
qed

text \<open>
  An ended trial loses its device and nothing else.  A completed run accounts for every
  device of an ended trial, removed or failed; without a failure none is left for the next
  run; accounts are not changed, and no device but those of ended trials is; and again no
  device marked revoked is on a node, completed or not.
\<close>

theorem expire_due_trials_exact:
  assumes "provisioning P peers"
    and "expire_due_trials P now (d, out) w = (r, (d', out'), w')"
    and "device_rows d" and "revoked_off P (peers w) d" and "distinct (map u_id (users d))"
  shows "revoked_off P (peers w') d' \<and> (r = Raised \<longrightarrow> d' = d \<and> out' = out) \<and>
    (\<forall>st. r = Done st \<longrightarrow>
      trials_due st = int (length (due_trials d now)) \<and>
      trial_peers_removed st + trial_failures st = trials_due st \<and>
      (trial_failures st = 0 \<longrightarrow> due_trials d' now = []) \<and> users d' = users d \<and>
      (\<forall>c\<in>set (configs d). c \<notin> fst ` set (due_trials d now) \<longrightarrow> c \<in> set (configs d')))"
proof -
  define st0 where "st0 = \<lparr>trials_due = int (length (due_trials d now)), trial_peers_removed = 0, trial_failures = 0\<rparr>"
  obtain q d1 out1 w1 where q: "expire_trial_rows P now (due_trials d now) st0 (d, out) w = (q, (d1, out1), w1)"
    by (metis prod_cases4 surj_pair)
  have rows: "fst ` set (due_trials d now) \<subseteq> set (configs d)" using due_trials_rows by blast
  note spec = provisioning.expire_trial_rows_spec [OF assms(1) q assms(3,4) rows distinct_due_trials [OF assms(5,3)]]
  show ?thesis
  proof (cases q)
    case Raised
    then have "r = Raised" "d' = d" "out' = out" "w' = w1"
      using assms(2) q by (simp_all add: expire_due_trials_def st0_def Let_def)
    moreover have "revoked_off P (peers w1) d" using revoked_off_mono [OF assms(4)] conjunct1 [OF spec] by blast
    ultimately show ?thesis by simp
  next
    case (Done st)
    then have res: "r = Done st" "d' = d1" "w' = w1"
      using assms(2) q by (simp_all add: expire_due_trials_def st0_def Let_def)
    note fin = conjunct2 [OF spec, rule_format, OF Done, unfolded trials_handled_def]
    then obtain S where S: "configs d' = configs (deactivate S d)" "S \<subseteq> c_id ` fst ` set (due_trials d now)"
      "trial_failures st = 0 \<longrightarrow> S = c_id ` fst ` set (due_trials d now)"
      unfolding res by (auto simp: st0_def)
    have us: "users d' = users d" using fin res by simp
    have "c \<in> set (configs d')" if "c \<in> set (configs d)" "c \<notin> fst ` set (due_trials d now)" for c
    proof -
      have "c_id c \<notin> S"
      proof
        assume "c_id c \<in> S"
        then obtain x where "x \<in> fst ` set (due_trials d now)" "c_id x = c_id c" using S(2) by force
        moreover from this have "x = c"
          using assms(3) rows that(1) unfolding device_rows_def by (blast intro: distinct_map_eqD)
        ultimately show False using that(2) by simp
      qed
      then show ?thesis using that(1) by (auto simp: S(1) deactivate_def set_update_where image_iff)
    qed
    moreover have "trial_failures st = 0 \<longrightarrow> due_trials d' now = []"
    proof
      assume "trial_failures st = 0"
      with S(1,3) have "configs d' = configs (deactivate (c_id ` fst ` set (due_trials d now)) d)" by simp
      with us show "due_trials d' now = []" by (rule due_trials_deactivate)
    qed
    moreover have "revoked_off P (peers w') d'" "trials_due st = int (length (due_trials d now))"
      "trial_peers_removed st + trial_failures st = trials_due st"
      using res(2,3) fin by (simp_all add: st0_def)
    ultimately show ?thesis using res(1) us by blast
  qed
qed

definition sample_ended_trial :: db where
  "sample_ended_trial = empty_db\<lparr>users := [(sample_user ''ann'')\<lparr>trial_until := Some 3\<rparr>],
     configs := [(sample_device ''c1'' ''ann'' ''trial'' ''10.88.89.10'')\<lparr>public_key := sample_key CHR ''K''\<rparr>]\<rparr>"

theorem expire_due_trials_exact_witness:
  "\<exists>d' out' w' st. expire_due_trials (sample_platform (\<lambda>_. Answered)) 10 (sample_ended_trial, empty_outbox) sample_world =
     (Done st, (d', out'), w') \<and> trial_failures st = 1 \<and> trial_peers_removed st = 0 \<and> users d' = users sample_ended_trial"
proof -
  let ?run = "expire_due_trials (sample_platform (\<lambda>_. Answered)) 10 (sample_ended_trial, empty_outbox) sample_world"
  have f: "(case fst ?run of Done st \<Rightarrow> trial_failures st | Raised \<Rightarrow> 0) = 1" by code_simp
  then obtain st where st: "fst ?run = Done st" "trial_failures st = 1" by (cases "fst ?run") auto
  then obtain d' out' w' where run: "?run = (Done st, (d', out'), w')" by (metis prod.collapse)
  have h: "device_rows sample_ended_trial"
    "revoked_off (sample_platform (\<lambda>_. Answered)) (peers_on table_awg sample_world) sample_ended_trial"
    "distinct (map u_id (users sample_ended_trial))" "length (due_trials sample_ended_trial 10) = 1" by code_simp+
  from expire_due_trials_exact [OF sample_provisioning run h(1-3)] run st h(4) show ?thesis by auto
qed

subsection \<open>A sweep that breaks off\<close>

text \<open>
  The rows of a broken sweep are rolled back while the node keeps the removals already made.
  The wrapper answers "peer not found" for a key that is gone, so from then on the device of
  an account that was swept before the break can never be marked revoked: every later run
  counts it as a failure and the account stays subscribed.
\<close>

definition not_found :: std where
  "not_found = ([], ''error: peer not found in runtime or config'' @ nl)"

lemma absent_key_refused:
  assumes "is_key k" and "conf n = Some lines" and "\<not> list_ex (\<lambda>l. contains l k) lines"
    and "map_of (awg_table A (runtime n)) k = None" and "awg_reads A (runtime n)"
  shows "pwa_del_peer A [k] n = (not_found, n)"
  using assms by (simp add: pwa_del_peer_def allowed_ip_def die_def not_found_def)

text \<open>A node reduced to the answers it gives, one per call.\<close>

definition scripted_platform :: "std option list platform" where
  "scripted_platform = \<lparr>pf_env = (\<lambda>_. None), pf_loads = (\<lambda>_. None),
     pf_ssh = (\<lambda>h cmd answers. (hd answers, tl answers)), pf_encrypt = id, pf_decrypt = id\<rparr>"

definition two_lapsed :: db where
  "two_lapsed = empty_db\<lparr>
     users := [(sample_user ''ann'')\<lparr>is_subscribed := True, subscribed_until := Some 3\<rparr>,
               (sample_user ''bob'')\<lparr>is_subscribed := True, subscribed_until := Some 3\<rparr>],
     configs := [sample_device ''c1'' ''ann'' ''paid'' ''10.88.88.42'',
                 sample_device ''c2'' ''bob'' ''paid'' ''10.88.88.43'']\<rparr>"

definition removed :: std where
  "removed = (''ok: removed 10.88.88.42/32'' @ nl, [])"

definition broken_sweep :: "sub_stats outcome \<times> session \<times> std option list" where
  "broken_sweep = expire_due_subscriptions scripted_platform 10 (two_lapsed, empty_outbox) [Some removed, None]"


end
