(* ===== verification/Payments.thy ===== *)
theory Payments
  imports Provisioner
begin

section \<open>Orders, gateways and their callbacks\<close>

text \<open>
  \<open>pwa/services/heleket.py\<close>, \<open>pwa/services/platega.py\<close>, \<open>pwa/api/payment.py\<close> and
  \<open>pwa/api/admin_grant.py\<close>: an order is priced and recorded as pending, a gateway makes an
  invoice for it, and the gateway's callback ends in \<open>activate_payment\<close>.

  The web and the digest are not in the repository: the record \<open>web\<close> holds what an HTTP
  request is answered with and the MD5 function.  A response is a status code, the text of
  the exception \<open>raise_for_status\<close> would raise, and the decoded body (or the text of the
  decoding error); \<open>NoResponse\<close> is a request that failed with an exception.

  A handler gives a \<open>reply\<close>: \<open>Raised\<close> is an exception that is not an HTTP refusal (the
  framework answers 500), \<open>Done (Inl e)\<close> an \<open>HTTPException\<close>, \<open>Done (Inr v)\<close> the answer.  The
  session it returns is what has been committed.
\<close>

datatype response = NoResponse string | Response nat string "string + json"

datatype content = Text string | Json json

type_synonym headers = "(string \<times> string) list"

record web =
  web_post :: "string \<Rightarrow> headers \<Rightarrow> content \<Rightarrow> response"
  web_get :: "string \<Rightarrow> headers \<Rightarrow> response"
  web_md5 :: "string \<Rightarrow> string"

text \<open>\<open>resp.raise_for_status(); resp.json()\<close>\<close>

definition checked_json :: "response \<Rightarrow> string + json" where
  "checked_json r =
     (case r of
        NoResponse e \<Rightarrow> Inl e
      | Response c why body \<Rightarrow> if 200 \<le> c \<and> c < 300 then body else Inl why)"

text \<open>The \<open>AttributeError\<close> of \<open>.get\<close> on a value that is not an object.\<close>

definition no_get :: "json \<Rightarrow> string" where
  "no_get v =
     [quote_char] @
     (case v of JNull \<Rightarrow> ''NoneType'' | JBool _ \<Rightarrow> ''bool'' | JInt _ \<Rightarrow> ''int'' | JFloat _ _ \<Rightarrow> ''float''
      | JStr _ \<Rightarrow> ''str'' | JArr _ \<Rightarrow> ''list'' | JObj _ \<Rightarrow> ''dict'') @
     [quote_char] @ '' object has no attribute '' @ [quote_char] @ ''get'' @ [quote_char]"

subsection \<open>Heleket (\<open>services/heleket.py\<close>)\<close>

definition HELEKET_API :: string where
  "HELEKET_API = ''https://api.heleket.com/v1''"

definition HELEKET_MERCHANT_ID :: "env \<Rightarrow> string" where
  "HELEKET_MERCHANT_ID e = getenv e ''HELEKET_MERCHANT_ID'' []"

definition PAYMENT_API_KEY :: "env \<Rightarrow> string" where
  "PAYMENT_API_KEY e = getenv e ''HELEKET_API_KEY'' []"

definition serialize :: "(string \<times> json) list \<Rightarrow> string" where
  "serialize payload =
     concat (map (\<lambda>c. if c = CHR ''/'' then [backslash, CHR ''/''] else [c]) (dumps (JObj payload)))"

definition B64 :: string where
  "B64 = ''ABCDEFGHIJKLMNOPQRSTUVWXYZabcdefghijklmnopqrstuvwxyz0123456789+/''"

fun b64encode_bytes :: "nat list \<Rightarrow> string" where
  "b64encode_bytes [] = []"
| "b64encode_bytes [a] = [B64 ! (a div 4), B64 ! (a mod 4 * 16), CHR ''='', CHR ''='']"
| "b64encode_bytes [a, b] =
     [B64 ! (a div 4), B64 ! (a mod 4 * 16 + b div 16), B64 ! (b mod 16 * 4), CHR ''='']"
| "b64encode_bytes (a # b # c # rest) =
     [B64 ! (a div 4), B64 ! (a mod 4 * 16 + b div 16), B64 ! (b mod 16 * 4 + c div 64), B64 ! (c mod 64)] @
     b64encode_bytes rest"

definition b64encode :: "string \<Rightarrow> string" where
  "b64encode s = b64encode_bytes (map of_char s)"

definition make_sign :: "web \<Rightarrow> env \<Rightarrow> string \<Rightarrow> string" where
  "make_sign W e body_str = web_md5 W (b64encode body_str @ PAYMENT_API_KEY e)"

text \<open>The signed request; \<open>Inl\<close> is the text of the exception.\<close>

definition create_invoice ::
  "web \<Rightarrow> env \<Rightarrow> string \<Rightarrow> string \<Rightarrow> string \<Rightarrow> string \<Rightarrow> string \<Rightarrow> string \<Rightarrow> string + json"
where
  "create_invoice W e amount currency order_id url_callback url_return url_success =
     (let payload =
            [(''amount'', JStr amount), (''currency'', JStr currency), (''order_id'', JStr order_id),
             (''url_callback'', JStr url_callback)] @
            (if url_return \<noteq> [] then [(''url_return'', JStr url_return)] else []) @
            (if url_success \<noteq> [] then [(''url_success'', JStr url_success)] else []);
          body_str = serialize payload;
          hs = [(''merchant'', HELEKET_MERCHANT_ID e), (''sign'', make_sign W e body_str),
                (''Content-Type'', ''application/json'')]
      in case checked_json (web_post W (HELEKET_API @ ''/payment'') hs (Text body_str)) of
           Inl err \<Rightarrow> Inl err
         | Inr (JObj data) \<Rightarrow>
             Inr (case map_of data ''result'' of Some r \<Rightarrow> r | None \<Rightarrow> JObj data)
         | Inr v \<Rightarrow> Inl (no_get v))"

text \<open>
  \<open>None\<close> is a refused body.  A body that decodes to something without \<open>.get\<close> raises.
\<close>

definition verify_webhook :: "web \<Rightarrow> env \<Rightarrow> loads \<Rightarrow> string \<Rightarrow> (string \<times> json) list option outcome" where
  "verify_webhook W e loads raw_body =
     (case loads raw_body of
        None \<Rightarrow> Done None
      | Some (JObj data) \<Rightarrow>
          let received_sign = dict_get data ''sign'' in
          if \<not> truthy received_sign then Done None
          else
            let check = filter (\<lambda>(k, _). k \<noteq> ''sign'') data;
                expected = make_sign W e (serialize check)
            in if expected \<noteq> json_str received_sign then Done None else Done (Some data)
      | Some _ \<Rightarrow> Raised)"

subsection \<open>Platega (\<open>services/platega.py\<close>)\<close>

definition rstrip_slash :: "string \<Rightarrow> string" where
  "rstrip_slash s = rev (dropWhile (\<lambda>c. c = CHR ''/'') (rev s))"

definition BASE_URL :: "env \<Rightarrow> string" where
  "BASE_URL e = rstrip_slash (getenv e ''PLATEGA_BASE_URL'' ''https://app.platega.io'')"

definition PLATEGA_SECRET :: "env \<Rightarrow> string" where
  "PLATEGA_SECRET e = getenv e ''PLATEGA_SECRET'' []"

definition platega_headers :: "env \<Rightarrow> headers" where
  "platega_headers e =
     [(''X-MerchantId'', getenv e ''PLATEGA_MERCHANT_ID'' []), (''X-Secret'', PLATEGA_SECRET e),
      (''Content-Type'', ''application/json'')]"

definition post_json :: "web \<Rightarrow> env \<Rightarrow> string \<Rightarrow> (string \<times> json) list \<Rightarrow> string + json" where
  "post_json W e path payload =
     checked_json (web_post W (BASE_URL e @ path) (platega_headers e) (Json (JObj payload)))"

definition create_transaction ::
  "web \<Rightarrow> env \<Rightarrow> int \<Rightarrow> string \<Rightarrow> string \<Rightarrow> string \<Rightarrow> string \<Rightarrow> string \<Rightarrow> string + json"
where
  "create_transaction W e amount currency description return_url failed_url order_id =
     post_json W e ''/v2/transaction/process''
       ([(''paymentDetails'', JObj [(''amount'', JInt amount), (''currency'', JStr currency)]),
         (''description'', JStr description), (''return'', JStr return_url),
         (''failedUrl'', JStr failed_url)] @
        (if order_id \<noteq> [] then [(''orderId'', JStr order_id)] else []))"

text \<open>\<open>Inr None\<close> where Platega does not know the transaction.\<close>

definition fetch_status :: "web \<Rightarrow> env \<Rightarrow> string \<Rightarrow> string + json option" where
  "fetch_status W e transaction_id =
     (let resp = web_get W (BASE_URL e @ ''/transaction/'' @ transaction_id) (platega_headers e) in
      case resp of
        Response c _ _ \<Rightarrow>
          if c = 404 then Inr None
          else (case checked_json resp of Inl err \<Rightarrow> Inl err | Inr v \<Rightarrow> Inr (Some v))
      | NoResponse err \<Rightarrow> Inl err)"

definition secret_matches :: "env \<Rightarrow> string option \<Rightarrow> bool" where
  "secret_matches e supplied =
     (PLATEGA_SECRET e \<noteq> [] \<and> (case supplied of Some s \<Rightarrow> s | None \<Rightarrow> []) = PLATEGA_SECRET e)"

subsection \<open>Opening an order (\<open>api/payment.py\<close>)\<close>

definition SITE_URL :: "env \<Rightarrow> string" where
  "SITE_URL e = getenv e ''SITE_URL'' ''https://sov3r3ign.com''"

definition PAID_STATUSES :: "string list" where
  "PAID_STATUSES = [''paid'', ''paid_over'']"

record order_request =
  rq_plan :: string
  rq_code :: "string option"
  use_credit :: int

definition current_user :: "db \<Rightarrow> string \<Rightarrow> http_error + user" where
  "current_user d sub =
     (case user_by_name d sub of None \<Rightarrow> Inl (http 404 ''User not found'') | Some u \<Rightarrow> Inr u)"

text \<open>The number of paid devices in the fullest location.\<close>

definition fullest_location :: "user \<Rightarrow> db \<Rightarrow> int" where
  "fullest_location u d =
     (let held = filter (\<lambda>c. c_user_id c = u_id u \<and> c_is_active c \<and> c_kind c \<noteq> ''trial'') (configs d);
          per_location = map (\<lambda>l. count_where (\<lambda>c. c_location c = l) held) (remdups (map c_location held))
      in fold max per_location 0)"

definition new_order :: "user \<Rightarrow> order_request \<Rightarrow> quote \<Rightarrow> plan \<Rightarrow> string \<Rightarrow> datetime \<Rightarrow> payment" where
  "new_order u req q info i now =
     \<lparr>p_id = i, p_user_id = u_id u, p_plan = rq_plan req, p_amount = q_amount q,
      p_currency = plan_currency info, p_status = ''pending'', heleket_invoice_id = None,
      provider = None, provider_ref = None, p_promo_code = q_promo_code q,
      credit_spent = q_credit_spent q, p_created_at = now, paid_at = None\<rparr>"

definition open_order ::
  "user \<Rightarrow> order_request \<Rightarrow> datetime \<Rightarrow> db \<Rightarrow> (payment \<times> quote) reply \<times> db"
where
  "open_order u req now d =
     (if email_verified_at u = None \<and> telegram_id u = None
        then (Done (Inl (http 403 ''email_not_verified'')), d)
      else
        let held = fullest_location u d;
            limit = config_limit (Some (rq_plan req))
        in if held > limit
           then (Done (Inl \<lparr>status_code = 409, http_detail = TooManyDevices held limit\<rparr>), d)
           else
             case price_order d u (rq_plan req) (rq_code req) (use_credit req) now of
               None \<Rightarrow> (Raised, d)
             | Some quote \<Rightarrow>
                 if promo_refused quote \<noteq> None
                 then (Done (Inl (http 400 (case promo_refused_text quote of Some t \<Rightarrow> t | None \<Rightarrow> []))), d)
                 else
                   case map_of PLANS (rq_plan req) of
                     None \<Rightarrow> (Raised, d)
                   | Some info \<Rightarrow>
                       let (i, d1) = new_uuid d;
                           payment = new_order u req quote info i now
                       in (Done (Inr (payment, quote)), d1\<lparr>payments := payments d1 @ [payment]\<rparr>))"

definition quote_payment :: "string \<Rightarrow> order_request \<Rightarrow> datetime \<Rightarrow> db \<Rightarrow> quote reply" where
  "quote_payment sub req now d =
     (if map_of PLANS (rq_plan req) = None then Done (Inl (http 400 ''Unknown plan''))
      else
        case current_user d sub of
          Inl err \<Rightarrow> Done (Inl err)
        | Inr u \<Rightarrow>
            (case price_order d u (rq_plan req) (rq_code req) (use_credit req) now of
               None \<Rightarrow> Raised
             | Some quote \<Rightarrow> Done (Inr quote)))"

record created_order =
  co_url :: json
  co_payment_id :: string
  co_quote :: quote

definition create_payment ::
  "'w platform \<Rightarrow> web \<Rightarrow> string \<Rightarrow> order_request \<Rightarrow> datetime \<Rightarrow> db \<Rightarrow> created_order reply \<times> db"
where
  "create_payment P W sub req now d =
     (case map_of PLANS (rq_plan req) of
        None \<Rightarrow> (Done (Inl (http 400 ''Unknown plan'')), d)
      | Some info \<Rightarrow>
          (case current_user d sub of
             Inl err \<Rightarrow> (Done (Inl err), d)
           | Inr u \<Rightarrow>
               (case open_order u req now d of
                  (Raised, d1) \<Rightarrow> (Raised, d1)
                | (Done (Inl err), d1) \<Rightarrow> (Done (Inl err), d1)
                | (Done (Inr (payment, quote)), d1) \<Rightarrow>
                    let site = SITE_URL (pf_env P) in
                    (case create_invoice W (pf_env P) (str_int (q_amount quote)) (plan_currency info)
                            (p_id payment) (site @ ''/api/payment/webhook'') site site of
                       Inl err \<Rightarrow>
                         (Done (Inl (http 502 (''Payment gateway error: '' @ err))),
                          put_payment (payment\<lparr>p_status := ''error''\<rparr>) d1)
                     | Inr (JObj invoice) \<Rightarrow>
                         (case text_column (dict_get invoice ''uuid'') of
                            None \<Rightarrow> (Raised, d1)
                          | Some ref \<Rightarrow>
                              (Done (Inr \<lparr>co_url = dict_get invoice ''url'', co_payment_id = p_id payment,
                                          co_quote = quote\<rparr>),
                               put_payment (payment\<lparr>heleket_invoice_id := ref\<rparr>) d1))
                     | Inr _ \<Rightarrow> (Raised, d1)))))"

subsection \<open>Callbacks\<close>

definition get_payment :: "db \<Rightarrow> string \<Rightarrow> payment option" where
  "get_payment d i = List.find (\<lambda>p. p_id p = i) (payments d)"

text \<open>What both callbacks do with a confirmed payment: a failed activation is logged, not retried.\<close>

definition confirm ::
  "'w platform \<Rightarrow> payment \<Rightarrow> (string \<times> string \<times> string) option \<Rightarrow> datetime \<Rightarrow> session \<Rightarrow> 'w \<Rightarrow>
   unit reply \<times> session \<times> 'w"
where
  "confirm P payment kp now s w =
     (case get_user (fst s) (p_user_id payment) of
        None \<Rightarrow> (Done (Inr ()), s, w)
      | Some u \<Rightarrow>
          (case activate_payment P u payment kp now s w of
             (Raised, s1, w1) \<Rightarrow> (Raised, s1, w1)
           | (Done _, s1, w1) \<Rightarrow> (Done (Inr ()), s1, w1)))"

text \<open>
  The status a Heleket body carries: \<open>None\<close> where using it raises (an unhashable value in
  the membership test, a value that is not text in the column).
\<close>

definition webhook_status :: "json \<Rightarrow> string option" where
  "webhook_status v =
     (case v of
        JStr s \<Rightarrow> Some (if s = [] then ''unknown'' else s)
      | JArr _ \<Rightarrow> None
      | JObj _ \<Rightarrow> None
      | _ \<Rightarrow> if truthy v then None else Some ''unknown'')"

definition payment_webhook ::
  "'w platform \<Rightarrow> web \<Rightarrow> string \<Rightarrow> (string \<times> string \<times> string) option \<Rightarrow> datetime \<Rightarrow> session \<Rightarrow> 'w \<Rightarrow>
   unit reply \<times> session \<times> 'w"
where
  "payment_webhook P W raw kp now s w =
     (case verify_webhook W (pf_env P) (pf_loads P) raw of
        Raised \<Rightarrow> (Raised, s, w)
      | Done None \<Rightarrow> (Done (Inl (http 400 ''Invalid signature'')), s, w)
      | Done (Some data) \<Rightarrow>
          let order_id = dict_get data ''order_id''; status = dict_get data ''status'' in
          if \<not> truthy order_id then (Done (Inr ()), s, w)
          else
            (case order_id of
               JStr oid \<Rightarrow>
                 (case get_payment (fst s) oid of
                    None \<Rightarrow> (Done (Inr ()), s, w)
                  | Some payment \<Rightarrow>
                      if p_status payment = ''paid'' then (Done (Inr ()), s, w)
                      else
                        (case webhook_status status of
                           None \<Rightarrow> (Raised, s, w)
                         | Some st \<Rightarrow>
                             if st \<in> set PAID_STATUSES then confirm P payment kp now s w
                             else (Done (Inr ()),
                                   (put_payment (payment\<lparr>p_status := st\<rparr>) (fst s), snd s), w)))
             | _ \<Rightarrow> (Raised, s, w)))"

text \<open>The long dash of the description is written as a hyphen.\<close>

definition create_payment_platega ::
  "'w platform \<Rightarrow> web \<Rightarrow> string \<Rightarrow> order_request \<Rightarrow> datetime \<Rightarrow> db \<Rightarrow> created_order reply \<times> db"
where
  "create_payment_platega P W sub req now d =
     (case map_of PLANS (rq_plan req) of
        None \<Rightarrow> (Done (Inl (http 400 ''Unknown plan'')), d)
      | Some info \<Rightarrow>
          (case current_user d sub of
             Inl err \<Rightarrow> (Done (Inl err), d)
           | Inr u \<Rightarrow>
               (case open_order u req now d of
                  (Raised, d1) \<Rightarrow> (Raised, d1)
                | (Done (Inl err), d1) \<Rightarrow> (Done (Inl err), d1)
                | (Done (Inr (order, quote)), d1) \<Rightarrow>
                    let payment = order\<lparr>provider := Some ''platega''\<rparr>;
                        d2 = put_payment payment d1;
                        site = SITE_URL (pf_env P);
                        refused = (Done (Inl (http 502 ''Payment gateway error'')),
                                   put_payment (payment\<lparr>p_status := ''error''\<rparr>) d2)
                    in (case create_transaction W (pf_env P) (q_amount quote) (plan_currency info)
                               (''Sovereign - '' @ rq_plan req) (site @ ''/app?paid=1'')
                               (site @ ''/app?paid=0'') (p_id payment) of
                          Inl _ \<Rightarrow> refused
                        | Inr (JObj created) \<Rightarrow>
                            let txn = dict_get created ''transactionId''; url = dict_get created ''url'' in
                            if \<not> truthy txn \<or> \<not> truthy url then refused
                            else
                              (case text_column txn of
                                 None \<Rightarrow> (Raised, d2)
                               | Some ref \<Rightarrow>
                                   (Done (Inr \<lparr>co_url = url, co_payment_id = p_id payment,
                                               co_quote = quote\<rparr>),
                                    put_payment (payment\<lparr>provider_ref := ref\<rparr>) d2))
                        | Inr _ \<Rightarrow> (Raised, d2)))))"

definition platega_payment :: "db \<Rightarrow> string \<Rightarrow> payment list" where
  "platega_payment d txn =
     filter (\<lambda>p. provider_ref p = Some txn \<and> provider p = Some ''platega'') (payments d)"

text \<open>The amount Platega reports: \<open>None\<close> where reading it raises.\<close>

definition reported_amount :: "(string \<times> json) list \<Rightarrow> json option" where
  "reported_amount status =
     (let details = dict_get status ''paymentDetails'' in
      if \<not> truthy details then Some JNull
      else case details of JObj paid \<Rightarrow> Some (dict_get paid ''amount'') | _ \<Rightarrow> None)"

text \<open>\<open>body\<close> is the decoded body of the request, \<open>None\<close> where decoding raises.\<close>

definition platega_callback ::
  "'w platform \<Rightarrow> web \<Rightarrow> string option \<Rightarrow> json option \<Rightarrow> (string \<times> string \<times> string) option \<Rightarrow> datetime \<Rightarrow>
   session \<Rightarrow> 'w \<Rightarrow> unit reply \<times> session \<times> 'w"
where
  "platega_callback P W x_secret body kp now s w =
     (if \<not> secret_matches (pf_env P) x_secret then (Done (Inl (http 403 ''Forbidden'')), s, w)
      else
        case body of
          Some (JObj b) \<Rightarrow>
            let i = dict_get b ''id''; txn = (if truthy i then json_str i else []) in
            if txn = [] then (Done (Inr ()), s, w)
            else
              (case platega_payment (fst s) txn of
                 [] \<Rightarrow> (Done (Inr ()), s, w)
               | [payment] \<Rightarrow>
                   if p_status payment = ''paid'' then (Done (Inr ()), s, w)
                   else
                     (case fetch_status W (pf_env P) txn of
                        Inl _ \<Rightarrow> (Done (Inl (http 502 ''Could not verify'')), s, w)
                      | Inr None \<Rightarrow> (Done (Inl (http 502 ''Could not verify'')), s, w)
                      | Inr (Some JNull) \<Rightarrow> (Done (Inl (http 502 ''Could not verify'')), s, w)
                      | Inr (Some (JObj status)) \<Rightarrow>
                          let real = dict_get status ''status'' in
                          if real = JStr ''CONFIRMED'' then
                            (case reported_amount status of
                               None \<Rightarrow> (Raised, s, w)
                             | Some paid_amount \<Rightarrow>
                                 if paid_amount = JNull then (Done (Inr ()), s, w)
                                 else
                                   (case json_int paid_amount of
                                      None \<Rightarrow> (Raised, s, w)
                                    | Some n \<Rightarrow>
                                        if n \<noteq> p_amount payment then (Done (Inr ()), s, w)
                                        else confirm P payment kp now s w))
                          else if real = JStr ''CHARGEBACKED'' then
                            (Done (Inr ()), (put_payment (payment\<lparr>p_status := ''chargebacked''\<rparr>) (fst s), snd s), w)
                          else if real = JStr ''CANCELED'' then
                            (Done (Inr ()), (put_payment (payment\<lparr>p_status := ''canceled''\<rparr>) (fst s), snd s), w)
                          else (Done (Inr ()), s, w)
                      | Inr (Some _) \<Rightarrow> (Raised, s, w))
               | _ \<Rightarrow> (Raised, s, w))
        | _ \<Rightarrow> (Raised, s, w))"

subsection \<open>Access without a payment (\<open>api/admin_grant.py\<close>)\<close>

text \<open>
  The answer is the account's plan, its device limit and its end.  The row of a grant that
  opened nothing is deleted again.
\<close>

definition grant_order :: "user \<Rightarrow> string \<Rightarrow> string \<Rightarrow> datetime \<Rightarrow> payment" where
  "grant_order u plan i now =
     \<lparr>p_id = i, p_user_id = u_id u, p_plan = plan, p_amount = 0, p_currency = ''RUB'',
      p_status = ''pending'', heleket_invoice_id = None, provider = Some ''manual'',
      provider_ref = None, p_promo_code = None, credit_spent = 0, p_created_at = now, paid_at = None\<rparr>"

definition delete_payment :: "payment \<Rightarrow> db \<Rightarrow> db" where
  "delete_payment p d = d\<lparr>payments := filter (\<lambda>x. p_id x \<noteq> p_id p) (payments d)\<rparr>"

definition grant ::
  "'w platform \<Rightarrow> string \<Rightarrow> string \<Rightarrow> (string \<times> string \<times> string) option \<Rightarrow> datetime \<Rightarrow> session \<Rightarrow> 'w \<Rightarrow>
   (string \<times> string option \<times> int \<times> datetime option) reply \<times> session \<times> 'w"
where
  "grant P uname plan kp now s w =
     (if map_of PLANS plan = None then (Done (Inl (http 422 ''Unknown plan'')), s, w)
      else
        case user_by_name (fst s) (strip uname) of
          None \<Rightarrow> (Done (Inl (http 404 ''User not found'')), s, w)
        | Some u \<Rightarrow>
            if \<not> u_is_active u then (Done (Inl (http 409 ''Account is disabled'')), s, w)
            else
              let (i, d1) = new_uuid (fst s);
                  payment = grant_order u plan i now;
                  s1 = (d1\<lparr>payments := payments d1 @ [payment]\<rparr>, snd s)
              in (case activate_payment P u payment kp now s1 w of
                    (Raised, s2, w2) \<Rightarrow> (Raised, s2, w2)
                  | (Done False, s2, w2) \<Rightarrow>
                      (Done (Inl (http 502 ''No device could be issued; nothing was granted'')),
                       (delete_payment payment (fst s2), snd s2), w2)
                  | (Done True, s2, w2) \<Rightarrow>
                      (case get_user (fst s2) (u_id u) of
                         None \<Rightarrow> (Raised, s2, w2)
                       | Some u2 \<Rightarrow>
                           (Done (Inr (username u2, u_plan u2, config_limit (u_plan u2), subscribed_until u2)),
                            s2, w2))))"

subsection \<open>Lemmas: what a callback can do\<close>

text \<open>The three ways a Platega callback can end.\<close>

lemma platega_callback_cases:
  assumes "platega_callback P W x_secret body kp now s w = (r, s', w')"
  obtains (ignored) "s' = s" "w' = w"
  | (confirmed) payment txn status details where "secret_matches (pf_env P) x_secret"
      "platega_payment (fst s) txn = [payment]" "p_status payment \<noteq> ''paid''"
      "fetch_status W (pf_env P) txn = Inr (Some (JObj status))"
      "dict_get status ''status'' = JStr ''CONFIRMED''" "dict_get status ''paymentDetails'' = JObj details"
      "json_int (dict_get details ''amount'') = Some (p_amount payment)"
      "confirm P payment kp now s w = (r, s', w')"
  | (recorded) payment txn status st where "secret_matches (pf_env P) x_secret"
      "platega_payment (fst s) txn = [payment]" "p_status payment \<noteq> ''paid''"
      "fetch_status W (pf_env P) txn = Inr (Some (JObj status))"
      "dict_get status ''status'' = JStr st" "st = ''CHARGEBACKED'' \<or> st = ''CANCELED''"
      "s' = (put_payment (payment\<lparr>p_status := lower st\<rparr>) (fst s), snd s)" "w' = w"
proof (cases "s' = s \<and> w' = w")
  case True
  with ignored show ?thesis by blast
next
  case False
  note run = assms [unfolded platega_callback_def]
  from run False obtain b where sec: "secret_matches (pf_env P) x_secret" and body: "body = Some (JObj b)"
    by (auto split: if_splits option.splits json.splits)
  define txn where "txn = (if truthy (dict_get b ''id'') then json_str (dict_get b ''id'') else [])"
  note run = run [unfolded body option.case json.case Let_def, folded txn_def]
  from run sec False obtain payment where p: "platega_payment (fst s) txn = [payment]"
      "p_status payment \<noteq> ''paid''"
    by (auto split: if_splits list.splits)
  from run sec p False obtain status where st: "fetch_status W (pf_env P) txn = Inr (Some (JObj status))"
    by (auto split: if_splits sum.splits option.splits json.splits)
  let ?real = "dict_get status ''status''"
  consider "?real = JStr ''CONFIRMED''" | "?real = JStr ''CHARGEBACKED''" | "?real = JStr ''CANCELED''"
    using run sec p st False by (auto split: if_splits)
  then show ?thesis
  proof cases
    case 1
    then obtain details where "dict_get status ''paymentDetails'' = JObj details"
      "json_int (dict_get details ''amount'') = Some (p_amount payment)"
      "confirm P payment kp now s w = (r, s', w')"
      using run sec p st False
      by (auto simp: reported_amount_def Let_def split: if_splits option.splits json.splits)
    with confirmed sec p st 1 show ?thesis by blast
  next
    case 2
    with run sec p st False have "s' = (put_payment (payment\<lparr>p_status := ''chargebacked''\<rparr>) (fst s), snd s)" "w' = w"
      by (auto split: if_splits)
    moreover have "lower ''CHARGEBACKED'' = ''chargebacked''" by code_simp
    ultimately show ?thesis using recorded [OF sec p st 2] by simp
  next
    case 3
    with run sec p st False have "s' = (put_payment (payment\<lparr>p_status := ''canceled''\<rparr>) (fst s), snd s)" "w' = w"
      by (auto split: if_splits)
    moreover have "lower ''CANCELED'' = ''canceled''" by code_simp
    ultimately show ?thesis using recorded [OF sec p st 3] by simp
  qed
qed

lemma payment_webhook_cases:
  assumes "payment_webhook P W raw kp now s w = (r, s', w')"
  obtains (ignored) "s' = s" "w' = w"
  | (confirmed) payment data where "verify_webhook W (pf_env P) (pf_loads P) raw = Done (Some data)"
      "payment \<in> set (payments (fst s))" "dict_get data ''order_id'' = JStr (p_id payment)"
      "p_status payment \<noteq> ''paid''"
      "dict_get data ''status'' = JStr ''paid'' \<or> dict_get data ''status'' = JStr ''paid_over''"
      "confirm P payment kp now s w = (r, s', w')"
  | (recorded) payment data st where "verify_webhook W (pf_env P) (pf_loads P) raw = Done (Some data)"
      "payment \<in> set (payments (fst s))" "dict_get data ''order_id'' = JStr (p_id payment)"
      "p_status payment \<noteq> ''paid''" "webhook_status (dict_get data ''status'') = Some st" "st \<notin> set PAID_STATUSES"
      "s' = (put_payment (payment\<lparr>p_status := st\<rparr>) (fst s), snd s)" "w' = w"
proof (cases "s' = s \<and> w' = w")
  case True
  with ignored show ?thesis by blast
next
  case False
  note run = assms [unfolded payment_webhook_def]
  from run False obtain data oid where ver: "verify_webhook W (pf_env P) (pf_loads P) raw = Done (Some data)"
      and oid: "dict_get data ''order_id'' = JStr oid"
    by (auto simp: Let_def split: if_splits option.splits outcome.splits json.splits)
  from run False ver oid obtain payment where p: "get_payment (fst s) oid = Some payment"
      and np: "p_status payment \<noteq> ''paid''"
    by (auto simp: Let_def split: if_splits option.splits)
  have mem: "payment \<in> set (payments (fst s))" "p_id payment = oid"
    using p by (auto simp: get_payment_def dest: find_SomeD)
  from run False ver oid p np obtain st where st: "webhook_status (dict_get data ''status'') = Some st"
    by (auto simp: Let_def split: if_splits option.splits)
  show ?thesis
  proof (cases "st \<in> set PAID_STATUSES")
    case True
    with st have "dict_get data ''status'' = JStr ''paid'' \<or> dict_get data ''status'' = JStr ''paid_over''"
      by (auto simp: webhook_status_def PAID_STATUSES_def split: json.splits if_splits)
    moreover have "confirm P payment kp now s w = (r, s', w')"
      using run ver oid p np st True False by (auto simp: Let_def split: if_splits)
    ultimately show ?thesis using confirmed ver mem oid np by blast
  next
    case no: False
    then have "s' = (put_payment (payment\<lparr>p_status := st\<rparr>) (fst s), snd s)" "w' = w"
      using run ver oid p np st False by (auto simp: Let_def split: if_splits)
    then show ?thesis using recorded ver mem oid np st no by blast
  qed
qed

lemma confirm_payments:
  assumes "confirm P p kp now (d, out) w = (r, (d', out'), w')"
  shows "d' = d \<or> payments d' = payments (put_payment (mark_paid now p) d)"
proof (cases "get_user d (p_user_id p)")
  case None
  with assms show ?thesis by (simp add: confirm_def)
next
  case (Some u)
  obtain q s1 w1 where q: "activate_payment P u p kp now (d, out) w = (q, s1, w1)"
    by (rule prod_cases3)
  then have "s1 = (d', out')" using assms Some by (auto simp: confirm_def split: outcome.splits)
  with q activate_payment_tables [of P u p kp now d out w q d' out' w1] show ?thesis by auto
qed

text \<open>Writing a row that was not paid leaves the paid ones alone.\<close>

lemma put_payment_keeps_paid:
  assumes "distinct (map p_id (payments d))" and "p \<in> set (payments d)" and "p_status p \<noteq> ''paid''"
    and "p_id p' = p_id p" and "q \<in> set (payments d)" and "p_status q = ''paid''"
  shows "q \<in> set (payments (put_payment p' d))"
proof -
  have "p_id q \<noteq> p_id p'" using assms by (metis distinct_map_eqD)
  with assms(5) show ?thesis by (auto simp: put_payment_def set_update_where intro: rev_image_eqI)
qed

lemma confirm_keeps_paid:
  assumes "confirm P p kp now (d, out) w = (r, (d', out'), w')"
    and "distinct (map p_id (payments d))" and "p \<in> set (payments d)" and "p_status p \<noteq> ''paid''"
    and "q \<in> set (payments d)" and "p_status q = ''paid''"
  shows "q \<in> set (payments d')"
  using confirm_payments [OF assms(1)] put_payment_keeps_paid [OF assms(2-4) _ assms(5,6), of "mark_paid now p"] assms(5)
  by (auto simp: mark_paid_def)

subsection \<open>Lemmas: opening an order\<close>

lemma fold_max_ge:
  fixes a :: int
  shows "a \<le> fold max xs a \<and> (\<forall>x\<in>set xs. x \<le> fold max xs a)"
proof (induction xs arbitrary: a)
  case (Cons x xs)
  have "max x a \<le> fold max xs (max x a)" "\<forall>y\<in>set xs. y \<le> fold max xs (max x a)"
    using Cons.IH [of "max x a"] by auto
  then show ?case by auto
qed simp

text \<open>No location holds more of an account's paid devices than \<open>fullest_location\<close>.\<close>

definition devices_at :: "user \<Rightarrow> string \<Rightarrow> db \<Rightarrow> int" where
  "devices_at u l d =
     count_where (\<lambda>c. c_user_id c = u_id u \<and> c_is_active c \<and> c_kind c \<noteq> ''trial'' \<and> c_location c = l) (configs d)"

lemma fullest_location_max: "devices_at u l d \<le> fullest_location u d"
proof -
  define held where "held = filter (\<lambda>c. c_user_id c = u_id u \<and> c_is_active c \<and> c_kind c \<noteq> ''trial'') (configs d)"
  have at: "devices_at u l d = count_where (\<lambda>c. c_location c = l) held"
    by (simp add: devices_at_def held_def count_where_def conj_assoc conj_commute conj_left_commute)
  have f: "fullest_location u d =
      fold max (map (\<lambda>l. count_where (\<lambda>c. c_location c = l) held) (remdups (map c_location held))) 0"
    by (simp add: fullest_location_def held_def Let_def)
  show ?thesis
  proof (cases "l \<in> c_location ` set held")
    case True
    then show ?thesis unfolding at f by (intro bspec [OF conjunct2 [OF fold_max_ge]]) auto
  next
    case False
    then have "count_where (\<lambda>c. c_location c = l) held = 0" by (auto simp: count_where_0_iff)
    then show ?thesis unfolding at f using conjunct1 [OF fold_max_ge] by simp
  qed
qed

definition other_tables_same :: "db \<Rightarrow> db \<Rightarrow> bool" where
  "other_tables_same d d' =
     (users d' = users d \<and> configs d' = configs d \<and> credit_entries d' = credit_entries d \<and>
      promo_codes d' = promo_codes d \<and> referral_rewards d' = referral_rewards d \<and>
      notifications d' = notifications d \<and> trial_grants d' = trial_grants d)"

lemma open_order_cases:
  assumes "open_order u req now d = (r, d')"
  obtains (refused) "d' = d" "\<And>x. r \<noteq> Done (Inr x)"
  | (opened) p q info where "r = Done (Inr (p, q))"
      "email_verified_at u \<noteq> None \<or> telegram_id u \<noteq> None"
      "fullest_location u d \<le> config_limit (Some (rq_plan req))"
      "price_order d u (rq_plan req) (rq_code req) (use_credit req) now = Some q" "promo_refused q = None"
      "map_of PLANS (rq_plan req) = Some info"
      "p = new_order u req q info (uuid_tape d (uuid_pos d)) now"
      "d' = (snd (new_uuid d))\<lparr>payments := payments d @ [p]\<rparr>"
proof (cases "\<exists>x. r = Done (Inr x)")
  case False
  with assms have "d' = d" by (auto simp: open_order_def Let_def new_uuid_def split: if_splits option.splits)
  with False refused show ?thesis by blast
next
  case True
  then obtain p q where r: "r = Done (Inr (p, q))" by auto
  note run = assms [unfolded open_order_def Let_def r]
  from run have h: "email_verified_at u \<noteq> None \<or> telegram_id u \<noteq> None"
    "fullest_location u d \<le> config_limit (Some (rq_plan req))"
    by (auto split: if_splits)
  with run obtain q' where q': "price_order d u (rq_plan req) (rq_code req) (use_credit req) now = Some q'"
      "promo_refused q' = None"
    by (auto split: if_splits option.splits)
  with run h obtain info where info: "map_of PLANS (rq_plan req) = Some info"
    by (auto split: if_splits option.splits)
  with run h q' have "q' = q" "p = new_order u req q info (uuid_tape d (uuid_pos d)) now"
      "d' = (snd (new_uuid d))\<lparr>payments := payments d @ [p]\<rparr>"
    by (auto simp: new_uuid_def split: if_splits)
  with opened r h q' info show ?thesis by blast
qed

lemma put_payment_last:
  assumes "p_id p \<notin> p_id ` set ps" and "payments d = ps @ [p]" and "p_id p' = p_id p"
  shows "put_payment p' d = d\<lparr>payments := ps @ [p']\<rparr>"
proof -
  have "update_where (\<lambda>x. p_id x = p_id p') (\<lambda>_. p') ps = ps"
    by (rule update_where_id) (use assms in \<open>auto simp: image_iff\<close>)
  then show ?thesis using assms by (simp add: put_payment_def update_where_def)
qed

text \<open>The rows an order leaves, whatever the gateway answered.\<close>

definition fresh_payment_id :: "db \<Rightarrow> bool" where
  "fresh_payment_id d = (uuid_tape d (uuid_pos d) \<notin> p_id ` set (payments d))"

lemma create_payment_platega_cases:
  assumes "create_payment_platega P W sub req now d = (r, d')" and "fresh_payment_id d"
  obtains (refused) "d' = d" "\<And>x. r \<noteq> Done (Inr x)"
  | (recorded) u q p where "user_by_name d sub = Some u"
      "fullest_location u d \<le> config_limit (Some (rq_plan req))"
      "price_order d u (rq_plan req) (rq_code req) (use_credit req) now = Some q" "promo_refused q = None"
      "p_user_id p = u_id u" "p_plan p = rq_plan req" "p_amount p = q_amount q"
      "credit_spent p = q_credit_spent q" "p_promo_code p = q_promo_code q" "provider p = Some ''platega''"
      "p_id p = uuid_tape d (uuid_pos d)"
      "d' = (snd (new_uuid d))\<lparr>payments := payments d @ [p]\<rparr>"
      "(\<forall>x. r \<noteq> Done (Inr x)) \<and> provider_ref p = None \<and> (p_status p = ''error'' \<or> r = Raised) \<or>
       (\<exists>url txn. r = Done (Inr \<lparr>co_url = url, co_payment_id = p_id p, co_quote = q\<rparr>) \<and>
          provider_ref p = Some txn \<and> txn \<noteq> [] \<and> p_status p = ''pending'')"
proof (cases "map_of PLANS (rq_plan req)")
  case None
  with assms show ?thesis by (intro refused) (auto simp: create_payment_platega_def)
next
  case info: (Some info)
  show ?thesis
  proof (cases "user_by_name d sub")
    case None
    with assms info show ?thesis by (intro refused) (auto simp: create_payment_platega_def current_user_def)
  next
    case u: (Some u)
    obtain o1 d1 where o1: "open_order u req now d = (o1, d1)" by force
    note run = assms(1) [unfolded create_payment_platega_def info option.case current_user_def u sum.case o1 prod.case]
    from o1 show ?thesis
    proof (cases rule: open_order_cases)
      case refused
      with run show ?thesis by (intro that(1)) (auto split: outcome.splits sum.splits)
    next
      case (opened p q info')
      define p0 where "p0 = p\<lparr>provider := Some ''platega''\<rparr>"
      define ans where "ans = create_transaction W (pf_env P) (q_amount q) (plan_currency info)
          (''Sovereign - '' @ rq_plan req) (SITE_URL (pf_env P) @ ''/app?paid=1'')
          (SITE_URL (pf_env P) @ ''/app?paid=0'') (p_id p0)"
      have fresh: "p_id p \<notin> p_id ` set (payments d)"
        using assms(2) opened(7) by (simp add: fresh_payment_id_def new_order_def)
      have put: "put_payment p' (put_payment p0 d1) = (snd (new_uuid d))\<lparr>payments := payments d @ [p']\<rparr>"
          "put_payment p0 d1 = (snd (new_uuid d))\<lparr>payments := payments d @ [p0]\<rparr>"
        if "p_id p' = p_id p" for p'
        using that put_payment_last [OF fresh, of d1 p0] put_payment_last [of p0 "payments d" "put_payment p0 d1" p'] fresh
        by (simp_all add: opened(8) p0_def new_uuid_def)
      note rec = that(2) [OF u opened(3-5)]
      show ?thesis
      proof (cases "r = Done (Inl (http 502 ''Payment gateway error'')) \<and>
          d' = put_payment (p0\<lparr>p_status := ''error''\<rparr>) (put_payment p0 d1)")
        case True
        show ?thesis
          by (rule rec [of "p0\<lparr>p_status := ''error''\<rparr>"])
            (use True put(1) [of "p0\<lparr>p_status := ''error''\<rparr>"] in
              \<open>simp_all add: p0_def opened(7) new_order_def\<close>)
      next
        case False
        note run' = run [unfolded opened(1) outcome.case sum.case prod.case Let_def, folded p0_def, folded ans_def]
        show ?thesis
        proof (cases "r = Raised")
          case True
          with run' False have "d' = put_payment p0 d1"
            by (auto split: sum.splits json.splits if_splits option.splits)
          with True put(2) [of p] show ?thesis
            by (intro rec [of p0]) (simp_all add: p0_def opened(7) new_order_def)
        next
          case no: False
          with run' False obtain kvs ref where "ans = Inr (JObj kvs)" "truthy (dict_get kvs ''transactionId'')"
              "text_column (dict_get kvs ''transactionId'') = Some ref"
              and r: "r = Done (Inr \<lparr>co_url = dict_get kvs ''url'', co_payment_id = p_id p0, co_quote = q\<rparr>)"
              and d': "d' = put_payment (p0\<lparr>provider_ref := ref\<rparr>) (put_payment p0 d1)"
            by (auto split: sum.splits json.splits if_splits option.splits)
          then obtain txn where "ref = Some txn" "txn \<noteq> []"
            by (cases "dict_get kvs ''transactionId''") auto
          with r d' put(1) [of "p0\<lparr>provider_ref := ref\<rparr>"] show ?thesis
            by (intro rec [of "p0\<lparr>provider_ref := ref\<rparr>"]) (simp_all add: p0_def opened(7) new_order_def)
        qed
      qed
    qed
  qed
qed

lemma create_payment_keeps:
  assumes "create_payment P W sub req now d = (r, d')" and "fresh_payment_id d" and "x \<in> set (payments d)"
  shows "x \<in> set (payments d')"
proof -
  have put: "x \<in> set (payments (put_payment p' d1))"
    if "open_order u req now d = (Done (Inr (p, q)), d1)" and "p_id p' = p_id p" for u p q d1 p'
    using that(1)
  proof (cases rule: open_order_cases)
    case (opened p1 q1 info)
    have "p_id p \<notin> p_id ` set (payments d)"
      using assms(2) opened(1,7) by (simp add: fresh_payment_id_def new_order_def)
    with opened put_payment_last [of p "payments d" d1 p'] that(2) assms(3) show ?thesis by simp
  qed auto
  have op: "x \<in> set (payments d1)" if "open_order u req now d = (o1, d1)" for u o1 d1
    using that by (cases rule: open_order_cases) (use assms(3) in auto)
  show ?thesis
    using assms(1,3)
    by (auto simp: create_payment_def Let_def intro: op
        split: option.splits sum.splits prod.splits outcome.splits json.splits
        intro!: put)
qed

lemma grant_cases:
  assumes "grant P uname plan kp now (d, out) w = (r, (d', out'), w')" and "fresh_payment_id d"
  obtains (refused) "d' = d" "out' = out" "w' = w" "\<exists>e. r = Done (Inl e)"
  | (failed) "payments d' = payments d" "users d' = users d" "configs d' = configs d"
      "credit_entries d' = credit_entries d" "referral_rewards d' = referral_rewards d" "out' = out"
      "r = Done (Inl (http 502 ''No device could be issued; nothing was granted''))"
  | (broken) u p where "p = grant_order u plan (uuid_tape d (uuid_pos d)) now"
      "d' = (snd (new_uuid d))\<lparr>payments := payments d @ [p]\<rparr>" "out' = out" "r = Raised"
  | (granted) u p d1 where "user_by_name d (strip uname) = Some u" "u_is_active u"
      "p = grant_order u plan (uuid_tape d (uuid_pos d)) now"
      "d1 = (snd (new_uuid d))\<lparr>payments := payments d @ [p]\<rparr>"
      "activate_payment P u p kp now (d1, out) w = (Done True, (d', out'), w')"
      "payments d' = payments d @ [mark_paid now p]" "\<And>e. r \<noteq> Done (Inl e)"
proof (cases "map_of PLANS plan = None \<or> user_by_name d (strip uname) = None")
  case True
  with assms(1) show ?thesis by (intro refused) (auto simp: grant_def split: option.splits if_splits)
next
  case False
  then obtain u where u: "user_by_name d (strip uname) = Some u" and plan: "map_of PLANS plan \<noteq> None" by auto
  define p where "p = grant_order u plan (uuid_tape d (uuid_pos d)) now"
  define d1 where "d1 = (snd (new_uuid d))\<lparr>payments := payments d @ [p]\<rparr>"
  obtain q d2 out2 w2 where q: "activate_payment P u p kp now (d1, out) w = (q, (d2, out2), w2)"
    by (metis prod.collapse)
  have fresh: "p_id p \<notin> p_id ` set (payments d)"
    using assms(2) by (simp add: fresh_payment_id_def p_def grant_order_def)
  show ?thesis
  proof (cases "u_is_active u")
    case False
    with assms(1) u plan show ?thesis by (intro refused) (auto simp: grant_def)
  next
    case act: True
    have "activate_payment P u (grant_order u plan (uuid_tape d (uuid_pos d)) now) kp now
        (d\<lparr>uuid_pos := Suc (uuid_pos d), payments := payments d @
          [grant_order u plan (uuid_tape d (uuid_pos d)) now]\<rparr>, out) w = (q, (d2, out2), w2)"
      using q by (simp add: d1_def p_def new_uuid_def)
    then have run: "grant P uname plan kp now (d, out) w = (case (q, (d2, out2), w2) of
          (Raised, s2, w2) \<Rightarrow> (Raised, s2, w2)
        | (Done False, s2, w2) \<Rightarrow>
            (Done (Inl (http 502 ''No device could be issued; nothing was granted'')),
             (delete_payment p (fst s2), snd s2), w2)
        | (Done True, s2, w2) \<Rightarrow>
            (case get_user (fst s2) (u_id u) of None \<Rightarrow> (Raised, s2, w2)
             | Some u2 \<Rightarrow>
                 (Done (Inr (username u2, u_plan u2, config_limit (u_plan u2), subscribed_until u2)), s2, w2)))"
      using plan u act by (auto simp: grant_def Let_def new_uuid_def p_def split: outcome.split bool.split)
    note run = run [unfolded assms(1)]
    note tab = activate_payment_tables [OF q]
    consider "q = Raised" | "q = Done False" | "q = Done True"
      by (cases q) auto
    then show ?thesis
    proof cases
      case 1
      with run plan act tab show ?thesis
        by (intro broken [OF p_def]) (auto simp: d1_def)
    next
      case 2
      have "filter (\<lambda>x. p_id x \<noteq> p_id p) (payments d) = payments d"
        using fresh by (simp add: filter_id_conv image_iff) metis
      with 2 run plan act tab show ?thesis
        by (intro failed) (auto simp: delete_payment_def d1_def new_uuid_def)
    next
      case 3
      with run plan act have eq: "d' = d2" "out' = out2" "w' = w2"
        and ne: "\<And>e. r \<noteq> Done (Inl e)" by (auto split: option.splits)
      have "payments d2 = payments (put_payment (mark_paid now p) d1)" using 3 tab by blast
      also have "\<dots> = payments d @ [mark_paid now p]"
        using put_payment_last [OF fresh, of d1 "mark_paid now p"] by (simp add: d1_def mark_paid_def)
      finally show ?thesis using granted [OF u act p_def d1_def] q 3 eq ne by simp
    qed
  qed
qed

subsection \<open>Properties\<close>

text \<open>
  C17: a forged callback changes nothing.  Whatever is posted to the Platega callback, the
  database, the outbox and the nodes change only when the caller knew the shared secret and
  Platega itself, asked for the transaction of an order that was not paid yet, answered
  \<open>CONFIRMED\<close> with exactly the amount recorded in the order (and then the order is
  activated), or \<open>CHARGEBACKED\<close> or \<open>CANCELED\<close> (and then only the order's status is written).
  The body of the callback decides nothing but which transaction is asked about.
\<close>

theorem platega_callback_only_nudges:
  assumes "platega_callback P W x_secret body kp now s w = (r, s', w')" and "s' \<noteq> s \<or> w' \<noteq> w"
  shows "secret_matches (pf_env P) x_secret \<and>
    (\<exists>payment txn status. payment \<in> set (payments (fst s)) \<and> provider_ref payment = Some txn \<and>
       provider payment = Some ''platega'' \<and> p_status payment \<noteq> ''paid'' \<and>
       fetch_status W (pf_env P) txn = Inr (Some (JObj status)) \<and>
       (dict_get status ''status'' = JStr ''CONFIRMED'' \<and>
          (\<exists>details. dict_get status ''paymentDetails'' = JObj details \<and>
             json_int (dict_get details ''amount'') = Some (p_amount payment)) \<and>
          confirm P payment kp now s w = (r, s', w') \<or>
        (\<exists>st\<in>{''CHARGEBACKED'', ''CANCELED''}. dict_get status ''status'' = JStr st \<and>
           s' = (put_payment (payment\<lparr>p_status := lower st\<rparr>) (fst s), snd s) \<and> w' = w)))"
proof -
  have row: "payment \<in> set (payments (fst s)) \<and> provider_ref payment = Some txn \<and> provider payment = Some ''platega''"
    if "platega_payment (fst s) txn = [payment]" for payment txn
    using arg_cong [OF that, of set] by (auto simp: platega_payment_def)
  from assms(1) show ?thesis
  proof (cases rule: platega_callback_cases)
    case ignored
    with assms(2) show ?thesis by blast
  next
    case (confirmed payment txn status details)
    with row [OF confirmed(2)] show ?thesis by blast
  next
    case (recorded payment txn status st)
    then have "st \<in> {''CHARGEBACKED'', ''CANCELED''}" by simp
    with recorded row [OF recorded(2)] show ?thesis by blast
  qed
qed

definition platega_env :: env where
  "platega_env = [''PLATEGA_SECRET'' \<mapsto> ''s3cret'']"

definition sample_shop_platform :: "table_if world platform" where
  "sample_shop_platform = (sample_platform (\<lambda>_. Lost))\<lparr>pf_env := platega_env\<rparr>"

definition answering :: "string \<Rightarrow> json \<Rightarrow> web" where
  "answering st amount =
     \<lparr>web_post = (\<lambda>_ _ _. Response 200 [] (Inr (JObj [(''transactionId'', JStr ''tx1''), (''url'', JStr ''/pay'')]))),
      web_get = (\<lambda>_ _. Response 200 [] (Inr (JObj [(''status'', JStr st),
        (''paymentDetails'', JObj [(''amount'', amount)])]))),
      web_md5 = (\<lambda>s. ''md5:'' @ s)\<rparr>"

definition sample_platega :: db where
  "sample_platega = sample_renewal\<lparr>payments :=
     [sample_order\<lparr>provider := Some ''platega'', provider_ref := Some ''tx1''\<rparr>]\<rparr>"

lemmas platega_samples = platega_env_def sample_shop_platform_def answering_def sample_platega_def
  sample_renewal_def sample_shop_def sample_platform_def sample_order_def samples

theorem platega_callback_only_nudges_witness:
  "(let (r, s', w') = platega_callback sample_shop_platform (answering ''CANCELED'' JNull) (Some ''s3cret'')
       (Some (JObj [(''id'', JStr ''tx1''), (''status'', JStr ''CONFIRMED'')])) None 5
       (sample_platega, empty_outbox) sample_world
    in map p_status (payments (fst s')) = [''canceled'']) \<and>
   secret_matches (pf_env sample_shop_platform) (Some ''s3cret'')"
proof -
  let ?run = "platega_callback sample_shop_platform (answering ''CANCELED'' JNull) (Some ''s3cret'')
       (Some (JObj [(''id'', JStr ''tx1''), (''status'', JStr ''CONFIRMED'')])) None 5
       (sample_platega, empty_outbox) sample_world"
  obtain r s' w' where run: "?run = (r, s', w')" by (rule prod_cases3)
  have new: "map p_status (payments (fst (fst (snd ?run)))) = [''canceled'']"
    by code_simp
  have old: "map p_status (payments sample_platega) = [''pending'']" by code_simp
  have "s' \<noteq> (sample_platega, empty_outbox)" using new old run by auto
  with platega_callback_only_nudges [OF run] new run show ?thesis by simp
qed

text \<open>
  C18: a confirmed order is paid once.  When Platega confirms the amount of an order that is
  not paid and the activation succeeds, the callback answers ok, the order is marked paid with
  the activation's other effects, and every later callback about the same transaction,
  whenever it comes, whatever it carries and whatever Platega then says, changes nothing: not
  even a chargeback is recorded after the confirmation.
\<close>

theorem platega_callback_pays_once:
  assumes "secret_matches (pf_env P) x" and "truthy i" and "json_str i = txn" and "txn \<noteq> []"
    and "platega_payment d txn = [p]" and "p_status p \<noteq> ''paid''"
    and "distinct (map p_id (payments d))" and "get_user d (p_user_id p) = Some u"
    and "fetch_status W (pf_env P) txn = Inr (Some (JObj status))"
    and "dict_get status ''status'' = JStr ''CONFIRMED''"
    and "reported_amount status = Some v" and "json_int v = Some (p_amount p)"
    and "activate_payment P u p kp now (d, out) w = (Done True, (d', out'), w')"
  shows "platega_callback P W x (Some (JObj [(''id'', i)])) kp now (d, out) w = (Done (Inr ()), (d', out'), w') \<and>
    payments d' = payments (put_payment (mark_paid now p) d) \<and>
    (\<forall>W2 x2 rest kp2 now2 out2 w2. (fst (snd (platega_callback P W2 x2 (Some (JObj ((''id'', i) # rest))) kp2 now2
       (d', out2) w2)), snd (snd (platega_callback P W2 x2 (Some (JObj ((''id'', i) # rest))) kp2 now2 (d', out2) w2))) =
       ((d', out2), w2))"
proof -
  have "v \<noteq> JNull" using assms(12) by auto
  then have run: "platega_callback P W x (Some (JObj [(''id'', i)])) kp now (d, out) w = (Done (Inr ()), (d', out'), w')"
    using assms(1-6,8-13) by (simp add: platega_callback_def confirm_def)
  have pay: "payments d' = payments (put_payment (mark_paid now p) d)"
    using activate_payment_tables [OF assms(13)] by simp
  have mem: "p \<in> set (payments d)" "provider_ref p = Some txn" "provider p = Some ''platega''"
    using arg_cong [OF assms(5), of set] by (auto simp: platega_payment_def)
  have "platega_payment d' txn = [mark_paid now p]"
  proof -
    let ?Q = "\<lambda>p. provider_ref p = Some txn \<and> provider p = Some ''platega''"
    let ?f = "\<lambda>r. if p_id r = p_id p then mark_paid now p else r"
    have same: "r = p" if "r \<in> set (payments d)" "p_id r = p_id p" for r
      using that mem(1) assms(7) by (metis distinct_map_eqD)
    have "payments d' = map ?f (payments d)"
      by (simp add: pay put_payment_def update_where_def mark_paid_def)
    then have "platega_payment d' txn = filter ?Q (map ?f (payments d))"
      by (simp add: platega_payment_def)
    also have "\<dots> = map ?f (filter (?Q \<circ> ?f) (payments d))" by (simp add: filter_map)
    also have "filter (?Q \<circ> ?f) (payments d) = filter ?Q (payments d)"
      by (rule filter_cong) (use same mem in \<open>auto simp: mark_paid_def\<close>)
    finally show ?thesis using assms(5) by (simp add: platega_payment_def)
  qed
  then have "snd (platega_callback P W2 x2 (Some (JObj ((''id'', i) # rest))) kp2 now2 (d', out2) w2) = ((d', out2), w2)"
    for W2 x2 rest kp2 now2 out2 w2
    using assms(2-4) by (simp add: platega_callback_def mark_paid_def)
  with run pay show ?thesis by simp
qed

theorem platega_callback_pays_once_witness:
  "\<exists>d' out' w'. platega_callback sample_shop_platform (answering ''CONFIRMED'' (JInt 158)) (Some ''s3cret'')
      (Some (JObj [(''id'', JStr ''tx1'')])) None 5 (sample_platega, empty_outbox) sample_world =
      (Done (Inr ()), (d', out'), w') \<and> map p_status (payments d') = [''paid''] \<and>
    snd (platega_callback sample_shop_platform (answering ''CHARGEBACKED'' JNull) (Some ''s3cret'')
      (Some (JObj [(''id'', JStr ''tx1'')])) None 9 (d', out') w') = ((d', out'), w')"
proof -
  let ?p = "sample_order\<lparr>provider := Some ''platega'', provider_ref := Some ''tx1''\<rparr>"
  let ?status = "[(''status'', JStr ''CONFIRMED''), (''paymentDetails'', JObj [(''amount'', JInt 158)])]"
  have info: "plan_info (Some (p_plan ?p)) = Some (mk_plan ''basic'' 2 30 ''350'')" by code_simp
  have held: "list_ex (\<lambda>c. c_user_id c = u_id (sample_user ''bob'') \<and> c_is_active c \<and> c_kind c \<noteq> ''trial'')
      (configs sample_platega)" by code_simp
  from activate_payment_renewal [OF info held, of sample_shop_platform None 5 empty_outbox sample_world]
  obtain d' out' w' where run: "activate_payment sample_shop_platform (sample_user ''bob'') ?p None 5
      (sample_platega, empty_outbox) sample_world = (Done True, (d', out'), w')" by blast
  have h: "secret_matches (pf_env sample_shop_platform) (Some ''s3cret'')"
    "platega_payment sample_platega ''tx1'' = [?p]" "p_status ?p \<noteq> ''paid''"
    "distinct (map p_id (payments sample_platega))" "get_user sample_platega (p_user_id ?p) = Some (sample_user ''bob'')"
    "fetch_status (answering ''CONFIRMED'' (JInt 158)) (pf_env sample_shop_platform) ''tx1'' = Inr (Some (JObj ?status))"
    "reported_amount ?status = Some (JInt 158)" "json_int (JInt 158) = Some (p_amount ?p)"
    by code_simp+
  have i: "truthy (JStr ''tx1'')" "json_str (JStr ''tx1'') = ''tx1''" "''tx1'' \<noteq> []"
    "dict_get ?status ''status'' = JStr ''CONFIRMED''"
    by (simp_all add: json_str_def)
  note paid = platega_callback_pays_once [OF h(1) i(1-3) h(2-6) i(4) h(7,8) run]
  have "map p_status (payments (put_payment (mark_paid 5 ?p) sample_platega)) = [''paid'']" by code_simp
  with paid show ?thesis by auto
qed

text \<open>
  C19: a paid order is final.  None of the payment endpoints, not the two callbacks, not the
  opening of another order with either gateway, not a grant by the administrator, ever changes
  or removes a payment that is marked paid.
\<close>

theorem paid_is_final:
  assumes "distinct (map p_id (payments d))" and "fresh_payment_id d"
    and "q \<in> set (payments d)" and "p_status q = ''paid''"
  shows "q \<in> set (payments (fst (fst (snd (platega_callback P W x body kp now (d, out) w))))) \<and>
    q \<in> set (payments (fst (fst (snd (payment_webhook P W raw kp now (d, out) w))))) \<and>
    q \<in> set (payments (snd (create_payment_platega P W sub req now d))) \<and>
    q \<in> set (payments (snd (create_payment P W sub req now d))) \<and>
    q \<in> set (payments (fst (fst (snd (grant P uname plan kp now (d, out) w)))))"
proof (intro conjI)
  obtain r1 d1 out1 w1 where r1: "platega_callback P W x body kp now (d, out) w = (r1, (d1, out1), w1)"
    by (metis prod.collapse)
  then have "q \<in> set (payments d1)"
  proof (cases rule: platega_callback_cases)
    case (confirmed payment txn status details)
    have "payment \<in> set (payments d)"
      using arg_cong [OF confirmed(2), of set] by (auto simp: platega_payment_def)
    from confirm_keeps_paid [OF confirmed(8) assms(1) this confirmed(3) assms(3,4)] show ?thesis .
  next
    case (recorded payment txn status st)
    moreover have "payment \<in> set (payments d)"
      using arg_cong [OF recorded(2), of set] by (auto simp: platega_payment_def)
    ultimately show ?thesis
      using put_payment_keeps_paid [OF assms(1) _ _ _ assms(3,4), of payment "payment\<lparr>p_status := lower st\<rparr>"] by simp
  qed (use assms in simp)
  then show "q \<in> set (payments (fst (fst (snd (platega_callback P W x body kp now (d, out) w)))))"
    by (simp add: r1)
  obtain r2 d2 out2 w2 where r2: "payment_webhook P W raw kp now (d, out) w = (r2, (d2, out2), w2)"
    by (metis prod.collapse)
  then have "q \<in> set (payments d2)"
  proof (cases rule: payment_webhook_cases)
    case (confirmed payment data)
    then show ?thesis using confirm_keeps_paid [OF confirmed(6) assms(1)] assms(3,4) by simp
  next
    case (recorded payment data st)
    then show ?thesis
      using put_payment_keeps_paid [OF assms(1) _ _ _ assms(3,4), of payment "payment\<lparr>p_status := st\<rparr>"] by simp
  qed (use assms in simp)
  then show "q \<in> set (payments (fst (fst (snd (payment_webhook P W raw kp now (d, out) w)))))"
    by (simp add: r2)
  obtain r3 d3 where r3: "create_payment_platega P W sub req now d = (r3, d3)" by force
  from r3 assms(2) have "q \<in> set (payments d3)"
    by (cases rule: create_payment_platega_cases) (use assms(3) in auto)
  then show "q \<in> set (payments (snd (create_payment_platega P W sub req now d)))" by (simp add: r3)
  show "q \<in> set (payments (snd (create_payment P W sub req now d)))"
    using create_payment_keeps [OF _ assms(2,3)] by (metis prod.collapse)
  obtain r4 d4 out4 w4 where r4: "grant P uname plan kp now (d, out) w = (r4, (d4, out4), w4)"
    by (metis prod.collapse)
  from r4 assms(2) have "q \<in> set (payments d4)"
    by (cases rule: grant_cases) (use assms(3) in auto)
  then show "q \<in> set (payments (fst (fst (snd (grant P uname plan kp now (d, out) w)))))" by (simp add: r4)
qed

definition sample_paid :: db where
  "sample_paid = sample_platega\<lparr>payments := payments sample_platega @
     [(sample_payment ''o2'' ''bob'' ''basic-1m'' 350)\<lparr>p_status := ''paid''\<rparr>]\<rparr>"

theorem paid_is_final_witness:
  "(sample_payment ''o2'' ''bob'' ''basic-1m'' 350)\<lparr>p_status := ''paid''\<rparr> \<in> set (payments (fst (fst (snd
     (platega_callback sample_shop_platform (answering ''CANCELED'' JNull) (Some ''s3cret'')
       (Some (JObj [(''id'', JStr ''tx1'')])) None 5 (sample_paid, empty_outbox) sample_world)))))"
proof -
  let ?q = "(sample_payment ''o2'' ''bob'' ''basic-1m'' 350)\<lparr>p_status := ''paid''\<rparr>"
  have h: "distinct (map p_id (payments sample_paid))" "fresh_payment_id sample_paid" "p_status ?q = ''paid''"
    by code_simp+
  have "?q \<in> set (payments sample_paid)" by (simp add: sample_paid_def)
  from paid_is_final [OF h(1,2) this h(3), THEN conjunct1] show ?thesis .
qed

text \<open>
  C20: what is quoted is what is ordered.  An order opened with Platega carries exactly the
  quote that \<open>/api/payment/quote\<close> gives for the same request: its amount, its credit and its
  code are in the one row that is added, together with the gateway's transaction; the account
  holds no more devices in any location than the plan allows; and no other table changes.  A
  refused order leaves no pending row behind: nothing is added, or a row marked \<open>error\<close> (or,
  where the gateway's answer was not an object, the request ended in an exception).
\<close>

theorem order_matches_quote:
  assumes "create_payment_platega P W sub req now d = (r, d')" and "fresh_payment_id d"
  shows "other_tables_same d d' \<and>
    (case r of
       Done (Inr co) \<Rightarrow>
         quote_payment sub req now d = Done (Inr (co_quote co)) \<and>
         (\<exists>u p. user_by_name d sub = Some u \<and> payments d' = payments d @ [p] \<and> p_id p = co_payment_id co \<and>
            p_user_id p = u_id u \<and> p_amount p = q_amount (co_quote co) \<and> p_status p = ''pending'' \<and>
            credit_spent p = q_credit_spent (co_quote co) \<and> p_promo_code p = q_promo_code (co_quote co) \<and>
            provider p = Some ''platega'' \<and> provider_ref p \<noteq> None \<and>
            (\<forall>l. devices_at u l d \<le> config_limit (Some (rq_plan req))))
     | _ \<Rightarrow> payments d' = payments d \<or>
         (\<exists>p. payments d' = payments d @ [p] \<and> (p_status p = ''error'' \<or> r = Raised)))"
  using assms
proof (cases rule: create_payment_platega_cases)
  case refused
  then show ?thesis by (auto simp: other_tables_same_def split: outcome.splits sum.splits)
next
  case (recorded u q p)
  have lim: "devices_at u l d \<le> config_limit (Some (rq_plan req))" for l
    using order_trans [OF fullest_location_max recorded(2)] .
  have same: "other_tables_same d d'" using recorded(12) by (simp add: other_tables_same_def new_uuid_def)
  have pay: "payments d' = payments d @ [p]" using recorded(12) by simp
  show ?thesis
  proof (cases "\<exists>x. r = Done (Inr x)")
    case True
    with recorded(13) obtain url txn where
      r: "r = Done (Inr \<lparr>co_url = url, co_payment_id = p_id p, co_quote = q\<rparr>)"
        "provider_ref p = Some txn" "p_status p = ''pending''" by auto
    then have plan: "map_of PLANS (rq_plan req) \<noteq> None"
      using assms(1) by (auto simp: create_payment_platega_def split: option.splits)
    have "quote_payment sub req now d = Done (Inr q)"
      using plan recorded(1,3) by (simp add: quote_payment_def current_user_def)
    with same r pay recorded(1,5,7-10) lim show ?thesis by auto
  next
    case False
    with recorded(13) have "p_status p = ''error'' \<or> r = Raised" by auto
    with False same pay show ?thesis by (auto split: outcome.splits sum.splits)
  qed
qed

definition sample_buyer :: user where
  "sample_buyer = (sample_user ''bob'')\<lparr>email_verified_at := Some 0\<rparr>"

definition sample_orders :: db where
  "sample_orders = put_user sample_buyer sample_renewal\<lparr>payments := []\<rparr>"

definition sample_request :: order_request where
  "sample_request = \<lparr>rq_plan = ''basic-1m'', rq_code = None, use_credit = 150\<rparr>"

theorem order_matches_quote_witness:
  "\<exists>co d' p. create_payment_platega sample_shop_platform (answering ''PENDING'' JNull) ''bob'' sample_request 0
      sample_orders = (Done (Inr co), d') \<and> payments d' = [p] \<and> p_amount p = 200 \<and>
    quote_payment ''bob'' sample_request 0 sample_orders = Done (Inr (co_quote co))"
proof -
  let ?run = "create_payment_platega sample_shop_platform (answering ''PENDING'' JNull) ''bob'' sample_request 0
      sample_orders"
  have "(case fst ?run of Done (Inr co) \<Rightarrow> q_amount (co_quote co) | _ \<Rightarrow> 0) = 200" by code_simp
  then obtain co where co: "fst ?run = Done (Inr co)" "q_amount (co_quote co) = 200"
    by (auto split: outcome.splits sum.splits)
  obtain d' where run: "?run = (Done (Inr co), d')" using co(1) by (metis prod.collapse)
  have "fresh_payment_id sample_orders" "payments sample_orders = []" by code_simp+
  with order_matches_quote [OF run] run co show ?thesis by auto
qed

text \<open>
  C21: every confirmed order spends the credit it reserved, whatever is left.  When two orders
  of one account that reserved credit are both confirmed, the balance falls by the sum of the
  two reservations.  Nothing compares the second reservation with the balance the first one
  left: a reservation is not counted when the next order is priced, and a confirmation does not
  look at the balance again.  The concrete case shows 175 points spent twice, down to -125.
\<close>

theorem orders_spend_independently:
  assumes "activate_payment P u1 p1 kp1 t1 (d, out) w = (Done True, (d1, out1), w1)"
    and "activate_payment P u2 p2 kp2 t2 (d1, out1) w1 = (Done True, (d2, out2), w2)"
    and "p_user_id p1 = u_id v" and "p_user_id p2 = u_id v" and "p_id p1 \<noteq> p_id p2"
    and "0 < credit_spent p1" and "0 < credit_spent p2"
    and "list_all (\<lambda>e. ce_payment_id e \<noteq> Some (p_id p1) \<and> ce_payment_id e \<noteq> Some (p_id p2)) (credit_entries d)"
  shows "balance d2 v t = balance d v t - credit_spent p1 - credit_spent p2"
proof -
  note t1 = activate_payment_tables [OF assms(1), simplified]
  note t2 = activate_payment_tables [OF assms(2), simplified]
  have "fst (spend_on_payment d p1 t1) = credit_spent p1"
    using assms(6,8) by (auto simp: spend_on_payment_def new_uuid_def list_all_iff list_ex_iff)
  moreover have "fst (spend_on_payment d1 p2 t2) = credit_spent p2"
    using assms(5,7,8) t1 by (auto simp: spend_on_payment_def new_uuid_def list_all_iff list_ex_iff)
  ultimately show ?thesis using t1 t2 assms(3,4) by simp
qed

theorem orders_spend_independently_witness:
  "\<exists>p1 q1 d1 p2 q2 d2 s3 w3 d4 out4 w4 u.
     open_order sample_buyer sample_request 0 sample_orders = (Done (Inr (p1, q1)), d1) \<and>
     open_order sample_buyer sample_request 0 d1 = (Done (Inr (p2, q2)), d2) \<and>
     activate_payment sample_shop_platform sample_buyer p1 None 5 (d2, empty_outbox) sample_world = (Done True, s3, w3) \<and>
     activate_payment sample_shop_platform u p2 None 6 s3 w3 = (Done True, (d4, out4), w4) \<and>
     balance sample_orders sample_buyer 9 = 175 \<and> balance d4 sample_buyer 9 = - 125"
proof -
  let ?o1 = "open_order sample_buyer sample_request 0 sample_orders"
  let ?o2 = "open_order sample_buyer sample_request 0 (snd ?o1)"
  let ?got = "\<lambda>r. case r of Done (Inr (p, q)) \<Rightarrow> (p_id p, p_user_id p, p_plan p, credit_spent p) | _ \<Rightarrow> ([], [], [], 0)"
  have "?got (fst ?o1) = (''id0'', ''bob'', ''basic-1m'', 150)" "?got (fst ?o2) = (''id1'', ''bob'', ''basic-1m'', 150)"
    by code_simp+
  then obtain p1 q1 p2 q2 where o: "fst ?o1 = Done (Inr (p1, q1))" "fst ?o2 = Done (Inr (p2, q2))"
    and p1: "p_id p1 = ''id0''" "p_user_id p1 = ''bob''" "p_plan p1 = ''basic-1m''" "credit_spent p1 = 150"
    and p2: "p_id p2 = ''id1''" "p_user_id p2 = ''bob''" "p_plan p2 = ''basic-1m''" "credit_spent p2 = 150"
    by (auto split: outcome.splits sum.splits prod.splits)
  let ?d2 = "snd ?o2"
  have info: "plan_info (Some ''basic-1m'') = Some (mk_plan ''basic'' 2 30 ''350'')" by code_simp
  let ?held = "list_ex (\<lambda>c. c_user_id c = u_id sample_buyer \<and> c_is_active c \<and> c_kind c \<noteq> ''trial'')"
  have held: "?held (configs ?d2)"
    by code_simp
  from activate_payment_renewal [OF info [folded p1(3)] held, of sample_shop_platform None 5 empty_outbox sample_world]
  obtain d3 out3 w3 where a1: "activate_payment sample_shop_platform sample_buyer p1 None 5 (?d2, empty_outbox)
      sample_world = (Done True, (d3, out3), w3)" by blast
  have none: "filter (\<lambda>c. c_kind c = ''trial'') (filter (\<lambda>c. c_user_id c = u_id sample_buyer \<and> c_is_active c)
      (configs ?d2)) = []" by code_simp
  from a1 have "?held (configs d3)"
  proof (cases rule: activate_payment_cases)
    case (paid info ip d1 w1 u' d2 out2)
    then have "d1 = ?d2" using held by (auto simp: list_ex_iff)
    with settle_payment_tables(1) [OF paid(3)] paid(4) none held show ?thesis by simp
  qed simp_all
  from activate_payment_renewal [OF info [folded p2(3)] this, of sample_shop_platform None 6 out3 w3]
  obtain d4 out4 w4 where a2: "activate_payment sample_shop_platform sample_buyer p2 None 6 (d3, out3) w3 =
      (Done True, (d4, out4), w4)" by blast
  have h: "u_id sample_buyer = ''bob''"
    "list_all (\<lambda>e. ce_payment_id e \<noteq> Some ''id0'' \<and> ce_payment_id e \<noteq> Some ''id1'') (credit_entries ?d2)"
    "balance sample_orders sample_buyer 9 = 175" "balance ?d2 sample_buyer 9 = 175"
    by code_simp+
  have "balance d4 sample_buyer 9 = 175 - 150 - 150"
    using orders_spend_independently [OF a1 a2, of sample_buyer 9] p1 p2 h by simp
  moreover have "?o1 = (Done (Inr (p1, q1)), snd ?o1)" "?o2 = (Done (Inr (p2, q2)), ?d2)"
    using o by (metis prod.collapse)+
  ultimately have "?o1 = (Done (Inr (p1, q1)), snd ?o1) \<and> ?o2 = (Done (Inr (p2, q2)), ?d2) \<and>
     activate_payment sample_shop_platform sample_buyer p1 None 5 (?d2, empty_outbox) sample_world =
       (Done True, (d3, out3), w3) \<and>
     activate_payment sample_shop_platform sample_buyer p2 None 6 (d3, out3) w3 = (Done True, (d4, out4), w4) \<and>
     balance sample_orders sample_buyer 9 = 175 \<and> balance d4 sample_buyer 9 = - 125"
    using a1 a2 h(3) by linarith
  then show ?thesis by (intro exI)
qed

text \<open>
  C22: a Heleket webhook acts only on a signed body.  Whatever is posted, the database, the
  outbox and the nodes change only when the body decodes to an object whose \<open>sign\<close> is the MD5
  of the base64 of its other fields, serialised as PHP does, followed by the merchant's key, and
  names an order that is not paid yet; the order is activated only on \<open>paid\<close> or \<open>paid_over\<close>,
  and on any other status only that status is written.
\<close>

theorem payment_webhook_needs_signature:
  assumes "payment_webhook P W raw kp now s w = (r, s', w')" and "s' \<noteq> s \<or> w' \<noteq> w"
  shows "\<exists>data payment. pf_loads P raw = Some (JObj data) \<and>
    json_str (dict_get data ''sign'') =
      web_md5 W (b64encode (serialize (filter (\<lambda>(k, _). k \<noteq> ''sign'') data)) @ PAYMENT_API_KEY (pf_env P)) \<and>
    payment \<in> set (payments (fst s)) \<and> dict_get data ''order_id'' = JStr (p_id payment) \<and>
    p_status payment \<noteq> ''paid'' \<and>
    (if dict_get data ''status'' \<in> {JStr ''paid'', JStr ''paid_over''} then confirm P payment kp now s w = (r, s', w')
     else \<exists>st. st \<noteq> ''paid'' \<and> s' = (put_payment (payment\<lparr>p_status := st\<rparr>) (fst s), snd s) \<and> w' = w)"
proof -
  have sig: "pf_loads P raw = Some (JObj data) \<and> json_str (dict_get data ''sign'') =
      web_md5 W (b64encode (serialize (filter (\<lambda>(k, _). k \<noteq> ''sign'') data)) @ PAYMENT_API_KEY (pf_env P))"
    if "verify_webhook W (pf_env P) (pf_loads P) raw = Done (Some data)" for data
    using that by (auto simp: verify_webhook_def make_sign_def Let_def split: option.splits json.splits if_splits)
  from assms(1) show ?thesis
  proof (cases rule: payment_webhook_cases)
    case ignored
    with assms(2) show ?thesis by blast
  next
    case (confirmed payment data)
    with sig [OF confirmed(1)] show ?thesis by auto
  next
    case (recorded payment data st)
    then have "dict_get data ''status'' \<notin> {JStr ''paid'', JStr ''paid_over''}" "st \<noteq> ''paid''"
      by (auto simp: webhook_status_def PAID_STATUSES_def)
    with sig [OF recorded(1)] recorded show ?thesis by auto
  qed
qed

definition signed_body :: "(string \<times> json) list" where
  "signed_body = [(''order_id'', JStr ''o1''), (''status'', JStr ''cancel''),
     (''sign'', JStr (make_sign (answering [] JNull) platega_env
        (serialize [(''order_id'', JStr ''o1''), (''status'', JStr ''cancel'')])))]"

theorem payment_webhook_needs_signature_witness:
  "\<exists>s' w'. payment_webhook (sample_shop_platform\<lparr>pf_loads := (\<lambda>_. Some (JObj signed_body))\<rparr>) (answering [] JNull)
      ''body'' None 5 (sample_platega, empty_outbox) sample_world = (Done (Inr ()), s', w') \<and>
    map p_status (payments (fst s')) = [''cancel''] \<and> w' = sample_world"
proof -
  let ?P = "sample_shop_platform\<lparr>pf_loads := (\<lambda>_. Some (JObj signed_body))\<rparr>"
  let ?run = "payment_webhook ?P (answering [] JNull) ''body'' None 5 (sample_platega, empty_outbox) sample_world"
  obtain r s' w' where run: "?run = (r, s', w')" by (rule prod_cases3)
  have new: "map p_status (payments (fst (fst (snd ?run)))) = [''cancel'']" "fst ?run = Done (Inr ())"
    "(case dict_get signed_body ''status'' of JStr st \<Rightarrow> st | _ \<Rightarrow> []) = ''cancel''"
    "map p_status (payments sample_platega) = [''pending'']"
    by code_simp+
  then have "s' \<noteq> (sample_platega, empty_outbox)" using run by auto
  with payment_webhook_needs_signature [OF run] new have "w' = sample_world"
    by (auto split: if_splits)
  with run new show ?thesis by simp
qed

text \<open>
  A grant is not a sale.  Access opened by the administrator adds one row, of amount 0 and
  provider \<open>manual\<close>, marked paid; no balance moves, no referral reward is recorded, and every
  account is or is not on its first purchase exactly as before.  A grant that is refused or
  that could not issue a device leaves payments, accounts, devices, credit and rewards as they
  were.
\<close>

theorem grant_is_not_a_sale:
  assumes "grant P uname plan kp now (d, out) w = (r, (d', out'), w')" and "fresh_payment_id d"
  shows "case r of
      Done (Inl e) \<Rightarrow> payments d' = payments d \<and> users d' = users d \<and> configs d' = configs d \<and>
        credit_entries d' = credit_entries d \<and> referral_rewards d' = referral_rewards d \<and> out' = out
    | _ \<Rightarrow> \<exists>p. payments d' = payments d @ [p] \<and> p_amount p = 0 \<and> provider p = Some ''manual'' \<and>
        p_status p \<in> {''paid'', ''pending''} \<and> (\<forall>v t. balance d' v t = balance d v t) \<and>
        length (referral_rewards d') = length (referral_rewards d) \<and>
        (\<forall>v. is_first_purchase d' v = is_first_purchase d v)"
proof -
  have first: "is_first_purchase d' v = is_first_purchase d v"
    if "payments d' = payments d @ [p]" "provider p = Some ''manual''" for p v
    using that by (simp add: is_first_purchase_def table_simps)
  from assms show ?thesis
  proof (cases rule: grant_cases)
    case (broken u p)
    with first [of p] show ?thesis by (auto simp: grant_order_def balance_def new_uuid_def)
  next
    case (granted u p d1)
    have t: "balance d' v t = balance d1 v t" "length (referral_rewards d') = length (referral_rewards d1)" for v t
      using activate_payment_tables [OF granted(5)] granted(3)
      by (simp_all add: grant_order_def spend_on_payment_def)
    have "balance d1 v t = balance d v t" "referral_rewards d1 = referral_rewards d" for v t
      using granted(4) by (simp_all add: balance_def new_uuid_def)
    with t first [of "mark_paid now p"] granted(3,6,7) show ?thesis
      by (auto simp: mark_paid_def grant_order_def split: outcome.splits sum.splits)
  qed (auto split: outcome.splits sum.splits)
qed

theorem grant_is_not_a_sale_witness:
  "\<exists>d' out' w'. grant sample_shop_platform '' bob '' ''ext-1m'' None 5 (sample_orders, empty_outbox) sample_world =
      (Done (Inr (''bob'', Some ''ext-1m'', 5, Some (5 + days 30))), (d', out'), w') \<and>
    balance d' sample_buyer 9 = 175"
proof -
  let ?run = "grant sample_shop_platform '' bob '' ''ext-1m'' None 5 (sample_orders, empty_outbox) sample_world"
  have r: "fst ?run = Done (Inr (''bob'', Some ''ext-1m'', 5, Some (5 + days 30)))" by code_simp
  then obtain d' out' w' where
    run: "?run = (Done (Inr (''bob'', Some ''ext-1m'', 5, Some (5 + days 30))), (d', out'), w')"
    by (metis prod.collapse)
  have "fresh_payment_id sample_orders" "balance sample_orders sample_buyer 9 = 175" by code_simp+
  with grant_is_not_a_sale [OF run] run show ?thesis by auto
qed

end
