(* ===== verification/Ratelimit.thy ===== *)
theory Ratelimit
  imports Prelude
begin

section \<open>How often one source may try something (\<open>pwa/services/ratelimit.py\<close>)\<close>

text \<open>
  \<open>Limiter\<close> with its dictionary of event queues, the guards \<open>check\<close> and \<open>take\<close>, and the
  eleven limits of the module as the record \<open>limits\<close>, the state the request handlers share.
  The monotonic clock is an argument in microseconds; \<open>take\<close> reads it once for its two steps.

  The locale \<open>sliding_window\<close> is the contract of a limiter: what it has counted lately
  decides, and nothing else does.  Its lemmas bound what any sequence of attempts gets through;
  the model of \<open>Limiter\<close>, with its lazy pruning and its periodic sweep, is an interpretation.
\<close>

record limiter =
  limit :: nat
  window :: int
  events :: "string \<Rightarrow> int list option"
  since_sweep :: nat

definition SWEEP_EVERY :: nat where
  "SWEEP_EVERY = 1000"

definition Limiter :: "nat \<Rightarrow> int \<Rightarrow> limiter" where
  "Limiter n w = \<lparr>limit = n, window = w, events = Map.empty, since_sweep = 0\<rparr>"

text \<open>The queue of a key, without the events that have left the window; \<open>None\<close> once it is empty.\<close>

definition pruned :: "int \<Rightarrow> int list option \<Rightarrow> int list option" where
  "pruned horizon q =
     (case q of
        None \<Rightarrow> None
      | Some es \<Rightarrow>
          let rest = dropWhile (\<lambda>e. e \<le> horizon) es in if rest = [] then None else Some rest)"

definition prune :: "limiter \<Rightarrow> string \<Rightarrow> int \<Rightarrow> int list option \<times> limiter" where
  "prune l key now =
     (let q = pruned (now - seconds (window l)) (events l key)
      in (q, l\<lparr>events := (events l)(key := q)\<rparr>))"

definition retry_after :: "limiter \<Rightarrow> string \<Rightarrow> int \<Rightarrow> int option \<times> limiter" where
  "retry_after l key now =
     (let (q, l1) = prune l key now
      in case q of
           None \<Rightarrow> (None, l1)
         | Some es \<Rightarrow>
             if length es < limit l then (None, l1)
             else (Some (max 1 ((hd es + seconds (window l) - now) div 1000000 + 1)), l1))"

definition add_event :: "limiter \<Rightarrow> string \<Rightarrow> int \<Rightarrow> limiter" where
  "add_event l key now =
     (let es = (case events l key of None \<Rightarrow> [] | Some q \<Rightarrow> q) @ [now];
          evs = (events l)(key := Some es);
          n = since_sweep l + 1
      in if n \<ge> SWEEP_EVERY
         then l\<lparr>events := (\<lambda>k. pruned (now - seconds (window l)) (evs k)), since_sweep := 0\<rparr>
         else l\<lparr>events := evs, since_sweep := n\<rparr>)"

definition reset_limiter :: "limiter \<Rightarrow> limiter" where
  "reset_limiter l = l\<lparr>events := Map.empty\<rparr>"

definition too_many :: "int \<Rightarrow> http_error" where
  "too_many wait = \<lparr>status_code = 429, http_detail = RetryAfter wait\<rparr>"

text \<open>\<open>None\<close> is a request that may go on.\<close>

definition check_limit :: "limiter \<Rightarrow> string \<Rightarrow> int \<Rightarrow> http_error option \<times> limiter" where
  "check_limit l key now =
     (let (wait, l1) = retry_after l key now in (map_option too_many wait, l1))"

definition take_limit :: "limiter \<Rightarrow> string \<Rightarrow> int \<Rightarrow> http_error option \<times> limiter" where
  "take_limit l key now =
     (case check_limit l key now of
        (Some e, l1) \<Rightarrow> (Some e, l1)
      | (None, l1) \<Rightarrow> (None, add_event l1 key now))"

record limits =
  LOGIN_PER_IP :: limiter
  LOGIN_FAILS :: limiter
  REGISTER_PER_IP :: limiter
  FORGOT_PER_IP :: limiter
  FORGOT_PER_EMAIL :: limiter
  RESET_PER_IP :: limiter
  SUPPORT_PER_IP :: limiter
  VERIFY_PER_IP :: limiter
  VERIFY_RESEND :: limiter
  VERIFY_RESEND_PER_IP :: limiter
  TRIAL_PER_IP :: limiter

definition fresh_limits :: limits where
  "fresh_limits =
     \<lparr>LOGIN_PER_IP = Limiter 30 (15 * 60), LOGIN_FAILS = Limiter 10 (15 * 60),
      REGISTER_PER_IP = Limiter 5 (60 * 60), FORGOT_PER_IP = Limiter 5 (60 * 60),
      FORGOT_PER_EMAIL = Limiter 3 (60 * 60), RESET_PER_IP = Limiter 10 (60 * 60),
      SUPPORT_PER_IP = Limiter 5 (60 * 60), VERIFY_PER_IP = Limiter 20 (60 * 60),
      VERIFY_RESEND = Limiter 3 (60 * 60), VERIFY_RESEND_PER_IP = Limiter 10 (60 * 60),
      TRIAL_PER_IP = Limiter 3 (24 * 60 * 60)\<rparr>"

subsection \<open>The contract\<close>

text \<open>
  A run of attempts at the clock readings given: each is let through and counted, or refused.
  The reference is a log that forgets nothing and is counted afresh at every attempt:
  \<open>counted span log k t\<close> is what a window of length \<open>span\<close> that ends at \<open>t\<close> sees of a key.
\<close>

fun attempts ::
  "('s \<Rightarrow> string \<Rightarrow> int \<Rightarrow> int option \<times> 's) \<Rightarrow> ('s \<Rightarrow> string \<Rightarrow> int \<Rightarrow> 's) \<Rightarrow> 's \<Rightarrow> (string \<times> int) list \<Rightarrow>
   (string \<times> int) list"
where
  "attempts wait add s [] = []"
| "attempts wait add s ((k, now) # as) =
     (if fst (wait s k now) = None
      then (k, now) # attempts wait add (add (snd (wait s k now)) k now) as
      else attempts wait add (snd (wait s k now)) as)"

definition counted :: "int \<Rightarrow> (string \<times> int) list \<Rightarrow> string \<Rightarrow> int \<Rightarrow> int list" where
  "counted span log k t = map snd (filter (\<lambda>(k', e). k' = k \<and> t - span < e) log)"

fun admitted :: "nat \<Rightarrow> int \<Rightarrow> (string \<times> int) list \<Rightarrow> (string \<times> int) list \<Rightarrow> (string \<times> int) list" where
  "admitted bound span log [] = []"
| "admitted bound span log ((k, now) # as) =
     (if counted span log k now = [] \<or> length (counted span log k now) < bound
      then (k, now) # admitted bound span (log @ [(k, now)]) as
      else admitted bound span log as)"

lemma admitted_subset: "set (admitted bound span log as) \<subseteq> set as"
  by (induction bound span log as rule: admitted.induct) auto

lemma counted_append:
  "counted span (log @ [(k, e)]) k' t = counted span log k' t @ (if k' = k \<and> t - span < e then [e] else [])"
  by (simp add: counted_def)

text \<open>
  \<open>recent s k t\<close>: the events of key \<open>k\<close> that count at time \<open>t\<close>; \<open>ok s now\<close>: the state is one
  the clock reading \<open>now\<close> can meet.
\<close>

locale sliding_window =
  fixes wait :: "'s \<Rightarrow> string \<Rightarrow> int \<Rightarrow> int option \<times> 's"
    and add :: "'s \<Rightarrow> string \<Rightarrow> int \<Rightarrow> 's"
    and bound :: nat
    and span :: int
    and recent :: "'s \<Rightarrow> string \<Rightarrow> int \<Rightarrow> int list"
    and ok :: "'s \<Rightarrow> int \<Rightarrow> bool"
  assumes wait_None_iff: "ok s now \<Longrightarrow> fst (wait s k now) = None \<longleftrightarrow> recent s k now = [] \<or> length (recent s k now) < bound"
    and wait_recent: "ok s now \<Longrightarrow> now \<le> t \<Longrightarrow> recent (snd (wait s k now)) k' t = recent s k' t"
    and wait_ok: "ok s now \<Longrightarrow> ok (snd (wait s k now)) now"
    and add_recent: "ok s now \<Longrightarrow> now \<le> t \<Longrightarrow>
      recent (add s k now) k' t = recent s k' t @ (if k' = k \<and> t - span < now then [now] else [])"
    and add_ok: "ok s now \<Longrightarrow> ok (add s k now) now"
    and ok_later: "ok s now \<Longrightarrow> now \<le> t \<Longrightarrow> ok s t"
begin

definition tracks :: "'s \<Rightarrow> (string \<times> int) list \<Rightarrow> int \<Rightarrow> bool" where
  "tracks s log now = (ok s now \<and> (\<forall>k t. now \<le> t \<longrightarrow> recent s k t = counted span log k t))"

lemma tracks_wait: "tracks s log now \<Longrightarrow> tracks (snd (wait s k now)) log now"
  by (auto simp: tracks_def wait_ok wait_recent)

lemma tracks_add: "tracks s log now \<Longrightarrow> tracks (add s k now) (log @ [(k, now)]) now"
  by (auto simp: tracks_def add_ok add_recent counted_append)

lemma tracks_later: "tracks s log now \<Longrightarrow> now \<le> t \<Longrightarrow> tracks s log t"
  by (auto simp: tracks_def dest: ok_later)

lemma attempts_refine:
  assumes "tracks s log now" and "sorted (now # map snd as)"
  shows "attempts wait add s as = admitted bound span log as"
  using assms
proof (induction as arbitrary: s log now)
  case (Cons a as)
  obtain k t where a: "a = (k, t)" by force
  from Cons.prems have tr: "tracks s log t" and srt: "sorted (t # map snd as)"
    by (auto simp: a intro: tracks_later)
  have w: "fst (wait s k t) = None \<longleftrightarrow> counted span log k t = [] \<or> length (counted span log k t) < bound"
    using tr wait_None_iff [of s t k] by (simp add: tracks_def)
  note tr1 = tracks_wait [OF tr, of k]
  show ?case
    using Cons.IH [OF tr1 srt] Cons.IH [OF tracks_add [OF tr1] srt] w by (simp add: a)
qed simp

lemma counted_admitted:
  assumes "0 < bound" and "sorted (now # map snd as)" and "\<forall>e\<in>snd ` set log. e \<le> now"
    and "\<And>t. now \<le> t \<Longrightarrow> length (counted span log k t) \<le> bound"
  shows "now \<le> t \<Longrightarrow> length (counted span (filter (\<lambda>(_, e). e \<le> t) (log @ admitted bound span log as)) k t) \<le> bound"
  using assms(2-4)
proof (induction as arbitrary: log now)
  case Nil
  then have "filter (\<lambda>(_, e). e \<le> t) log = log" by (auto simp: filter_id_conv)
  with Nil show ?case by simp
next
  case (Cons a as)
  obtain k0 t0 where a: "a = (k0, t0)" by force
  have le: "now \<le> t0" "sorted (t0 # map snd as)" using Cons.prems(2) by (simp_all add: a)
  have log0: "\<forall>e\<in>snd ` set log. e \<le> t0" using Cons.prems(3) le by auto
  show ?case
  proof (cases "t0 \<le> t")
    case True
    show ?thesis
    proof (cases "counted span log k0 t0 = [] \<or> length (counted span log k0 t0) < bound")
      case adm: True
      have cnt: "length (counted span (log @ [(k0, t0)]) k t') \<le> bound" if "t0 \<le> t'" for t'
      proof (cases "k = k0 \<and> t' - span < t0")
        case True
        have "length (filter (\<lambda>(x, e). x = k \<and> t' - span < e) log) \<le> length (filter (\<lambda>(x, e). x = k \<and> t0 - span < e) log)"
          using that by (induction log) auto
        then have "length (counted span log k t') \<le> length (counted span log k0 t0)" using True by (simp add: counted_def)
        also have "\<dots> < bound" using adm assms(1) by auto
        finally show ?thesis using True by (simp add: counted_append)
      next
        case False
        then have "counted span (log @ [(k0, t0)]) k t' = counted span log k t'" by (auto simp: counted_append)
        with Cons.prems(4) [of t'] that le show ?thesis by simp
      qed
      have "length (counted span (filter (\<lambda>(_, e). e \<le> t) ((log @ [(k0, t0)]) @ admitted bound span (log @ [(k0, t0)]) as)) k t) \<le> bound"
        by (rule Cons.IH [OF True le(2)]) (use log0 cnt in auto)
      with adm True show ?thesis by (simp add: a)
    next
      case False
      have "length (counted span (filter (\<lambda>(_, e). e \<le> t) (log @ admitted bound span log as)) k t) \<le> bound"
        by (rule Cons.IH [OF True le(2) log0]) (use Cons.prems(4) le in auto)
      with False show ?thesis by (simp add: a)
    qed
  next
    case False
    have "t < snd x" if "x \<in> set (admitted bound span log (a # as))" for x
      using that admitted_subset [of bound span log "a # as"] le(2) False by (fastforce simp: a)
    then have "filter (\<lambda>(_, e). e \<le> t) (admitted bound span log (a # as)) = []"
      by (fastforce simp: filter_empty_conv simp del: admitted.simps)
    moreover have "filter (\<lambda>(_, e). e \<le> t) log = log" using Cons.prems(1,3) by (auto simp: filter_id_conv)
    ultimately have "filter (\<lambda>(_, e). e \<le> t) (log @ admitted bound span log (a # as)) = log" by simp
    with Cons.prems(1,4) show ?thesis by simp
  qed
qed

text \<open>From a state that has counted nothing, no window sees more than \<open>bound\<close> of a key's attempts.\<close>

lemma attempts_bounded:
  assumes "0 < bound" and "tracks s [] now" and "sorted (now # map snd as)" and "now \<le> t"
  shows "length (counted span (filter (\<lambda>(_, e). e \<le> t) (attempts wait add s as)) k t) \<le> bound"
  using counted_admitted [OF assms(1,3), of "[]" k t] assms(4) attempts_refine [OF assms(2,3)]
  by (simp add: counted_def)

end

subsection \<open>The model keeps the contract\<close>

definition recent_events :: "int \<Rightarrow> limiter \<Rightarrow> string \<Rightarrow> int \<Rightarrow> int list" where
  "recent_events w l k t = filter (\<lambda>e. t - seconds w < e) (case events l k of None \<Rightarrow> [] | Some es \<Rightarrow> es)"

definition limiter_ok :: "nat \<Rightarrow> int \<Rightarrow> limiter \<Rightarrow> int \<Rightarrow> bool" where
  "limiter_ok n w l now =
     (limit l = n \<and> window l = w \<and>
      (\<forall>k es. events l k = Some es \<longrightarrow> es \<noteq> [] \<and> sorted es \<and> last es \<le> now))"

lemma dropWhile_sorted_filter:
  fixes es :: "int list"
  shows "sorted es \<Longrightarrow> dropWhile (\<lambda>e. e \<le> h) es = filter (\<lambda>e. h < e) es"
  by (induction es) (auto intro!: filter_True [symmetric])

lemma sorted_le_last: "sorted es \<Longrightarrow> e \<in> set es \<Longrightarrow> e \<le> last es"
  by (induction es) (auto split: if_splits)

lemma pruned_spec:
  fixes q :: "int list option"
  assumes "\<And>es. q = Some es \<Longrightarrow> sorted es"
  shows "(case pruned h q of None \<Rightarrow> [] | Some es \<Rightarrow> es) = filter (\<lambda>e. h < e) (case q of None \<Rightarrow> [] | Some es \<Rightarrow> es)"
    and "pruned h q = Some es \<Longrightarrow> es \<noteq> [] \<and> sorted es"
  using assms
  by (auto simp: pruned_def Let_def dropWhile_sorted_filter sorted_wrt_filter split: option.splits if_splits)

lemma pruned_None_iff:
  fixes q :: "int list option"
  assumes "\<And>es. q = Some es \<Longrightarrow> sorted es"
  shows "pruned h q = None \<longleftrightarrow> filter (\<lambda>e. h < e) (case q of None \<Rightarrow> [] | Some es \<Rightarrow> es) = []"
  using assms by (auto simp: pruned_def Let_def dropWhile_sorted_filter split: option.splits)

lemma pruned_last:
  assumes "pruned h q = Some es" and "q = Some es0"
  shows "last es = last es0"
proof -
  from assms have "es = dropWhile (\<lambda>e. e \<le> h) es0" "es \<noteq> []"
    by (auto simp: pruned_def Let_def split: if_splits)
  then show ?thesis by (metis last_appendR takeWhile_dropWhile_id)
qed

lemma filter_filter_le:
  fixes h h' :: int
  shows "h \<le> h' \<Longrightarrow> filter (\<lambda>e. h' < e) (filter (\<lambda>e. h < e) es) = filter (\<lambda>e. h' < e) es"
  by (induction es) auto

lemma limiter_ok_sorted: "limiter_ok n w l now \<Longrightarrow> events l k = Some es \<Longrightarrow> sorted es"
  by (simp add: limiter_ok_def)

lemma limiter_ok_pruned:
  assumes "limiter_ok n w l now" and "events l' = (\<lambda>k. if k \<in> A then pruned h (events l k) else events l k)"
    and "limit l' = n" and "window l' = w"
  shows "limiter_ok n w l' now"
proof -
  have "es \<noteq> [] \<and> sorted es \<and> last es \<le> now" if e: "events l' k = Some es" for k es
  proof (cases "k \<in> A")
    case True
    with e assms(2) have p: "pruned h (events l k) = Some es" by simp
    then obtain es0 where es0: "events l k = Some es0" by (auto simp: pruned_def split: option.splits)
    have "last es = last es0" by (rule pruned_last [OF p es0])
    moreover have "es \<noteq> [] \<and> sorted es"
      by (rule pruned_spec(2) [OF _ p]) (use assms(1) in \<open>auto simp: limiter_ok_def\<close>)
    ultimately show ?thesis using assms(1) es0 by (simp add: limiter_ok_def)
  next
    case False
    with e assms(1,2) show ?thesis by (simp add: limiter_ok_def)
  qed
  then show ?thesis using assms(3,4) by (simp add: limiter_ok_def)
qed

lemma recent_pruned:
  assumes "limiter_ok n w l now" and "h \<le> t - seconds w"
    and "events l' = (\<lambda>k. if k \<in> A then pruned h (events l k) else events l k)"
  shows "recent_events w l' k t = recent_events w l k t"
proof (cases "k \<in> A")
  case True
  have "(case pruned h (events l k) of None \<Rightarrow> [] | Some es \<Rightarrow> es) =
      filter (\<lambda>e. h < e) (case events l k of None \<Rightarrow> [] | Some es \<Rightarrow> es)"
    by (rule pruned_spec(1)) (rule limiter_ok_sorted [OF assms(1)])
  with True assms(3) show ?thesis
    unfolding recent_events_def using filter_filter_le [OF assms(2)] by simp
qed (simp add: recent_events_def assms(3))

lemma snd_retry_after:
  "snd (retry_after l k now) = l\<lparr>events := (\<lambda>k'. if k' \<in> {k} then pruned (now - seconds (window l)) (events l k') else events l k')\<rparr>"
  by (auto simp: retry_after_def prune_def Let_def fun_eq_iff split: option.splits)

lemma fst_retry_after:
  assumes "limiter_ok n w l now"
  shows "fst (retry_after l k now) = None \<longleftrightarrow> recent_events w l k now = [] \<or> length (recent_events w l k now) < n"
proof -
  let ?q = "pruned (now - seconds w) (events l k)"
  note srt = limiter_ok_sorted [OF assms, of k]
  have "(case ?q of None \<Rightarrow> [] | Some es \<Rightarrow> es) = recent_events w l k now"
    unfolding recent_events_def by (rule pruned_spec(1)) (rule srt)
  then have q: "es = recent_events w l k now" if "?q = Some es" for es using that by simp
  have none: "?q = None \<longleftrightarrow> recent_events w l k now = []"
    unfolding recent_events_def by (rule pruned_None_iff) (rule srt)
  have "limit l = n" "window l = w" using assms by (simp_all add: limiter_ok_def)
  moreover have "fst (retry_after l k now) =
      (case ?q of None \<Rightarrow> None | Some es \<Rightarrow>
         if length es < limit l then None else Some (max 1 ((hd es + seconds w - now) div 1000000 + 1)))"
    using calculation by (simp add: retry_after_def prune_def Let_def split: option.splits)
  ultimately show ?thesis using q none by (auto split: option.splits if_splits)
qed

definition raw_add :: "limiter \<Rightarrow> string \<Rightarrow> int \<Rightarrow> limiter" where
  "raw_add l key now =
     l\<lparr>events := (events l)(key := Some ((case events l key of None \<Rightarrow> [] | Some q \<Rightarrow> q) @ [now]))\<rparr>"

lemma raw_add_ok:
  assumes "limiter_ok n w l now"
  shows "limiter_ok n w (raw_add l k now) now"
proof -
  have "sorted (es @ [now])" if "events l k = Some es" for es
    using that assms sorted_le_last [of es] by (auto simp: limiter_ok_def sorted_append intro: order_trans)
  with assms show ?thesis by (auto simp: limiter_ok_def raw_add_def split: option.splits)
qed

lemma raw_add_recent:
  "recent_events w (raw_add l k now) k' t =
     recent_events w l k' t @ (if k' = k \<and> t - seconds w < now then [now] else [])"
  by (auto simp: recent_events_def raw_add_def)

lemma add_event_raw:
  "events (add_event l k now) = (\<lambda>k'. if k' \<in> (if since_sweep l + 1 \<ge> SWEEP_EVERY then UNIV else {})
     then pruned (now - seconds (window l)) (events (raw_add l k now) k') else events (raw_add l k now) k')"
  by (auto simp: add_event_def raw_add_def Let_def)

lemma add_event_fields [simp]: "limit (add_event l k now) = limit l" "window (add_event l k now) = window l"
  by (simp_all add: add_event_def Let_def)

interpretation rl: sliding_window retry_after add_event n "seconds w" "recent_events w" "limiter_ok n w" for n w
proof
  fix l now k k' t
  assume ok: "limiter_ok n w l now"
  show "fst (retry_after l k now) = None \<longleftrightarrow> recent_events w l k now = [] \<or> length (recent_events w l k now) < n"
    by (rule fst_retry_after [OF ok])
  have w: "window l = w" "limit l = n" using ok by (simp_all add: limiter_ok_def)
  show "limiter_ok n w (snd (retry_after l k now)) now"
    by (rule limiter_ok_pruned [OF ok, where A = "{k}" and h = "now - seconds w"])
      (simp_all add: snd_retry_after w fun_eq_iff)
  show "limiter_ok n w (add_event l k now) now"
    by (rule limiter_ok_pruned [OF raw_add_ok [OF ok] add_event_raw]) (simp_all add: w)
  show "recent_events w (snd (retry_after l k now)) k' t = recent_events w l k' t" if "now \<le> t"
    by (rule recent_pruned [OF ok, where A = "{k}" and h = "now - seconds w"])
      (use that in \<open>simp_all add: snd_retry_after w fun_eq_iff\<close>)
  show "recent_events w (add_event l k now) k' t =
      recent_events w l k' t @ (if k' = k \<and> t - seconds w < now then [now] else [])" if "now \<le> t"
    using recent_pruned [OF raw_add_ok [OF ok] _ add_event_raw, of t] that
    by (simp add: w raw_add_recent)
  show "limiter_ok n w l t" if "now \<le> t"
    using ok that by (auto simp: limiter_ok_def intro: order_trans)
qed

text \<open>What \<open>take\<close> lets through of a sequence of attempts.\<close>

fun take_all :: "limiter \<Rightarrow> (string \<times> int) list \<Rightarrow> (string \<times> int) list" where
  "take_all l [] = []"
| "take_all l ((k, now) # as) =
     (case take_limit l k now of
        (Some _, l1) \<Rightarrow> take_all l1 as
      | (None, l1) \<Rightarrow> (k, now) # take_all l1 as)"

lemma take_all_attempts: "take_all l as = attempts retry_after add_event l as"
  by (induction as arbitrary: l)
    (auto simp: take_limit_def check_limit_def split: prod.splits option.splits)

lemma fresh_tracks: "rl.tracks w n (Limiter n w) [] now"
  by (simp add: rl.tracks_def limiter_ok_def Limiter_def recent_events_def counted_def)

subsection \<open>Properties\<close>

text \<open>
  C25: the limiter counts a true sliding window.  Over any sequence of attempts with a clock that
  does not go back, what \<open>take\<close> lets through is exactly what a log that forgets nothing would
  admit, although the limiter prunes each queue only when its key is asked for and forgets idle
  keys every thousand events; and in no window of the limiter's length are more than its limit
  of attempts of one key let through.
\<close>

theorem limiter_refines_log:
  assumes "sorted (t0 # map snd as)" and "t0 \<le> t" and "0 < n"
  shows "take_all (Limiter n w) as = admitted n (seconds w) [] as \<and>
    length (counted (seconds w) (filter (\<lambda>(_, e). e \<le> t) (take_all (Limiter n w) as)) k t) \<le> n"
  using rl.attempts_refine [OF fresh_tracks assms(1), of n w]
    rl.attempts_bounded [OF assms(3) fresh_tracks assms(1,2), of w k]
  by (simp add: take_all_attempts)

theorem limiter_refines_log_witness:
  "take_all (Limiter 2 60) [(''a'', 0), (''a'', 1), (''b'', 2), (''a'', 3), (''a'', 60000001)] =
     [(''a'', 0), (''a'', 1), (''b'', 2), (''a'', 60000001)] \<and>
   length (counted (seconds 60) (filter (\<lambda>(_, e). e \<le> 60000001) (take_all (Limiter 2 60)
     [(''a'', 0), (''a'', 1), (''b'', 2), (''a'', 3), (''a'', 60000001)])) ''a'' 60000001) \<le> 2"
proof -
  let ?as = "[(''a'', 0), (''a'', 1), (''b'', 2), (''a'', 3), (''a'', 60000001)]"
  have "sorted ((0::int) # map snd ?as)" by simp
  moreover have "(0::int) \<le> 60000001" "0 < (2::nat)" by simp_all
  ultimately have r: "take_all (Limiter 2 60) ?as = admitted 2 (seconds 60) [] ?as \<and>
      length (counted (seconds 60) (filter (\<lambda>(_, e). e \<le> 60000001) (take_all (Limiter 2 60) ?as)) ''a'' 60000001) \<le> 2"
    by (rule limiter_refines_log)
  have "admitted 2 (seconds 60) [] ?as = [(''a'', 0), (''a'', 1), (''b'', 2), (''a'', 60000001)]" by code_simp
  from trans [OF conjunct1 [OF r] this] conjunct2 [OF r] show ?thesis by (rule conjI)
qed

text \<open>
  C26: the \<open>Retry-After\<close> of a refusal is honest.  A key that has used up exactly its limit and is
  told to wait \<open>n\<close> seconds is refused for at least one and at most one second more than the
  window, and if it stays quiet for those \<open>n\<close> seconds its next attempt goes through.
\<close>

theorem retry_after_honest:
  assumes "limiter_ok m w l now" and "length (recent_events w l k now) = m" and "0 \<le> w"
    and "fst (retry_after l k now) = Some n"
  shows "1 \<le> n \<and> n \<le> w + 1 \<and> fst (take_limit (snd (retry_after l k now)) k (now + seconds n)) = None"
proof -
  let ?es = "recent_events w l k now" and ?l = "snd (retry_after l k now)"
  let ?q = "pruned (now - seconds w) (events l k)"
  have lw: "limit l = m" "window l = w" using assms(1) by (simp_all add: limiter_ok_def)
  have "(case ?q of None \<Rightarrow> [] | Some es \<Rightarrow> es) = ?es"
    unfolding recent_events_def by (rule pruned_spec(1)) (rule limiter_ok_sorted [OF assms(1)])
  then obtain q: "?q = Some ?es" and n: "n = max 1 ((hd ?es + seconds w - now) div 1000000 + 1)"
    using assms(4) lw by (auto simp: retry_after_def prune_def Let_def split: option.splits if_splits)
  have ne: "?es \<noteq> []" using pruned_spec(2) [OF _ q] limiter_ok_sorted [OF assms(1)] by blast
  then have hd: "hd ?es \<in> set ?es" by simp
  then have "now - seconds w < hd ?es" by (simp add: recent_events_def)
  moreover have "hd ?es \<le> now"
  proof -
    obtain es0 where "events l k = Some es0" using q by (auto simp: pruned_def split: option.splits)
    with hd assms(1) sorted_le_last [of es0 "hd ?es"] show ?thesis
      by (auto simp: recent_events_def limiter_ok_def intro: order_trans)
  qed
  ultimately have b: "1 \<le> n" "n \<le> w + 1" "hd ?es + seconds w < now + seconds n"
    using n by (auto simp: seconds_def)
  have ok: "limiter_ok m w ?l (now + seconds n)"
    by (rule rl.ok_later [OF rl.wait_ok [OF assms(1)]]) (use b in \<open>simp add: seconds_def\<close>)
  have "recent_events w ?l k (now + seconds n) = filter (\<lambda>e. now + seconds n - seconds w < e) ?es"
  proof -
    have "recent_events w ?l k (now + seconds n) = recent_events w l k (now + seconds n)"
      by (rule rl.wait_recent [OF assms(1)]) (use b in \<open>simp add: seconds_def\<close>)
    moreover have "\<dots> = filter (\<lambda>e. now + seconds n - seconds w < e) ?es"
      unfolding recent_events_def by (rule filter_filter_le [symmetric]) (use b in \<open>simp add: seconds_def\<close>)
    ultimately show ?thesis by simp
  qed
  also have "\<dots> = filter (\<lambda>e. now + seconds n - seconds w < e) (tl ?es)"
    using ne b(3) by (cases ?es) auto
  finally have "length (recent_events w ?l k (now + seconds n)) \<le> length (tl ?es)"
    by (metis length_filter_le)
  moreover have "length (tl ?es) < m" using ne assms(2) by (cases ?es) auto
  ultimately have "fst (retry_after ?l k (now + seconds n)) = None"
    using rl.wait_None_iff [OF ok] by simp
  with b(1,2) show ?thesis
    by (auto simp: take_limit_def check_limit_def split: prod.splits)
qed

theorem retry_after_honest_witness:
  "let l = add_event (add_event (Limiter 2 60) ''a'' 0) ''a'' 5;
       r = retry_after l ''a'' 7
   in fst r = Some 60 \<and> fst (take_limit (snd r) ''a'' (7 + seconds 60)) = None"
proof -
  let ?l = "add_event (add_event (Limiter 2 60) ''a'' 0) ''a'' 5"
  have "limiter_ok 2 60 (Limiter 2 60) 0" by (simp add: limiter_ok_def Limiter_def)
  from rl.ok_later [OF rl.add_ok [OF rl.ok_later [OF rl.add_ok [OF this], of 5]], of 7]
  have ok: "limiter_ok 2 60 ?l 7" by simp
  have "length (recent_events 60 ?l ''a'' 7) = 2" "fst (retry_after ?l ''a'' 7) = Some 60" by code_simp+
  with retry_after_honest [OF ok] show ?thesis by simp
qed

end
