(* ===== verification/Sessions.thy ===== *)
theory Sessions
  imports Models Plans Ratelimit "HOL-Library.Multiset"
begin

section \<open>Signing in (\<open>pwa/auth/jwt.py\<close>, \<open>pwa/services/app_sessions.py\<close>, \<open>pwa/api/auth.py\<close>)\<close>

text \<open>
  Access tokens, the long-lived sign-ins of the app and the three endpoints that issue, renew
  and end them.  What is not in the repository is the record \<open>crypto\<close>: SHA-256, argon2's
  verification and hashing, and the encoding and decoding of signed tokens.  A random token is
  the argument \<open>tok\<close> of the operation that draws it.

  What the code relies on of the token library is \<open>signs_tokens\<close>: a token decodes, before its
  end, to the claims it was made from, and no longer after it.
\<close>

record claims =
  sub :: string
  role :: string
  exp :: datetime

record crypto =
  sha256 :: "string \<Rightarrow> string"
  pwd_verify :: "string \<Rightarrow> string \<Rightarrow> bool"
  pwd_hash :: "string \<Rightarrow> string"
  jwt_encode :: "claims \<Rightarrow> string"
  jwt_decode :: "string \<Rightarrow> datetime \<Rightarrow> claims option"

subsection \<open>Tokens (\<open>auth/jwt.py\<close>)\<close>

definition ACCESS_TOKEN_EXPIRE_MINUTES :: int where
  "ACCESS_TOKEN_EXPIRE_MINUTES = 60 * 24"

text \<open>A setting that is not a number stops the import: \<open>None\<close>.\<close>

definition ADMIN_TOKEN_EXPIRE_MINUTES :: "env \<Rightarrow> int option" where
  "ADMIN_TOKEN_EXPIRE_MINUTES e = py_int (getenv e ''ADMIN_TOKEN_EXPIRE_MINUTES'' ''120'')"

definition create_token :: "crypto \<Rightarrow> env \<Rightarrow> string \<Rightarrow> string \<Rightarrow> datetime \<Rightarrow> string" where
  "create_token K e s r now =
     (let m = (if r = ''admin'' then the (ADMIN_TOKEN_EXPIRE_MINUTES e) else ACCESS_TOKEN_EXPIRE_MINUTES)
      in jwt_encode K \<lparr>sub = s, role = r, exp = now + minutes m\<rparr>)"

definition decode_token :: "crypto \<Rightarrow> string \<Rightarrow> datetime \<Rightarrow> http_error + claims" where
  "decode_token K token now =
     (case jwt_decode K token now of
        None \<Rightarrow> Inl (http 401 ''Invalid or expired token'')
      | Some c \<Rightarrow> Inr c)"

definition require_auth :: "crypto \<Rightarrow> string \<Rightarrow> datetime \<Rightarrow> http_error + claims" where
  "require_auth K token now = decode_token K token now"

definition require_admin :: "crypto \<Rightarrow> string \<Rightarrow> datetime \<Rightarrow> http_error + claims" where
  "require_admin K token now =
     (case decode_token K token now of
        Inl err \<Rightarrow> Inl err
      | Inr c \<Rightarrow>
          if role c \<noteq> ''admin'' then Inl (http 403 ''Admin privileges required'') else Inr c)"

subsection \<open>Long-lived sign-ins (\<open>services/app_sessions.py\<close>)\<close>

definition APP_SESSION_DAYS :: int where
  "APP_SESSION_DAYS = 90"

definition MAX_SESSIONS_PER_USER :: nat where
  "MAX_SESSIONS_PER_USER = 10"

definition digest :: "crypto \<Rightarrow> string \<Rightarrow> string" where
  "digest K token = sha256 K token"

definition delete_sessions :: "(app_session \<Rightarrow> bool) \<Rightarrow> db \<Rightarrow> db" where
  "delete_sessions Q d = d\<lparr>app_sessions := filter (\<lambda>r. \<not> Q r) (app_sessions d)\<rparr>"

definition open_session :: "crypto \<Rightarrow> user \<Rightarrow> string \<Rightarrow> datetime \<Rightarrow> db \<Rightarrow> db" where
  "open_session K u tok now d =
     (let d1 = delete_sessions (\<lambda>r. as_user_id r = u_id u \<and> as_expires_at r < now) d;
          rows = map as_id (sort_key (\<lambda>r. - last_used_at r)
                   (filter (\<lambda>r. as_user_id r = u_id u) (app_sessions d1)));
          stale = List.drop (MAX_SESSIONS_PER_USER - 1) rows;
          d2 = (if stale \<noteq> [] then delete_sessions (\<lambda>r. as_id r \<in> set stale) d1 else d1);
          (i, d3) = new_uuid d2;
          row = \<lparr>as_id = i, as_user_id = u_id u, token_hash = digest K tok, as_created_at = now,
                 last_used_at = now, as_expires_at = now + days APP_SESSION_DAYS\<rparr>
      in d3\<lparr>app_sessions := app_sessions d3 @ [row]\<rparr>)"

definition session_of :: "crypto \<Rightarrow> string \<Rightarrow> db \<Rightarrow> app_session option" where
  "session_of K token d = List.find (\<lambda>r. token_hash r = digest K token) (app_sessions d)"

definition put_session :: "app_session \<Rightarrow> db \<Rightarrow> db" where
  "put_session r d = d\<lparr>app_sessions := update_where (\<lambda>x. as_id x = as_id r) (\<lambda>_. r) (app_sessions d)\<rparr>"

definition use_session :: "crypto \<Rightarrow> string \<Rightarrow> datetime \<Rightarrow> db \<Rightarrow> user option \<times> db" where
  "use_session K token now d =
     (if token = [] \<or> length token > 128 then (None, d)
      else
        case session_of K token d of
          None \<Rightarrow> (None, d)
        | Some row \<Rightarrow>
            if as_expires_at row \<le> now then (None, delete_sessions (\<lambda>r. as_id r = as_id row) d)
            else
              (case get_user d (as_user_id row) of
                 None \<Rightarrow> (None, d)
               | Some u \<Rightarrow>
                   if \<not> u_is_active u then (None, d)
                   else (Some u, put_session (row\<lparr>last_used_at := now,
                                                 as_expires_at := now + days APP_SESSION_DAYS\<rparr>) d)))"

definition close_session :: "crypto \<Rightarrow> string \<Rightarrow> db \<Rightarrow> db" where
  "close_session K token d =
     (if token \<noteq> [] \<and> length token \<le> 128
      then delete_sessions (\<lambda>r. token_hash r = digest K token) d else d)"

definition close_all :: "user \<Rightarrow> db \<Rightarrow> db" where
  "close_all u d = delete_sessions (\<lambda>r. as_user_id r = u_id u) d"

subsection \<open>The endpoints (\<open>api/auth.py\<close>)\<close>

definition ADMIN_USERNAME :: "env \<Rightarrow> string" where
  "ADMIN_USERNAME e = getenv e ''ADMIN_USERNAME'' ''admin''"

record login_request =
  lr_username :: string
  lr_password :: string
  lr_refresh :: bool

record token_response =
  access_token :: string
  tr_role :: string
  refresh_token :: "string option"

text \<open>The address the limits count by: nginx's header, or the peer's address.\<close>

definition resolve_source_ip :: "string option \<Rightarrow> string option \<Rightarrow> string" where
  "resolve_source_ip x_real_ip client_host =
     (case x_real_ip of
        Some ip \<Rightarrow> if ip \<noteq> [] then ip else (case client_host of Some h \<Rightarrow> h | None \<Rightarrow> [])
      | None \<Rightarrow> (case client_host of Some h \<Rightarrow> h | None \<Rightarrow> []))"

text \<open>
  \<open>admin_hash\<close> is \<open>ADMIN_PASSWORD_HASH\<close>, computed when the process starts.  Fields over
  their declared length are refused (422) before the handler runs.
\<close>

definition login ::
  "crypto \<Rightarrow> env \<Rightarrow> string \<Rightarrow> string \<Rightarrow> login_request \<Rightarrow> string \<Rightarrow> datetime \<Rightarrow> int \<Rightarrow> limits \<Rightarrow> db \<Rightarrow>
   token_response reply \<times> limits \<times> db"
where
  "login K e admin_hash ip req tok now clk L d =
     (if length (lr_username req) > 64 \<or> length (lr_password req) > 128
        then (Done (Inl (http 422 ''string_too_long'')), L, d)
      else
        let fail_key = ip @ ''|'' @ lower (lr_username req);
            (over_ip, per_ip) = take_limit (LOGIN_PER_IP L) ip clk;
            L1 = L\<lparr>LOGIN_PER_IP := per_ip\<rparr>
        in case over_ip of
             Some err \<Rightarrow> (Done (Inl err), L1, d)
           | None \<Rightarrow>
               (let (over_fails, fails) = check_limit (LOGIN_FAILS L1) fail_key clk;
                    L2 = L1\<lparr>LOGIN_FAILS := fails\<rparr>;
                    refused = (Done (Inl (http 401 ''Invalid credentials'')),
                               L2\<lparr>LOGIN_FAILS := add_event fails fail_key clk\<rparr>, d)
                in case over_fails of
                     Some err \<Rightarrow> (Done (Inl err), L2, d)
                   | None \<Rightarrow>
                       if lr_username req = ADMIN_USERNAME e then
                         if \<not> pwd_verify K (lr_password req) admin_hash then refused
                         else (Done (Inr \<lparr>access_token = create_token K e (lr_username req) ''admin'' now,
                                          tr_role = ''admin'', refresh_token = None\<rparr>), L2, d)
                       else
                         (case filter (\<lambda>u. lower (username u) = lower (lr_username req)) (users d) of
                            [] \<Rightarrow> refused
                          | [u] \<Rightarrow>
                              if \<not> pwd_verify K (lr_password req) (password_hash u) then refused
                              else if \<not> u_is_active u
                                then (Done (Inl (http 403 ''Account disabled'')), L2, d)
                              else
                                let token = create_token K e (username u) ''client'' now in
                                if lr_refresh req
                                then (Done (Inr \<lparr>access_token = token, tr_role = ''client'',
                                                 refresh_token = Some tok\<rparr>), L2, open_session K u tok now d)
                                else (Done (Inr \<lparr>access_token = token, tr_role = ''client'',
                                                 refresh_token = None\<rparr>), L2, d)
                          | _ \<Rightarrow> (Raised, L2, d))))"

definition refresh ::
  "crypto \<Rightarrow> env \<Rightarrow> string \<Rightarrow> string \<Rightarrow> datetime \<Rightarrow> int \<Rightarrow> limits \<Rightarrow> db \<Rightarrow> token_response reply \<times> limits \<times> db"
where
  "refresh K e ip rtoken now clk L d =
     (if length rtoken > 128 then (Done (Inl (http 422 ''string_too_long'')), L, d)
      else
        let (over_ip, per_ip) = take_limit (LOGIN_PER_IP L) ip clk;
            L1 = L\<lparr>LOGIN_PER_IP := per_ip\<rparr>
        in case over_ip of
             Some err \<Rightarrow> (Done (Inl err), L1, d)
           | None \<Rightarrow>
               (case use_session K rtoken now d of
                  (None, d1) \<Rightarrow> (Done (Inl (http 401 ''Invalid or expired token'')), L1, d1)
                | (Some u, d1) \<Rightarrow>
                    (Done (Inr \<lparr>access_token = create_token K e (username u) ''client'' now,
                                tr_role = ''client'', refresh_token = None\<rparr>), L1, d1)))"

definition logout :: "crypto \<Rightarrow> string \<Rightarrow> db \<Rightarrow> unit reply \<times> db" where
  "logout K rtoken d =
     (if length rtoken > 128 then (Done (Inl (http 422 ''string_too_long'')), d)
      else (Done (Inr ()), close_session K rtoken d))"

definition verify :: "crypto \<Rightarrow> string \<Rightarrow> datetime \<Rightarrow> http_error + string \<times> string" where
  "verify K token now =
     (case require_auth K token now of Inl err \<Rightarrow> Inl err | Inr c \<Rightarrow> Inr (sub c, role c))"

subsection \<open>Lemmas\<close>

definition signs_tokens :: "crypto \<Rightarrow> bool" where
  "signs_tokens K =
     (\<forall>c t. (t \<le> exp c \<longrightarrow> jwt_decode K (jwt_encode K c) t \<noteq> None) \<and>
        (\<forall>c'. jwt_decode K (jwt_encode K c) t = Some c' \<longrightarrow>
           sub c' = sub c \<and> role c' = role c \<and> t < exp c + seconds 1))"

definition sessions_of :: "string \<Rightarrow> db \<Rightarrow> app_session list" where
  "sessions_of uid d = filter (\<lambda>r. as_user_id r = uid) (app_sessions d)"

text \<open>No account has more than \<open>MAX_SESSIONS_PER_USER\<close> sign-ins.\<close>

definition sessions_bounded :: "db \<Rightarrow> bool" where
  "sessions_bounded d = (\<forall>uid. length (sessions_of uid d) \<le> MAX_SESSIONS_PER_USER)"

lemma sessions_of_delete: "sessions_of uid (delete_sessions Q d) = filter (\<lambda>r. \<not> Q r) (sessions_of uid d)"
  by (simp add: sessions_of_def delete_sessions_def conj_commute)

lemma sessions_bounded_delete: "sessions_bounded d \<Longrightarrow> sessions_bounded (delete_sessions Q d)"
  unfolding sessions_bounded_def sessions_of_delete by (meson le_trans length_filter_le)

lemma length_filter_dropped:
  assumes "mset ys = mset xs"
  shows "length (filter (\<lambda>x. k x \<notin> set (List.drop n (map k ys))) xs) \<le> n"
proof -
  let ?Q = "\<lambda>x. k x \<notin> set (List.drop n (map k ys))"
  have "length (filter ?Q xs) = length (filter ?Q ys)"
    using assms by (metis mset_filter size_mset)
  also have "filter ?Q ys = filter ?Q (take n ys) @ filter ?Q (List.drop n ys)"
    by (metis append_take_drop_id filter_append)
  also have "filter ?Q (List.drop n ys) = []"
    by (auto simp: filter_empty_conv drop_map)
  finally show ?thesis by (simp add: le_trans [OF length_filter_le])
qed

lemma open_session_spec:
  fixes d u now
  defines "old \<equiv> filter (\<lambda>r. \<not> as_expires_at r < now) (sessions_of (u_id u) d)"
  obtains kept row Q where
    "sessions_of (u_id u) (open_session K u tok now d) = kept @ [row]" "set kept \<subseteq> set old"
    "length kept \<le> MAX_SESSIONS_PER_USER - 1"
    "as_user_id row = u_id u" "token_hash row = digest K tok" "as_expires_at row = now + days APP_SESSION_DAYS"
    "as_id row = uuid_tape d (uuid_pos d)"
    "app_sessions (open_session K u tok now d) = filter Q (app_sessions d) @ [row]"
proof -
  define d1 where "d1 = delete_sessions (\<lambda>r. as_user_id r = u_id u \<and> as_expires_at r < now) d"
  define rows where "rows = map as_id (sort_key (\<lambda>r. - last_used_at r) (sessions_of (u_id u) d1))"
  define stale where "stale = List.drop (MAX_SESSIONS_PER_USER - 1) rows"
  define d2 where "d2 = delete_sessions (\<lambda>r. as_id r \<in> set stale) d1"
  define row where "row = \<lparr>as_id = uuid_tape d (uuid_pos d), as_user_id = u_id u, token_hash = digest K tok,
      as_created_at = now, last_used_at = now, as_expires_at = now + days APP_SESSION_DAYS\<rparr>"
  have d2: "(if stale \<noteq> [] then delete_sessions (\<lambda>r. as_id r \<in> set stale) d1 else d1) = d2"
    by (auto simp: d2_def delete_sessions_def)
  have new: "app_sessions (open_session K u tok now d) = app_sessions d2 @ [row]"
    using d2 unfolding open_session_def Let_def d1_def [symmetric]
    unfolding sessions_of_def [symmetric] rows_def [symmetric] stale_def [symmetric]
    by (simp add: new_uuid_def row_def d2_def d1_def delete_sessions_def)
  have "sessions_of (u_id u) d1 = old"
    unfolding old_def d1_def sessions_of_delete by (auto simp: sessions_of_def intro: filter_cong)
  then have kept: "sessions_of (u_id u) d2 = filter (\<lambda>r. as_id r \<notin> set stale) old"
    by (simp add: d2_def sessions_of_delete)
  have "length (sessions_of (u_id u) d2) \<le> MAX_SESSIONS_PER_USER - 1"
    unfolding kept stale_def rows_def \<open>sessions_of (u_id u) d1 = old\<close>
    by (rule length_filter_dropped) simp
  moreover have "sessions_of (u_id u) (open_session K u tok now d) = sessions_of (u_id u) d2 @ [row]"
    by (simp add: sessions_of_def new row_def)
  moreover have "set (sessions_of (u_id u) d2) \<subseteq> set old" by (auto simp: kept)
  moreover have "app_sessions d2 = filter (\<lambda>r. \<not> (as_user_id r = u_id u \<and> as_expires_at r < now) \<and> as_id r \<notin> set stale)
      (app_sessions d)"
    by (simp add: d2_def d1_def delete_sessions_def conj_commute)
  ultimately show thesis using new by (intro that [of "sessions_of (u_id u) d2" row]) (simp_all add: row_def)
qed

lemma open_session_others:
  assumes "uid \<noteq> u_id u"
  shows "length (sessions_of uid (open_session K u tok now d)) \<le> length (sessions_of uid d)"
proof (rule open_session_spec [of u K tok now d])
  fix kept row Q
  assume "app_sessions (open_session K u tok now d) = filter Q (app_sessions d) @ [row]" "as_user_id row = u_id u"
  then have "sessions_of uid (open_session K u tok now d) = filter Q (sessions_of uid d)"
    using assms by (simp add: sessions_of_def conj_commute)
  then show ?thesis by simp
qed

lemma sessions_bounded_open: "sessions_bounded d \<Longrightarrow> sessions_bounded (open_session K u tok now d)"
proof -
  assume b: "sessions_bounded d"
  have "length (sessions_of uid (open_session K u tok now d)) \<le> MAX_SESSIONS_PER_USER" for uid
  proof (cases "uid = u_id u")
    case True
    then show ?thesis
      by (rule_tac open_session_spec [of u K tok now d]) (auto simp: MAX_SESSIONS_PER_USER_def)
  next
    case False
    with b open_session_others [OF False, of K tok now d] show ?thesis
      by (auto simp: sessions_bounded_def intro: le_trans)
  qed
  then show ?thesis by (simp add: sessions_bounded_def)
qed

lemma sessions_of_put:
  assumes "distinct (map as_id (app_sessions d))" and "r0 \<in> set (app_sessions d)"
    and "as_id r = as_id r0" and "as_user_id r = as_user_id r0"
  shows "length (sessions_of uid (put_session r d)) = length (sessions_of uid d)"
proof -
  have same: "x = r0" if "x \<in> set (app_sessions d)" "as_id x = as_id r" for x
    using that assms by (metis distinct_map_eqD)
  show ?thesis
    unfolding sessions_of_def put_session_def update_where_def
    by (simp add: filter_map comp_def) (rule arg_cong [where f = length], rule filter_cong, use same assms in auto)
qed

lemma use_session_cases:
  assumes "use_session K token now d = (r, d')"
  obtains (unknown) "r = None" "d' = d"
  | (expired) row :: app_session where "r = None" "d' = delete_sessions (\<lambda>x. as_id x = as_id row) d"
  | (used) row u where "r = Some u" "session_of K token d = Some row" "get_user d (as_user_id row) = Some u"
      "u_is_active u" "now < as_expires_at row"
      "d' = put_session (row\<lparr>last_used_at := now, as_expires_at := now + days APP_SESSION_DAYS\<rparr>) d"
proof (cases "token = [] \<or> length token > 128 \<or> session_of K token d = None")
  case True
  then have "(r, d') = (None, d)" using assms by (auto simp: use_session_def split: if_splits)
  with unknown show ?thesis by blast
next
  case False
  then obtain row where row: "session_of K token d = Some row" by auto
  note run = assms [unfolded use_session_def]
  show ?thesis
  proof (cases "as_expires_at row \<le> now")
    case True
    with run False row have "(r, d') = (None, delete_sessions (\<lambda>x. as_id x = as_id row) d)" by simp
    with expired [of row] show ?thesis by simp
  next
    case live: False
    show ?thesis
    proof (cases "\<exists>u. get_user d (as_user_id row) = Some u \<and> u_is_active u")
      case True
      then obtain u where u: "get_user d (as_user_id row) = Some u" "u_is_active u" by blast
      with run False row live show ?thesis by (intro used [of u row]) auto
    next
      case no: False
      with run False row live have "(r, d') = (None, d)" by (auto split: option.splits if_splits)
      with unknown show ?thesis by blast
    qed
  qed
qed

lemma use_session_bounded:
  assumes "use_session K token now d = (r, d')" and "distinct (map as_id (app_sessions d))"
  shows "length (sessions_of uid d') \<le> length (sessions_of uid d)"
  using assms(1)
proof (cases rule: use_session_cases)
  case (used row u)
  have "row \<in> set (app_sessions d)" using used(2) by (auto simp: session_of_def dest: find_SomeD)
  from sessions_of_put [OF assms(2) this] used(6) show ?thesis by simp
qed (auto simp: sessions_of_delete)

lemma session_of_None: "session_of K token d = None \<longleftrightarrow> (\<forall>r\<in>set (app_sessions d). token_hash r \<noteq> digest K token)"
  by (simp add: session_of_def find_None_iff_list)

lemma no_session_no_use: "session_of K token d = None \<Longrightarrow> use_session K token now d = (None, d)"
  by (simp add: use_session_def)

lemma signs_tokensD:
  "signs_tokens K \<Longrightarrow> jwt_decode K (jwt_encode K c) t = Some c' \<Longrightarrow>
   sub c' = sub c \<and> role c' = role c \<and> t < exp c + seconds 1"
  by (auto simp: signs_tokens_def)

subsection \<open>Properties\<close>

text \<open>
  C27: only the administrator's password opens the administrator's pages.  A token that
  \<open>login\<close> hands out and \<open>require_admin\<close> accepts was given for the configured administrator's
  name and a password that verifies against its hash, and is accepted for no longer than its
  minutes (and the second in which they end); a token that \<open>refresh\<close> hands out is never
  accepted there, and names an active account whose session was presented.
\<close>

theorem admin_needs_password:
  assumes "signs_tokens K"
  shows "(case login K e admin_hash ip req tok now clk L d of
       (Done (Inr resp), _, _) \<Rightarrow>
         (case require_admin K (access_token resp) t of
            Inr c \<Rightarrow> lr_username req = ADMIN_USERNAME e \<and> pwd_verify K (lr_password req) admin_hash \<and>
              sub c = ADMIN_USERNAME e \<and> t < now + minutes (the (ADMIN_TOKEN_EXPIRE_MINUTES e)) + seconds 1 \<and>
              refresh_token resp = None
          | Inl _ \<Rightarrow> True)
     | _ \<Rightarrow> True) \<and>
    (case refresh K e ip rtoken now clk L d of
       (Done (Inr resp), _, _) \<Rightarrow>
         (\<exists>err. require_admin K (access_token resp) t = Inl err) \<and>
         (\<exists>u row. session_of K rtoken d = Some row \<and> now < as_expires_at row \<and>
            get_user d (as_user_id row) = Some u \<and> u_is_active u \<and>
            access_token resp = create_token K e (username u) ''client'' now)
     | _ \<Rightarrow> True)"
proof -
  have client: "\<exists>err. require_admin K (create_token K e s ''client'' now) t = Inl err" for s
    using assms by (auto simp: require_admin_def decode_token_def create_token_def Let_def
        split: option.splits dest!: signs_tokensD)
  have admin: "case require_admin K (create_token K e s ''admin'' now) t of
      Inr c \<Rightarrow> sub c = s \<and> t < now + minutes (the (ADMIN_TOKEN_EXPIRE_MINUTES e)) + seconds 1 | Inl _ \<Rightarrow> True" for s
    using assms by (auto simp: require_admin_def decode_token_def create_token_def Let_def
        split: option.splits sum.splits dest!: signs_tokensD)
  obtain r L' d' where run: "login K e admin_hash ip req tok now clk L d = (r, L', d')" by (rule prod_cases3)
  have login: "lr_username req = ADMIN_USERNAME e \<and> pwd_verify K (lr_password req) admin_hash \<and>
        resp = \<lparr>access_token = create_token K e (lr_username req) ''admin'' now, tr_role = ''admin'', refresh_token = None\<rparr> \<or>
      (\<exists>u :: user. access_token resp = create_token K e (username u) ''client'' now)"
    if "r = Done (Inr resp)" for resp
    using run that unfolding login_def Let_def
    by (auto split: if_splits prod.splits option.splits list.splits)
  obtain r2 L2 d2 where run2: "refresh K e ip rtoken now clk L d = (r2, L2, d2)" by (rule prod_cases3)
  have refresh: "\<exists>u row. session_of K rtoken d = Some row \<and> now < as_expires_at row \<and>
            get_user d (as_user_id row) = Some u \<and> u_is_active u \<and>
            access_token resp = create_token K e (username u) ''client'' now"
    if "r2 = Done (Inr resp)" for resp
  proof -
    obtain ru du where ru: "use_session K rtoken now d = (ru, du)" by force
    with run2 that obtain u where u: "ru = Some u" "access_token resp = create_token K e (username u) ''client'' now"
      unfolding refresh_def Let_def by (auto split: if_splits prod.splits option.splits)
    from ru show ?thesis by (cases rule: use_session_cases) (use u in auto)
  qed
  have A: "case require_admin K (access_token resp) t of
            Inr c \<Rightarrow> lr_username req = ADMIN_USERNAME e \<and> pwd_verify K (lr_password req) admin_hash \<and>
              sub c = ADMIN_USERNAME e \<and> t < now + minutes (the (ADMIN_TOKEN_EXPIRE_MINUTES e)) + seconds 1 \<and>
              refresh_token resp = None
          | Inl _ \<Rightarrow> True" if "r = Done (Inr resp)" for resp
    using login [OF that]
  proof
    assume "\<exists>u :: user. access_token resp = create_token K e (username u) ''client'' now"
    then obtain u :: user where "access_token resp = create_token K e (username u) ''client'' now" ..
    moreover obtain err where "require_admin K (create_token K e (username u) ''client'' now) t = Inl err"
      using client by blast
    ultimately show ?thesis by simp
  qed (use admin [of "lr_username req"] in \<open>auto split: sum.splits\<close>)
  have B: "\<exists>err. require_admin K (access_token resp) t = Inl err" if "r2 = Done (Inr resp)" for resp
    using refresh [OF that] client by auto
  show ?thesis
    unfolding run run2 using A B refresh by (auto split: outcome.splits sum.splits)
qed

text \<open>A crypto record to evaluate with: readable digests, and tokens that carry their claims.\<close>

definition read_int :: "string \<Rightarrow> int" where
  "read_int s = (if startswith s ''-'' then - int (nat_of_str (tl s)) else int (nat_of_str s))"

definition sample_crypto :: crypto where
  "sample_crypto = \<lparr>sha256 = Cons CHR ''#'', pwd_verify = (\<lambda>p h. h = CHR ''$'' # p), pwd_hash = Cons CHR ''$'',
     jwt_encode = (\<lambda>c. str_int (exp c) @ ''.'' @ str_nat (length (sub c)) @ ''.'' @ sub c @ role c),
     jwt_decode = (\<lambda>s t. let e = before CHR ''.'' s; rest = after CHR ''.'' s;
        n = nat_of_str (before CHR ''.'' rest); body = after CHR ''.'' rest
      in if t \<le> read_int e then Some \<lparr>sub = take n body, role = List.drop n body, exp = read_int e\<rparr> else None)\<rparr>"

lemma str_int_dot: "CHR ''.'' \<notin> set (str_int n)"
  using not_digit_in_str_nat [of "CHR ''.''"] by (auto simp: str_int_def is_digit_def)

lemma read_int_str_int [simp]: "read_int (str_int n) = n"
proof (cases "n < 0")
  case False
  have "\<not> startswith (str_nat m) ''-''" for m
  proof
    assume "startswith (str_nat m) ''-''"
    then have "CHR ''-'' \<in> set (str_nat m)" by (auto simp: startswith_iff_prefix prefix_def)
    then show False using not_digit_in_str_nat [of "CHR ''-''"] by (simp add: is_digit_def)
  qed
  with False show ?thesis by (simp add: str_int_def read_int_def)
qed (simp add: str_int_def startswith_def read_int_def)

lemma sample_decode: "jwt_decode sample_crypto (jwt_encode sample_crypto c) t = (if t \<le> exp c then Some c else None)"
proof -
  have dot: "CHR ''.'' \<notin> set (str_nat n)" for n by (rule not_digit_in_str_nat) (simp add: is_digit_def)
  show ?thesis
    by (simp add: sample_crypto_def Let_def before_append_same [OF str_int_dot] after_append_same [OF str_int_dot]
        before_append_same [OF dot] after_append_same [OF dot])
qed

lemma sample_signs_tokens: "signs_tokens sample_crypto"
  by (auto simp: signs_tokens_def sample_decode seconds_def split: if_splits)

theorem admin_needs_password_witness:
  "case login sample_crypto (\<lambda>_. None) ''$secret'' ''1.2.3.4''
      \<lparr>lr_username = ''admin'', lr_password = ''secret'', lr_refresh = True\<rparr> ''t'' 0 0 fresh_limits empty_db of
     (Done (Inr resp), _, _) \<Rightarrow>
       (case require_admin sample_crypto (access_token resp) (minutes 120) of
          Inr c \<Rightarrow> sub c = ''admin'' \<and> refresh_token resp = None
        | Inl _ \<Rightarrow> False)
   | _ \<Rightarrow> False"
proof -
  let ?run = "login sample_crypto (\<lambda>_. None) ''$secret'' ''1.2.3.4''
      \<lparr>lr_username = ''admin'', lr_password = ''secret'', lr_refresh = True\<rparr> ''t'' 0 0 fresh_limits empty_db"
  let ?tok = "create_token sample_crypto (\<lambda>_. None) ''admin'' ''admin'' 0"
  have name: "ADMIN_USERNAME (\<lambda>_. None) = ''admin''" "pwd_verify sample_crypto ''secret'' ''$secret''"
    "the (ADMIN_TOKEN_EXPIRE_MINUTES (\<lambda>_. None)) = 120"
    by code_simp+
  have run: "fst ?run = Done (Inr \<lparr>access_token = ?tok, tr_role = ''admin'', refresh_token = None\<rparr>)"
    by (simp add: login_def take_limit_def check_limit_def retry_after_def prune_def pruned_def fresh_limits_def
        Limiter_def name)
  have "require_admin sample_crypto ?tok (minutes 120) = Inr \<lparr>sub = ''admin'', role = ''admin'', exp = minutes 120\<rparr>"
    by (simp add: require_admin_def decode_token_def create_token_def sample_decode name)
  with conjunct1 [OF admin_needs_password [OF sample_signs_tokens, where e = "\<lambda>_. None" and admin_hash = "''$secret''"
      and ip = "''1.2.3.4''" and req = "\<lparr>lr_username = ''admin'', lr_password = ''secret'', lr_refresh = True\<rparr>"
      and tok = "''t''" and now = 0 and clk = 0 and L = fresh_limits and d = empty_db and t = "minutes 120"]] name run
  show ?thesis by (cases ?run) simp
qed

text \<open>
  The table of sign-ins stays small.  If no account has more than ten, then none has after
  any login, refresh or logout; and the login that asks for a refresh token leaves the new
  sign-in in the table and at most nine of the account's others, none of them expired.
\<close>

theorem sessions_stay_bounded:
  assumes "sessions_bounded d" and "distinct (map as_id (app_sessions d))"
  shows "sessions_bounded (snd (snd (login K e admin_hash ip req tok now clk L d))) \<and>
    sessions_bounded (snd (snd (refresh K e ip rtoken now clk L d))) \<and>
    sessions_bounded (snd (logout K rtoken d)) \<and>
    (\<exists>kept row. sessions_of (u_id u) (open_session K u tok now d) = kept @ [row] \<and> length kept \<le> 9 \<and>
       token_hash row = digest K tok \<and> (\<forall>r\<in>set kept. r \<in> set (app_sessions d) \<and> now \<le> as_expires_at r))"
proof (intro conjI)
  show "sessions_bounded (snd (snd (login K e admin_hash ip req tok now clk L d)))"
    unfolding login_def Let_def
    by (auto simp: assms(1) intro: sessions_bounded_open split: prod.splits option.splits list.splits)
  have "sessions_bounded d'" if "use_session K rtoken now d = (r, d')" for r d'
    using use_session_bounded [OF that assms(2)] assms(1) by (auto simp: sessions_bounded_def intro: le_trans)
  then show "sessions_bounded (snd (snd (refresh K e ip rtoken now clk L d)))"
    unfolding refresh_def Let_def
    by (auto simp: assms(1) split: prod.splits option.splits)
  show "sessions_bounded (snd (logout K rtoken d))"
    using sessions_bounded_delete [OF assms(1)] assms(1) by (simp add: logout_def close_session_def)
  show "\<exists>kept row. sessions_of (u_id u) (open_session K u tok now d) = kept @ [row] \<and> length kept \<le> 9 \<and>
       token_hash row = digest K tok \<and> (\<forall>r\<in>set kept. r \<in> set (app_sessions d) \<and> now \<le> as_expires_at r)"
  proof (rule open_session_spec [of u K tok now d])
    fix kept row Q
    assume "sessions_of (u_id u) (open_session K u tok now d) = kept @ [row]"
      and sub: "set kept \<subseteq> set (filter (\<lambda>r. \<not> as_expires_at r < now) (sessions_of (u_id u) d))"
      and "length kept \<le> MAX_SESSIONS_PER_USER - 1" and "token_hash row = digest K tok"
    moreover have "\<forall>r\<in>set kept. r \<in> set (app_sessions d) \<and> now \<le> as_expires_at r"
      using sub by (auto simp: sessions_of_def)
    ultimately show ?thesis by (auto simp: MAX_SESSIONS_PER_USER_def)
  qed
qed

theorem sessions_stay_bounded_witness:
  "sessions_bounded (snd (snd (login sample_crypto (\<lambda>_. None) ''$secret'' ''1.2.3.4''
      \<lparr>lr_username = ''ANN'', lr_password = [], lr_refresh = True\<rparr> ''t'' 0 0 fresh_limits
      (empty_db\<lparr>users := [(sample_user ''ann'')\<lparr>password_hash := ''$''\<rparr>]\<rparr>))))"
proof -
  let ?d = "empty_db\<lparr>users := [(sample_user ''ann'')\<lparr>password_hash := ''$''\<rparr>]\<rparr>"
  have "sessions_bounded ?d" "distinct (map as_id (app_sessions ?d))"
    by (simp_all add: sessions_bounded_def sessions_of_def empty_db_def)
  from conjunct1 [OF sessions_stay_bounded [OF this]] show ?thesis .
qed

text \<open>
  C28: a refresh token works until it is given up.  A token just opened for an active account
  is accepted at every moment of the next ninety days and moves its end ahead; after the app
  signs out it is not accepted; and after all sessions of the account are closed (a password
  reset) no token that any session of the account held is accepted.
\<close>

theorem refresh_token_lifecycle:
  assumes "get_user d (u_id u) = Some u" and "u_is_active u" and "tok \<noteq> []" and "length tok \<le> 128"
    and "\<forall>r\<in>set (app_sessions d). token_hash r \<noteq> digest K tok"
    and "distinct (map token_hash (app_sessions d))" and "now \<le> t" and "t < now + days 90"
  shows "(\<exists>row d'. use_session K tok t (open_session K u tok now d) = (Some u, d') \<and>
       row \<in> set (app_sessions d') \<and> token_hash row = digest K tok \<and> as_expires_at row = t + days 90) \<and>
    fst (use_session K tok t (close_session K tok (open_session K u tok now d))) = None \<and>
    (\<forall>r\<in>set (app_sessions d). \<forall>tok'. as_user_id r = u_id u \<and> token_hash r = digest K tok' \<longrightarrow>
       fst (use_session K tok' t (close_all u d)) = None)"
proof (intro conjI)
  let ?d = "open_session K u tok now d"
  show "\<exists>row d'. use_session K tok t ?d = (Some u, d') \<and> row \<in> set (app_sessions d') \<and>
      token_hash row = digest K tok \<and> as_expires_at row = t + days 90"
  proof (rule open_session_spec [of u K tok now d])
    fix kept row Q
    assume new: "as_user_id row = u_id u" "token_hash row = digest K tok" "as_expires_at row = now + days APP_SESSION_DAYS"
      "app_sessions ?d = filter Q (app_sessions d) @ [row]"
    have "session_of K tok ?d = Some row"
    proof -
      have "List.find (\<lambda>r. token_hash r = digest K tok) (filter Q (app_sessions d)) = None"
        using assms(5) by (auto simp: find_None_iff_list)
      then show ?thesis using new(2) by (simp add: session_of_def new(4) find_append)
    qed
    moreover have "get_user ?d (u_id u) = Some u"
      using assms(1) by (simp add: get_user_def open_session_def Let_def new_uuid_def delete_sessions_def)
    ultimately have "use_session K tok t ?d = (Some u, put_session (row\<lparr>last_used_at := t,
        as_expires_at := t + days APP_SESSION_DAYS\<rparr>) ?d)"
      using assms(2-4,7,8) new by (simp add: use_session_def APP_SESSION_DAYS_def)
    moreover have "row\<lparr>last_used_at := t, as_expires_at := t + days 90\<rparr> \<in>
        set (app_sessions (put_session (row\<lparr>last_used_at := t, as_expires_at := t + days APP_SESSION_DAYS\<rparr>) ?d))"
      by (simp add: put_session_def set_update_where new(4) APP_SESSION_DAYS_def)
    ultimately show ?thesis
      using new(2) by (intro exI [of _ "row\<lparr>last_used_at := t, as_expires_at := t + days 90\<rparr>"]) simp
  qed
  have "session_of K tok (close_session K tok ?d) = None"
    using assms(3,4) by (simp add: session_of_None close_session_def delete_sessions_def)
  then show "fst (use_session K tok t (close_session K tok ?d)) = None" by (simp add: no_session_no_use)
  show "\<forall>r\<in>set (app_sessions d). \<forall>tok'. as_user_id r = u_id u \<and> token_hash r = digest K tok' \<longrightarrow>
       fst (use_session K tok' t (close_all u d)) = None"
  proof (intro ballI allI impI)
    fix r tok'
    assume r: "r \<in> set (app_sessions d)" "as_user_id r = u_id u \<and> token_hash r = digest K tok'"
    then have "x = r" if "x \<in> set (app_sessions d)" "token_hash x = digest K tok'" for x
      using that assms(6) by (metis distinct_map_eqD)
    with r have "session_of K tok' (close_all u d) = None"
      by (auto simp: session_of_None close_all_def delete_sessions_def)
    then show "fst (use_session K tok' t (close_all u d)) = None" by (simp add: no_session_no_use)
  qed
qed

theorem refresh_token_lifecycle_witness:
  "fst (use_session sample_crypto ''t'' 7 (open_session sample_crypto (sample_user ''ann'') ''t'' 5
      (empty_db\<lparr>users := [sample_user ''ann'']\<rparr>))) = Some (sample_user ''ann'')"
proof -
  let ?d = "empty_db\<lparr>users := [sample_user ''ann'']\<rparr>"
  have "get_user ?d (u_id (sample_user ''ann'')) = Some (sample_user ''ann'')" "u_is_active (sample_user ''ann'')"
    "\<forall>r\<in>set (app_sessions ?d). token_hash r \<noteq> digest sample_crypto ''t''" "distinct (map token_hash (app_sessions ?d))"
    by (simp_all add: samples get_user_def)
  from conjunct1 [OF refresh_token_lifecycle [OF this(1,2) _ _ this(3,4), of 5 7]] show ?thesis
    by (auto simp: time_defs)
qed

end
