(* ===== verification/Devices.thy ===== *)
theory Devices
  imports Subscriptions Ratelimit
begin

section \<open>A customer's devices and the start of a trial\<close>

text \<open>
  \<open>pwa/api/config.py\<close> and \<open>pwa/api/trial.py\<close>: listing, adding, renaming and removing devices,
  handing out their files, the signed download link of the Telegram app, and the request that
  starts a trial.  Every handler takes the name in the caller's token (\<open>sub\<close>); lengths of
  request fields that are declared on the request are refused (422) before the handler runs.

  The link's signature is HMAC-SHA256 under the portal's secret, a parameter \<open>hmac\<close>: the key,
  the message, the hexadecimal digest.

  The lemmas show that a plan's number of devices holds in each location, that a slot is freed
  only with the peer, that a trial is given once per account, mailbox and Telegram account,
  and that all of it keeps revoked devices off the nodes.
\<close>

subsection \<open>Reading (\<open>api/config.py\<close>)\<close>

definition client_of :: "db \<Rightarrow> string \<Rightarrow> http_error + user" where
  "client_of d sub =
     (case user_by_name d sub of None \<Rightarrow> Inl (http 404 ''User not found'') | Some u \<Rightarrow> Inr u)"

record config_answer =
  ca_config :: string
  ca_peer_ip :: "string option"
  ca_plan :: "string option"

definition client_config :: "'w platform \<Rightarrow> string \<Rightarrow> datetime \<Rightarrow> db \<Rightarrow> http_error + config_answer" where
  "client_config P sub now d =
     (case client_of d sub of
        Inl err \<Rightarrow> Inl err
      | Inr u \<Rightarrow>
          if \<not> has_access u now then Inl (http 402 ''No active subscription'')
          else
            (case get_client_config P u d of
               Some None \<Rightarrow> Inl (http 503 ''Location unavailable'')
             | None \<Rightarrow> Inl (http 404 ''Config not found'')
             | Some (Some txt) \<Rightarrow>
                 if txt = [] then Inl (http 404 ''Config not found'')
                 else Inr \<lparr>ca_config = txt, ca_peer_ip = u_peer_ip u, ca_plan = u_plan u\<rparr>))"

text \<open>The same as a file: its content and its name.\<close>

definition client_config_raw :: "'w platform \<Rightarrow> string \<Rightarrow> datetime \<Rightarrow> db \<Rightarrow> http_error + string \<times> string" where
  "client_config_raw P sub now d =
     (case client_of d sub of
        Inl err \<Rightarrow> Inl err
      | Inr u \<Rightarrow>
          if \<not> has_access u now then Inl (http 402 ''No active subscription'')
          else
            (case get_client_config P u d of
               Some None \<Rightarrow> Inl (http 503 ''Location unavailable'')
             | None \<Rightarrow> Inl (http 404 ''Config not found'')
             | Some (Some txt) \<Rightarrow>
                 if txt = [] then Inl (http 404 ''Config not found'')
                 else Inr (txt, ''sovereign-'' @ sub @ ''.conf'')))"

record device_view =
  dv_id :: string
  dv_name :: string
  dv_peer_ip :: string
  dv_created_at :: datetime
  dv_kind :: string
  dv_location :: string

definition describe :: "config_row \<Rightarrow> device_view" where
  "describe c = \<lparr>dv_id = c_id c, dv_name = c_name c, dv_peer_ip = c_peer_ip c,
     dv_created_at = c_created_at c, dv_kind = c_kind c, dv_location = location_or_default c\<rparr>"

record slot =
  sl_key :: string
  sl_limit :: int
  sl_used :: int
  sl_recommended :: bool
  sl_paused :: bool

definition location_slots :: "'w platform \<Rightarrow> config_row list \<Rightarrow> int \<Rightarrow> slot list" where
  "location_slots P cs lim =
     (let rec = recommended (pf_loads P) (pf_env P);
          off = paused (pf_env P);
          ks = location_keys (pf_loads P) (pf_env P)
      in map (\<lambda>loc. \<lparr>sl_key = loc_key loc, sl_limit = lim,
                     sl_used = count_where (\<lambda>c. location_or_default c = loc_key loc) cs,
                     sl_recommended = (loc_key loc = rec \<and> length ks > 1),
                     sl_paused = (loc_key loc \<in> set off)\<rparr>)
           (all_locations (pf_loads P) (pf_env P)))"

record devices_answer =
  da_plan :: "string option"
  da_limit :: int
  da_used :: int
  da_locations :: "slot list"
  da_configs :: "device_view list"

definition list_configs :: "'w platform \<Rightarrow> string \<Rightarrow> datetime \<Rightarrow> db \<Rightarrow> http_error + devices_answer" where
  "list_configs P sub now d =
     (case client_of d sub of
        Inl err \<Rightarrow> Inl err
      | Inr u \<Rightarrow>
          if \<not> has_access u now then Inl (http 402 ''No active subscription'')
          else
            let cs = active_configs u d;
                paid = has_active_subscription u now;
                lim = (if paid then config_limit (u_plan u) else 1);
                slots = (if paid then location_slots P cs lim
                         else [\<lparr>sl_key = DEFAULT, sl_limit = 1, sl_used = int (length cs),
                                sl_recommended = False, sl_paused = False\<rparr>])
            in Inr \<lparr>da_plan = u_plan u, da_limit = lim,
                    da_used = count_where (\<lambda>c. location_or_default c = DEFAULT) cs,
                    da_locations = slots, da_configs = map describe cs\<rparr>)"

subsection \<open>Adding, renaming, removing\<close>

record new_config_request =
  nc_name :: string
  nc_location :: "string option"

text \<open>The paid devices an account holds in a location, as the limit counts them.\<close>

definition paid_in :: "user \<Rightarrow> string \<Rightarrow> db \<Rightarrow> config_row list" where
  "paid_in u location d =
     filter (\<lambda>c. c_kind c \<noteq> ''trial'' \<and> location_or_default c = location) (active_configs u d)"

definition chosen_location :: "'w platform \<Rightarrow> string option \<Rightarrow> string" where
  "chosen_location P l =
     (case l of
        Some k \<Rightarrow> if k \<noteq> [] then k else default_for_new (pf_loads P) (pf_env P)
      | None \<Rightarrow> default_for_new (pf_loads P) (pf_env P))"

definition add_config ::
  "'w platform \<Rightarrow> string \<Rightarrow> new_config_request \<Rightarrow> (string \<times> string \<times> string) option \<Rightarrow> datetime \<Rightarrow> db \<Rightarrow> 'w \<Rightarrow>
   (device_view \<times> int \<times> int) reply \<times> db \<times> 'w"
where
  "add_config P sub req kp now d w =
     (if length (nc_name req) < 1 \<or> length (nc_name req) > 6 \<or>
         (case nc_location req of Some l \<Rightarrow> length l > 8 | None \<Rightarrow> False)
        then (Done (Inl (http 422 ''Invalid request'')), d, w)
      else
        case client_of d sub of
          Inl err \<Rightarrow> (Done (Inl err), d, w)
        | Inr u \<Rightarrow>
            if \<not> has_active_subscription u now then (Done (Inl (http 402 ''No active subscription'')), d, w)
            else
              let location = chosen_location P (nc_location req) in
              if get_location (pf_loads P) (pf_env P) location = None
                then (Done (Inl (http 422 ''Unknown location'')), d, w)
              else if location \<in> set (paused (pf_env P))
                then (Done (Inl (http 409 ''location_paused'')), d, w)
              else
                let held = paid_in u location d; lim = config_limit (u_plan u) in
                if int (length held) \<ge> lim
                  then (Done (Inl \<lparr>status_code = 409, http_detail = PlanAllows lim\<rparr>), d, w)
                else
                  (case issue_config P u (nc_name req) ''paid'' location kp now d w of
                     (Raised, _, w1) \<Rightarrow> (Raised, d, w1)
                   | (Done None, _, w1) \<Rightarrow> (Done (Inl (http 503 ''Could not provision a device'')), d, w1)
                   | (Done (Some c), d1, w1) \<Rightarrow>
                       (Done (Inr (describe c, int (length held) + 1, lim)), d1, w1)))"

text \<open>An active device of the caller; someone else's id reads as missing.\<close>

definition own_config :: "db \<Rightarrow> string \<Rightarrow> user \<Rightarrow> config_row option" where
  "own_config d config_id u =
     List.find (\<lambda>c. c_id c = config_id \<and> c_user_id c = u_id u \<and> c_is_active c) (configs d)"

definition config_raw :: "'w platform \<Rightarrow> string \<Rightarrow> string \<Rightarrow> datetime \<Rightarrow> db \<Rightarrow> http_error + string \<times> string" where
  "config_raw P sub config_id now d =
     (case client_of d sub of
        Inl err \<Rightarrow> Inl err
      | Inr u \<Rightarrow>
          if \<not> has_access u now then Inl (http 402 ''No active subscription'')
          else
            (case own_config d config_id u of
               None \<Rightarrow> Inl (http 404 ''Config not found'')
             | Some c \<Rightarrow>
                 (case render_config P c of
                    None \<Rightarrow> Inl (http 503 ''Location unavailable'')
                  | Some content \<Rightarrow> Inr (content, c_name c @ ''.conf''))))"

definition rename_config :: "string \<Rightarrow> string \<Rightarrow> string \<Rightarrow> db \<Rightarrow> (http_error + device_view) \<times> db" where
  "rename_config sub config_id new_name d =
     (if length new_name < 1 \<or> length new_name > 6 then (Inl (http 422 ''Invalid request''), d)
      else
        case client_of d sub of
          Inl err \<Rightarrow> (Inl err, d)
        | Inr u \<Rightarrow>
            let name = strip new_name in
            if name = [] then (Inl (http 422 ''Name is empty''), d)
            else
              (case own_config d config_id u of
                 None \<Rightarrow> (Inl (http 404 ''Config not found''), d)
               | Some c \<Rightarrow>
                   let c1 = c\<lparr>c_name := name\<rparr> in (Inr (describe c1), put_config c1 d)))"

definition delete_config :: "'w platform \<Rightarrow> string \<Rightarrow> string \<Rightarrow> db \<Rightarrow> 'w \<Rightarrow> string reply \<times> db \<times> 'w" where
  "delete_config P sub config_id d w =
     (case client_of d sub of
        Inl err \<Rightarrow> (Done (Inl err), d, w)
      | Inr u \<Rightarrow>
          (case own_config d config_id u of
             None \<Rightarrow> (Done (Inl (http 404 ''Config not found'')), d, w)
           | Some c \<Rightarrow>
               if c_kind c = ''trial'' then (Done (Inl (http 409 ''trial_device'')), d, w)
               else
                 (case remove_peer_for P c w of
                    (Raised, w1) \<Rightarrow> (Raised, d, w1)
                  | (Done (ok, _), w1) \<Rightarrow>
                      if \<not> ok then (Done (Inl (http 503 ''Could not remove the device'')), d, w1)
                      else
                        let d1 = put_config (c\<lparr>c_is_active := False\<rparr>) d;
                            remaining = filter (\<lambda>x. c_id x \<noteq> c_id c) (active_configs u d1);
                            d2 = (if u_peer_ip u = Some (c_peer_ip c)
                                  then put_user (u\<lparr>u_peer_ip := (case remaining of [] \<Rightarrow> None
                                                    | x # _ \<Rightarrow> Some (c_peer_ip x))\<rparr>) d1
                                  else d1)
                        in (Done (Inr config_id), d2, w1))))"

subsection \<open>The download link\<close>

definition DL_TTL :: int where
  "DL_TTL = 120"

definition dl_sig :: "(string \<Rightarrow> string \<Rightarrow> string) \<Rightarrow> env \<Rightarrow> string \<Rightarrow> int \<Rightarrow> string" where
  "dl_sig hmac e config_id expires =
     take 32 (hmac (getenv e ''JWT_SECRET'' []) (''dl:'' @ config_id @ '':'' @ str_int expires))"

definition config_download_link ::
  "(string \<Rightarrow> string \<Rightarrow> string) \<Rightarrow> 'w platform \<Rightarrow> string \<Rightarrow> string \<Rightarrow> datetime \<Rightarrow> db \<Rightarrow> http_error + string \<times> string"
where
  "config_download_link hmac P sub config_id now d =
     (case client_of d sub of
        Inl err \<Rightarrow> Inl err
      | Inr u \<Rightarrow>
          if \<not> has_access u now then Inl (http 402 ''No active subscription'')
          else
            (case own_config d config_id u of
               None \<Rightarrow> Inl (http 404 ''Config not found'')
             | Some c \<Rightarrow>
                 let expires = now div 1000000 + DL_TTL;
                     token = c_id c @ ''.'' @ str_int expires @ ''.'' @ dl_sig hmac (pf_env P) (c_id c) expires
                 in Inr (token, c_name c @ ''.conf'')))"

definition config_download ::
  "(string \<Rightarrow> string \<Rightarrow> string) \<Rightarrow> 'w platform \<Rightarrow> string \<Rightarrow> datetime \<Rightarrow> db \<Rightarrow> http_error + string \<times> string"
where
  "config_download hmac P token now d =
     (case split_on CHR ''.'' token of
        [config_id, exp_s, sig] \<Rightarrow>
          (case py_int exp_s of
             None \<Rightarrow> Inl (http 404 ''Not found'')
           | Some expires \<Rightarrow>
               if seconds expires < now \<or> sig \<noteq> dl_sig hmac (pf_env P) config_id expires
                 then Inl (http 404 ''Not found'')
               else
                 (case List.find (\<lambda>c. c_id c = config_id \<and> c_is_active c) (configs d) of
                    None \<Rightarrow> Inl (http 404 ''Not found'')
                  | Some c \<Rightarrow>
                      (case get_user d (c_user_id c) of
                         None \<Rightarrow> Inl (http 404 ''Not found'')
                       | Some owner \<Rightarrow>
                           if \<not> has_access owner now then Inl (http 404 ''Not found'')
                           else
                             (case render_config P c of
                                None \<Rightarrow> Inl (http 503 ''Location unavailable'')
                              | Some content \<Rightarrow> Inr (content, c_name c @ ''.conf'')))))
      | _ \<Rightarrow> Inl (http 404 ''Not found''))"

subsection \<open>Starting a trial (\<open>api/trial.py\<close>)\<close>

definition trial_offer :: "env \<Rightarrow> bool \<times> int" where
  "trial_offer e = (trial_enabled e, TRIAL_DAYS e)"

definition confirmed_mailbox :: "user \<Rightarrow> string option" where
  "confirmed_mailbox u =
     (case email u of
        Some a \<Rightarrow> if a \<noteq> [] \<and> email_verified_at u \<noteq> None then Some a else None
      | None \<Rightarrow> None)"

text \<open>
  The look-up of an earlier trial.  With neither a mailbox nor a Telegram account to compare,
  the query has no condition and finds any grant.
\<close>

definition trial_seen :: "string option \<Rightarrow> int option \<Rightarrow> db \<Rightarrow> bool" where
  "trial_seen norm tg d =
     (if norm = None \<and> tg = None then trial_grants d \<noteq> []
      else list_ex (\<lambda>g. norm \<noteq> None \<and> email_norm g = norm \<or> tg \<noteq> None \<and> tg_telegram_id g = tg) (trial_grants d))"

text \<open>The unique constraints of the table, against a new row.\<close>

definition grant_conflict :: "trial_grant \<Rightarrow> db \<Rightarrow> bool" where
  "grant_conflict g d =
     list_ex (\<lambda>x. email_norm g \<noteq> None \<and> email_norm x = email_norm g \<or>
                  tg_telegram_id g \<noteq> None \<and> tg_telegram_id x = tg_telegram_id g \<or>
                  tg_user_id g \<noteq> None \<and> tg_user_id x = tg_user_id g) (trial_grants d)"

record trial_answer =
  ta_until :: datetime
  ta_config :: device_view

text \<open>
  The end of the trial and its grant are written before the peer exists; a conflict with the
  constraints, or a device that could not be issued, takes both back.
\<close>

definition grant_trial ::
  "'w platform \<Rightarrow> user \<Rightarrow> string option \<Rightarrow> string \<Rightarrow> (string \<times> string \<times> string) option \<Rightarrow> datetime \<Rightarrow>
   session \<Rightarrow> 'w \<Rightarrow> trial_answer reply \<times> session \<times> 'w"
where
  "grant_trial P u norm ip kp now s w =
     (let e = pf_env P;
          u1 = u\<lparr>trial_until := Some (trial_end e now)\<rparr>;
          (i, d1) = new_uuid (put_user u1 (fst s));
          g = \<lparr>tg_id = i, email_norm = norm, tg_telegram_id = telegram_id u,
               tg_user_id = Some (u_id u),
               source_ip = (if take 64 ip = [] then None else Some (take 64 ip)),
               granted_at = now\<rparr>
      in if grant_conflict g d1 then (Done (Inl (http 409 ''trial_used'')), s, w)
         else
           (case issue_config P u1 ''trial'' ''trial'' DEFAULT kp now
                   (d1\<lparr>trial_grants := trial_grants d1 @ [g]\<rparr>) w of
              (Raised, _, w1) \<Rightarrow> (Raised, s, w1)
            | (Done None, _, w1) \<Rightarrow> (Done (Inl (http 503 ''trial_busy'')), s, w1)
            | (Done (Some c), d2, w1) \<Rightarrow>
                let (b, s2) = notify e u1 TrialStarted None
                      [(''until'', PStr (fmt_when (trial_end e now) (or_ru (lang u1))))] now (d2, snd s)
                in (Done (Inr \<lparr>ta_until = trial_end e now, ta_config = describe c\<rparr>), s2, w1)))"

definition start_trial ::
  "'w platform \<Rightarrow> string \<Rightarrow> string \<Rightarrow> (string \<times> string \<times> string) option \<Rightarrow> datetime \<Rightarrow> int \<Rightarrow> limits \<Rightarrow>
   session \<Rightarrow> 'w \<Rightarrow> trial_answer reply \<times> limits \<times> session \<times> 'w"
where
  "start_trial P sub ip kp now clk L s w =
     (let e = pf_env P; d = fst s in
      case user_by_name d sub of
        None \<Rightarrow> (Done (Inl (http 404 ''User not found'')), L, s, w)
      | Some u \<Rightarrow>
          if \<not> trial_enabled e then (Done (Inl (http 403 ''trial_off'')), L, s, w)
          else if \<not> verified u then (Done (Inl (http 403 ''email_not_verified'')), L, s, w)
          else if trial_active u now then (Done (Inl (http 409 ''trial_active'')), L, s, w)
          else if trial_until u \<noteq> None \<or> subscribed_until u \<noteq> None
            then (Done (Inl (http 409 ''trial_used'')), L, s, w)
          else if (case confirmed_mailbox u of Some a \<Rightarrow> is_disposable a | None \<Rightarrow> False)
            then (Done (Inl (http 403 ''trial_unavailable'')), L, s, w)
          else
            let (over, l1) = take_limit (TRIAL_PER_IP L) ip clk; L1 = L\<lparr>TRIAL_PER_IP := l1\<rparr> in
            case over of
              Some err \<Rightarrow> (Done (Inl err), L1, s, w)
            | None \<Rightarrow>
                let norm = map_option normalise_email (confirmed_mailbox u) in
                if trial_seen norm (telegram_id u) d then (Done (Inl (http 409 ''trial_used'')), L1, s, w)
                else if count_where (\<lambda>g. granted_at g \<ge> now - days 1) (trial_grants d) \<ge> TRIAL_DAILY_CAP e
                  then (Done (Inl (http 503 ''trial_busy'')), L1, s, w)
                else
                  (case grant_trial P u norm ip kp now s w of (r, s1, w1) \<Rightarrow> (r, L1, s1, w1)))"

subsection \<open>Lemmas: the three ways a request can end\<close>

lemma client_of_Inr: "client_of d sub = Inr u \<longleftrightarrow> user_by_name d sub = Some u"
  by (auto simp: client_of_def split: option.splits)

lemma length_paid_in:
  "length (paid_in u l d) = length (filter (\<lambda>c. c_user_id c = u_id u \<and> c_is_active c \<and> c_kind c \<noteq> ''trial'' \<and>
     location_or_default c = l) (configs d))"
  unfolding paid_in_def active_configs_def filter_sort length_sort
  by (simp add: conj_commute conj_left_commute)

lemma add_config_cases:
  assumes "add_config P sub req kp now d w = (r, d', w')"
  obtains (refused) e where "r = Done (Inl e)" "d' = d" "w' = w"
  | (failed) u dx q where "issue_config P u (nc_name req) ''paid'' (chosen_location P (nc_location req)) kp now d w = (q, dx, w')"
      "q = Raised \<and> r = Raised \<or> q = Done None \<and> (\<exists>e. r = Done (Inl e))" "d' = d"
  | (added) u c where "user_by_name d sub = Some u" "has_active_subscription u now"
      "chosen_location P (nc_location req) \<notin> set (paused (pf_env P))"
      "int (length (paid_in u (chosen_location P (nc_location req)) d)) < config_limit (u_plan u)"
      "issue_config P u (nc_name req) ''paid'' (chosen_location P (nc_location req)) kp now d w = (Done (Some c), d', w')"
      "r = Done (Inr (describe c, int (length (paid_in u (chosen_location P (nc_location req)) d)) + 1, config_limit (u_plan u)))"
proof -
  let ?l = "chosen_location P (nc_location req)"
  note run = assms [unfolded add_config_def Let_def]
  show thesis
  proof (cases "\<exists>e. r = Done (Inl e) \<and> d' = d \<and> w' = w")
    case True
    with refused show thesis by blast
  next
    case False
    with run obtain u where u: "user_by_name d sub = Some u" and act: "has_active_subscription u now"
      by (auto simp: client_of_def split: if_splits option.splits)
    with run False have g: "?l \<notin> set (paused (pf_env P))" "int (length (paid_in u ?l d)) < config_limit (u_plan u)"
      by (auto simp: client_of_Inr [THEN iffD2, OF u] split: if_splits)
    obtain q dx wx where q: "issue_config P u (nc_name req) ''paid'' ?l kp now d w = (q, dx, wx)" by (rule prod_cases3)
    have "(case (q, dx, wx) of
         (Raised, _, w1) \<Rightarrow> (Raised, d, w1)
       | (Done None, _, w1) \<Rightarrow> (Done (Inl (http 503 ''Could not provision a device'')), d, w1)
       | (Done (Some c), d1, w1) \<Rightarrow>
           (Done (Inr (describe c, int (length (paid_in u ?l d)) + 1, config_limit (u_plan u))), d1, w1)) = (r, d', w')"
      using run False u act g q by (auto simp: client_of_Inr [THEN iffD2, OF u] split: if_splits)
    then show thesis
      using failed [of u q dx] added [OF u act g] q by (auto split: outcome.splits option.splits)
  qed
qed

lemma delete_config_cases:
  assumes "delete_config P sub config_id d w = (r, d', w')"
  obtains (refused) "\<exists>e. r = Done (Inl e)" "d' = d" "w' = w"
  | (failed) u c q where "own_config d config_id u = Some c" "remove_peer_for P c w = (q, w')"
      "\<forall>why. q \<noteq> Done (True, why)" "d' = d" "\<forall>i. r \<noteq> Done (Inr i)"
  | (deleted) u c why where "user_by_name d sub = Some u" "own_config d config_id u = Some c" "c_kind c \<noteq> ''trial''"
      "remove_peer_for P c w = (Done (True, why), w')" "r = Done (Inr config_id)"
      "configs d' = configs (put_config (c\<lparr>c_is_active := False\<rparr>) d)" "payments d' = payments d"
      "trial_grants d' = trial_grants d" "\<And>i. i \<noteq> u_id u \<Longrightarrow> get_user d' i = get_user d i"
proof -
  note run = assms [unfolded delete_config_def Let_def]
  show thesis
  proof (cases "(\<exists>e. r = Done (Inl e)) \<and> d' = d \<and> w' = w")
    case True
    with refused show thesis by blast
  next
    case False
    with run obtain u c where u: "user_by_name d sub = Some u" and c: "own_config d config_id u = Some c"
        and k: "c_kind c \<noteq> ''trial''"
      by (auto simp: client_of_def split: if_splits option.splits)
    obtain q wx where q: "remove_peer_for P c w = (q, wx)" by force
    note run = run [unfolded client_of_Inr [THEN iffD2, OF u] sum.case c option.case q]
    consider why where "q = Done (True, why)" | "\<forall>why. q \<noteq> Done (True, why)" by blast
    then show thesis
    proof cases
      case 1
      with run k have r: "r = Done (Inr config_id)" "w' = wx"
        and d': "d' = put_config (c\<lparr>c_is_active := False\<rparr>) d \<or>
          (\<exists>ip. d' = put_user (u\<lparr>u_peer_ip := ip\<rparr>) (put_config (c\<lparr>c_is_active := False\<rparr>) d))"
        by (auto split: if_splits)
      show thesis
        by (rule deleted [OF u c k, of why]) (use q 1 r d' in \<open>auto simp: get_user_put_user split: option.splits\<close>)
    next
      case 2
      with run k have "d' = d" "w' = wx" "\<forall>i. r \<noteq> Done (Inr i)"
        by (auto split: if_splits outcome.splits prod.splits)
      with failed [OF c] q 2 show thesis by blast
    qed
  qed
qed

text \<open>The grant a trial leaves on record.\<close>

definition trial_record :: "user \<Rightarrow> string option \<Rightarrow> string \<Rightarrow> datetime \<Rightarrow> db \<Rightarrow> trial_grant" where
  "trial_record u norm ip now d =
     \<lparr>tg_id = uuid_tape d (uuid_pos d), email_norm = norm, tg_telegram_id = telegram_id u, tg_user_id = Some (u_id u),
      source_ip = (if take 64 ip = [] then None else Some (take 64 ip)), granted_at = now\<rparr>"

lemma grant_trial_eq:
  fixes u :: user
  assumes "issue_config P (u\<lparr>trial_until := Some (trial_end (pf_env P) now)\<rparr>) ''trial'' ''trial'' DEFAULT kp now
      ((snd (new_uuid (put_user (u\<lparr>trial_until := Some (trial_end (pf_env P) now)\<rparr>) d)))\<lparr>trial_grants :=
         trial_grants d @ [trial_record u norm ip now d]\<rparr>) w = (q, d2, w2)"
  defines "u1 \<equiv> u\<lparr>trial_until := Some (trial_end (pf_env P) now)\<rparr>"
  shows "grant_trial P u norm ip kp now (d, out) w =
      (if grant_conflict (trial_record u norm ip now d) d then (Done (Inl (http 409 ''trial_used'')), (d, out), w)
       else case q of
          Raised \<Rightarrow> (Raised, (d, out), w2)
        | Done None \<Rightarrow> (Done (Inl (http 503 ''trial_busy'')), (d, out), w2)
        | Done (Some c) \<Rightarrow>
            (Done (Inr \<lparr>ta_until = trial_end (pf_env P) now, ta_config = describe c\<rparr>),
             snd (notify (pf_env P) u1 TrialStarted None
               [(''until'', PStr (fmt_when (trial_end (pf_env P) now) (or_ru (lang u1))))] now (d2, out)), w2))"
proof -
  have "grant_conflict (trial_record u norm ip now d) (snd (new_uuid (put_user u1 d))) =
      grant_conflict (trial_record u norm ip now d) d"
    by (simp add: grant_conflict_def new_uuid_def)
  then show ?thesis
    using assms(1)
    unfolding grant_trial_def Let_def u1_def [symmetric]
    by (auto simp: new_uuid_def trial_record_def split: outcome.splits option.splits prod.splits)
qed

lemma grant_trial_cases:
  assumes "grant_trial P u norm ip kp now (d, out) w = (r, (d', out'), w')"
  obtains (refused) "\<exists>e. r = Done (Inl e)" "d' = d" "out' = out" "w' = w"
  | (failed) v dx dy q where "issue_config P v ''trial'' ''trial'' DEFAULT kp now dx w = (q, dy, w')"
      "configs dx = configs d" "q = Raised \<and> r = Raised \<or> q = Done None \<and> (\<exists>e. r = Done (Inl e))" "d' = d" "out' = out"
  | (started) g d1 d2 c where "email_norm g = norm" "tg_telegram_id g = telegram_id u"
      "tg_user_id g = Some (u_id u)" "granted_at g = now" "\<not> grant_conflict g d"
      "d1 = (snd (new_uuid (put_user (u\<lparr>trial_until := Some (trial_end (pf_env P) now)\<rparr>) d)))\<lparr>trial_grants := trial_grants d @ [g]\<rparr>"
      "issue_config P (u\<lparr>trial_until := Some (trial_end (pf_env P) now)\<rparr>) ''trial'' ''trial'' DEFAULT kp now d1 w = (Done (Some c), d2, w')"
      "same_but_feed d2 d'" "r = Done (Inr \<lparr>ta_until = trial_end (pf_env P) now, ta_config = describe c\<rparr>)"
proof -
  define u1 where "u1 = u\<lparr>trial_until := Some (trial_end (pf_env P) now)\<rparr>"
  define g where "g = trial_record u norm ip now d"
  define d1 where "d1 = (snd (new_uuid (put_user u1 d)))\<lparr>trial_grants := trial_grants d @ [g]\<rparr>"
  obtain q d2 w2 where q: "issue_config P u1 ''trial'' ''trial'' DEFAULT kp now d1 w = (q, d2, w2)" by (rule prod_cases3)
  note run = grant_trial_eq [OF q [unfolded u1_def d1_def g_def], of out, folded u1_def, folded g_def]
  show thesis
  proof (cases "grant_conflict g d")
    case True
    with run assms show thesis by (intro refused) auto
  next
    case False
    note run = run [unfolded assms]
    show thesis
    proof (cases "\<exists>c. q = Done (Some c)")
      case True
      then obtain c where c: "q = Done (Some c)" ..
      with run False have r: "r = Done (Inr \<lparr>ta_until = trial_end (pf_env P) now, ta_config = describe c\<rparr>)" "w' = w2"
        and nt: "(d', out') = snd (notify (pf_env P) u1 TrialStarted None
               [(''until'', PStr (fmt_when (trial_end (pf_env P) now) (or_ru (lang u1))))] now (d2, out))"
        by auto
      from nt have "same_but_feed d2 d'" by (metis notify_same_but_feed prod.collapse)
      then show thesis
        using started [of g d1 c d2] False q c r by (simp add: g_def trial_record_def d1_def u1_def)
    next
      case no: False
      with run False have "d' = d" "out' = out" "w' = w2" "q = Raised \<and> r = Raised \<or> q = Done None \<and> (\<exists>e. r = Done (Inl e))"
        by (auto split: outcome.splits option.splits)
      then show thesis
        using failed [of u1 d1 q d2] q by (simp add: d1_def new_uuid_def)
    qed
  qed
qed

lemma start_trial_cases:
  assumes "start_trial P sub ip kp now clk L (d, out) w = (r, L', (d', out'), w')"
  obtains (refused) "\<exists>e. r = Done (Inl e)" "d' = d" "out' = out" "w' = w"
  | (granted) u where "user_by_name d sub = Some u" "verified u" "trial_until u = None" "subscribed_until u = None"
      "\<not> trial_seen (map_option normalise_email (confirmed_mailbox u)) (telegram_id u) d"
      "count_where (\<lambda>g. granted_at g \<ge> now - days 1) (trial_grants d) < TRIAL_DAILY_CAP (pf_env P)"
      "grant_trial P u (map_option normalise_email (confirmed_mailbox u)) ip kp now (d, out) w = (r, (d', out'), w')"
proof (cases "(\<exists>e. r = Done (Inl e)) \<and> d' = d \<and> out' = out \<and> w' = w")
  case True
  with refused show thesis by blast
next
  case False
  note run = assms [unfolded start_trial_def Let_def fst_conv]
  from run False obtain u where u: "user_by_name d sub = Some u" by (auto split: option.splits)
  note run = run [unfolded u option.case]
  from run False have g: "verified u" "trial_until u = None" "subscribed_until u = None"
    by (auto split: if_splits)
  from run False g obtain l1 where l1: "take_limit (TRIAL_PER_IP L) ip clk = (None, l1)"
    by (auto split: if_splits prod.splits option.splits)
  note run = run [unfolded l1 prod.case option.case]
  from run False g have h: "\<not> trial_seen (map_option normalise_email (confirmed_mailbox u)) (telegram_id u) d"
      "count_where (\<lambda>g. granted_at g \<ge> now - days 1) (trial_grants d) < TRIAL_DAILY_CAP (pf_env P)"
    by (auto split: if_splits)
  have "grant_trial P u (map_option normalise_email (confirmed_mailbox u)) ip kp now (d, out) w = (r, (d', out'), w')"
    using run False g h by (auto split: if_splits prod.splits)
  with granted u g h show thesis by blast
qed

subsection \<open>Lemmas: revoked devices stay off\<close>

definition fresh_device_ids :: "db \<Rightarrow> bool" where
  "fresh_device_ids d = (\<forall>i\<ge>uuid_pos d. uuid_tape d i \<notin> c_id ` set (configs d))"

lemma fresh_device_idsD: "fresh_device_ids d \<Longrightarrow> fresh_device_id d"
  by (simp add: fresh_device_ids_def fresh_device_id_def)

lemma device_rows_rename:
  assumes "device_rows d" and "c \<in> set (configs d)" and "c_id c' = c_id c" and "c_kind c' = c_kind c"
    and "location_or_default c' = location_or_default c"
  shows "device_rows (put_config c' d)"
  using assms by (auto simp: device_rows_def put_config_def list_all_iff map_update_where set_update_where)

lemma own_configD:
  "own_config d config_id u = Some c \<Longrightarrow> c \<in> set (configs d) \<and> c_id c = config_id \<and> c_user_id c = u_id u \<and> c_is_active c"
  by (auto simp: own_config_def dest: find_SomeD)

context provisioning
begin

lemma add_config_revoked:
  assumes "add_config P sub req kp now d w = (r, d', w')" and "revoked_off P (peers w) d" and "device_rows d"
    and "new_key kp d" and "fresh_device_ids d"
  shows "revoked_off P (peers w') d' \<and> device_rows d'"
  using assms(1)
proof (cases rule: add_config_cases)
  case (failed u dx q)
  with issue_config_revoked(2) [OF failed(1) assms(2,4)] assms(3) show ?thesis by simp
next
  case (added u c)
  from issue_config_revoked(1) [OF added(5) assms(2,4)] issue_config_rows(1) [OF added(5) assms(3)] assms(5)
  show ?thesis by (auto simp: fresh_device_ids_def)
qed (use assms in simp)

lemma delete_config_revoked:
  assumes "delete_config P sub config_id d w = (r, d', w')" and "revoked_off P (peers w) d" and "device_rows d"
  shows "revoked_off P (peers w') d' \<and> device_rows d'"
  using assms(1)
proof (cases rule: delete_config_cases)
  case (failed u c q)
  with remove_keeps_revoked [OF failed(2) assms(2)] assms(3) show ?thesis by simp
next
  case (deleted u c why)
  have c: "c \<in> set (configs d)" using own_configD [OF deleted(2)] by simp
  from revoke_step [OF deleted(4) assms(2) c assms(3)] device_rows_revoke [OF assms(3) c] show ?thesis
    by (simp add: revoked_off_same_configs [OF deleted(6)] device_rows_same_configs [OF deleted(6)])
qed (use assms in simp)

lemma start_trial_revoked:
  assumes "start_trial P sub ip kp now clk L (d, out) w = (r, L', (d', out'), w')"
    and "revoked_off P (peers w) d" and "device_rows d" and "new_key kp d" and "fresh_device_ids d"
  shows "revoked_off P (peers w') d' \<and> device_rows d'"
  using assms(1)
proof (cases rule: start_trial_cases)
  case (granted u)
  from granted(7) show ?thesis
  proof (cases rule: grant_trial_cases)
    case (failed v dx dy q)
    have k: "new_key kp dx" using assms(4) failed(2) by (auto simp: new_key_def split: option.splits)
    from issue_config_revoked(2) [OF failed(1) _ k] assms(2,3) failed(2,4) show ?thesis
      by (simp add: revoked_off_same_configs [OF failed(2)])
  next
    case (started g d1 d2 c)
    have c1: "configs d1 = configs d" using started(6) by (simp add: new_uuid_def)
    have k: "new_key kp d1" using assms(4) c1 by (auto simp: new_key_def split: option.splits)
    have f: "uuid_tape d1 (uuid_pos d1) \<notin> c_id ` set (configs d1)"
      using assms(5) started(6) by (auto simp: fresh_device_ids_def new_uuid_def)
    have "revoked_off P (peers w) d1" "device_rows d1"
      using assms(2,3) by (simp_all add: revoked_off_same_configs [OF c1] device_rows_same_configs [OF c1])
    from issue_config_revoked(1) [OF started(7) this(1) k] issue_config_rows(1) [OF started(7) this(2) f]
    have "revoked_off P (peers w') d2 \<and> device_rows d2" by simp
    moreover have c2: "configs d' = configs d2" using started(8) by (simp add: same_but_feed_def)
    ultimately show ?thesis by (simp add: revoked_off_same_configs [OF c2] device_rows_same_configs [OF c2])
  qed (use assms in simp)
qed (use assms in simp)

end

lemma rename_config_revoked:
  assumes "rename_config sub config_id name d = (r, d')" and "revoked_off P T d" and "device_rows d"
  shows "revoked_off P T d' \<and> device_rows d'"
proof -
  have "d' = d \<or> (\<exists>c u. own_config d config_id u = Some c \<and> d' = put_config (c\<lparr>c_name := strip name\<rparr>) d)"
    using assms(1) by (auto simp: rename_config_def Let_def split: if_splits sum.splits option.splits)
  then show ?thesis
  proof
    assume "\<exists>c u. own_config d config_id u = Some c \<and> d' = put_config (c\<lparr>c_name := strip name\<rparr>) d"
    then obtain c u where c: "own_config d config_id u = Some c" and d': "d' = put_config (c\<lparr>c_name := strip name\<rparr>) d"
      by blast
    note mem = own_configD [OF c]
    have "revoked_off P T d'"
      using assms(2) mem by (auto simp: revoked_off_def list_all_iff d' put_config_def set_update_where location_or_default_def)
    moreover have "device_rows d'"
      unfolding d' by (rule device_rows_rename [OF assms(3)]) (use mem in \<open>auto simp: location_or_default_def\<close>)
    ultimately show ?thesis ..
  qed (use assms in simp)
qed

subsection \<open>Properties\<close>


definition sample_customer :: user where
  "sample_customer = (sample_user ''bob'')\<lparr>is_subscribed := True, subscribed_until := Some 100, u_plan := Some ''basic-1m''\<rparr>"

definition sample_devices :: db where
  "sample_devices = empty_db\<lparr>users := [sample_customer],
     configs := [sample_device ''c1'' ''bob'' ''paid'' ''10.88.88.42'']\<rparr>"


text \<open>
  A slot is freed only with the peer.  When a device is deleted, it was the caller's own,
  the entry of its location no longer carries its key, the device is no longer the caller's to
  download, and the account holds one device less there.  In every other case, a stranger's
  device, a trial device, a node that refuses, does not answer or breaks off, the database is
  unchanged and the slot stays taken.
\<close>

theorem delete_config_frees_slot:
  assumes "provisioning P peers" and "delete_config P sub config_id d w = (r, d', w')" and "device_rows d"
  shows "case r of
      Done (Inr i) \<Rightarrow>
        \<exists>u c. user_by_name d sub = Some u \<and> own_config d config_id u = Some c \<and> i = config_id \<and>
          peers w' (entry_of P (location_or_default c)) (public_key c) = None \<and> own_config d' config_id u = None \<and>
          length (paid_in u (location_or_default c) d') + 1 = length (paid_in u (location_or_default c) d)
    | _ \<Rightarrow> d' = d"
  using assms(2)
proof (cases rule: delete_config_cases)
  case (deleted u c why)
  note c = own_configD [OF deleted(2)]
  have gone: "peers w' (entry_of P (location_or_default c)) (public_key c) = None"
    using provisioning.remove_peer_for_spec(1) [OF assms(1) deleted(4) refl] by simp
  have dist: "distinct (map c_id (configs d))" using assms(3) by (simp add: device_rows_def)
  have upd: "configs d' = update_where (\<lambda>x. c_id x = c_id c) (\<lambda>_. c\<lparr>c_is_active := False\<rparr>) (configs d)"
    using deleted(6) by (simp add: put_config_def)
  have "own_config d' config_id u = None"
    using c by (auto simp: own_config_def find_None_iff_list upd set_update_where)
  moreover have "length (paid_in u (location_or_default c) d') + 1 = length (paid_in u (location_or_default c) d)"
  proof -
    let ?Q = "\<lambda>x. c_user_id x = u_id u \<and> c_is_active x \<and> c_kind x \<noteq> ''trial'' \<and> location_or_default x = location_or_default c"
    obtain xs ys where split: "configs d = xs @ c # ys" using c by (metis split_list)
    have "c_id c \<notin> c_id ` (set xs \<union> set ys)" using dist by (auto simp: split)
    then have "c_id z \<noteq> c_id c" if "z \<in> set xs \<union> set ys" for z using that by (metis image_eqI)
    then have out: "update_where (\<lambda>x. c_id x = c_id c) (\<lambda>_. c\<lparr>c_is_active := False\<rparr>) zs = zs" if "set zs \<subseteq> set xs \<union> set ys" for zs
      using that by (intro update_where_id) blast
    have "configs d' = xs @ c\<lparr>c_is_active := False\<rparr> # ys"
      using out [of xs] out [of ys] by (simp add: upd split update_where_def)
    then show ?thesis using c deleted(3) by (simp add: length_paid_in split)
  qed
  ultimately show ?thesis using deleted(1,2,5) gone by auto
next
  case refused
  then show ?thesis by auto
next
  case (failed u c q)
  then show ?thesis by (auto split: outcome.splits sum.splits)
qed

theorem delete_config_frees_slot_witness:
  "\<exists>w'. delete_config (sample_platform (\<lambda>_. Lost)) ''bob'' ''c1'' sample_devices sample_world = (Raised, sample_devices, w') \<and>
     own_config sample_devices ''c1'' sample_customer \<noteq> None"
proof -
  let ?run = "delete_config (sample_platform (\<lambda>_. Lost)) ''bob'' ''c1'' sample_devices sample_world"
  have "fst ?run = Raised" "device_rows sample_devices" "own_config sample_devices ''c1'' sample_customer \<noteq> None"
    by code_simp+
  moreover obtain d' w' where run: "?run = (Raised, d', w')" using calculation(1) by (metis prod.collapse)
  ultimately show ?thesis using delete_config_frees_slot [OF sample_provisioning run] by auto
qed

text \<open>
  C30: a trial is given once.  When a trial starts, the account was confirmed and had had neither
  a trial nor a paid period, and the account's id, its confirmed mailbox in normal form and its
  Telegram account are on record; as long as that record stays, no request for the same
  account, for a second account on the same mailbox, however it is spelled, or for a second
  account on the same Telegram account starts a trial, whatever else has changed since, also
  after the Telegram account was unlinked from the first account.
\<close>

theorem one_trial_per_person:
  assumes "start_trial P sub ip kp now clk L (d, out) w = (Done (Inr a), L', (d', out'), w')"
    and "user_by_name d sub = Some u" and "user_by_name d2 sub2 = Some v"
    and "set (trial_grants d') \<subseteq> set (trial_grants d2)"
    and "u_id v = u_id u \<or> telegram_id u \<noteq> None \<and> telegram_id v = telegram_id u \<or>
      confirmed_mailbox u \<noteq> None \<and>
      map_option normalise_email (confirmed_mailbox v) = map_option normalise_email (confirmed_mailbox u)"
  shows "verified u \<and> trial_until u = None \<and> subscribed_until u = None \<and>
    (\<exists>e. fst (start_trial P sub2 ip2 kp2 now2 clk2 L2 (d2, out2) w2) = Done (Inl e) \<or>
       fst (start_trial P sub2 ip2 kp2 now2 clk2 L2 (d2, out2) w2) = Raised)"
proof -
  let ?n = "\<lambda>u. map_option normalise_email (confirmed_mailbox u)"
  from assms(1) obtain g where g: "g \<in> set (trial_grants d')" "email_norm g = ?n u" "tg_telegram_id g = telegram_id u"
      "tg_user_id g = Some (u_id u)" and u: "verified u" "trial_until u = None" "subscribed_until u = None"
  proof (cases rule: start_trial_cases)
    case (granted u')
    then have [simp]: "u' = u" using assms(2) by simp
    from granted(7) show ?thesis
    proof (cases rule: grant_trial_cases)
      case (started g d1 d2 c)
      have "g \<in> set (trial_grants d')"
        using started(6,8) issue_config_db [OF started(7)] by (auto simp: same_but_feed_def new_uuid_def)
      with that started(1-3) granted(2-4) show ?thesis by simp
    qed auto
  qed auto
  have g2: "g \<in> set (trial_grants d2)" using g(1) assms(4) by blast
  obtain r L3 d3 out3 w3 where run: "start_trial P sub2 ip2 kp2 now2 clk2 L2 (d2, out2) w2 = (r, L3, (d3, out3), w3)"
    by (metis prod.collapse)
  have "\<nexists>x. r = Done (Inr x)"
  proof
    assume "\<exists>x. r = Done (Inr x)"
    then obtain x where x: "r = Done (Inr x)" ..
    from run show False
    proof (cases rule: start_trial_cases)
      case (granted v')
      then have [simp]: "v' = v" using assms(3) by simp
      have seen: "\<not> trial_seen (?n v) (telegram_id v) d2" using granted(5) by simp
      have "u_id v = u_id u"
        using assms(5)
      proof (elim disjE)
        assume t: "telegram_id u \<noteq> None \<and> telegram_id v = telegram_id u"
        then have "trial_seen (?n v) (telegram_id v) d2"
          using g2 g(3) by (auto simp: trial_seen_def list_ex_iff)
        with seen show ?thesis by simp
      next
        assume m: "confirmed_mailbox u \<noteq> None \<and> ?n v = ?n u"
        then have "?n v \<noteq> None" by (metis option.map_disc_iff)
        then have "trial_seen (?n v) (telegram_id v) d2"
          using g2 g(2) m by (auto simp: trial_seen_def list_ex_iff)
        with seen show ?thesis by simp
      qed
      from granted(7) show False
      proof (cases rule: grant_trial_cases)
        case (started g' e1 e2 c)
        have "grant_conflict g' d2"
          using g2 g(4) started(3) \<open>u_id v = u_id u\<close> by (auto simp: grant_conflict_def list_ex_iff)
        with started(5) show False by simp
      qed (use x in auto)
    qed (use x in auto)
  qed
  then have "\<exists>e. r = Done (Inl e) \<or> r = Raised" by (cases r) (auto, metis sum.exhaust)
  with u run show ?thesis by simp
qed

definition trial_platform :: "std option list platform" where
  "trial_platform = scripted_platform\<lparr>pf_env := [''TRIAL_ENABLED'' \<mapsto> ''1'']\<rparr>"

definition sample_newcomer :: "string \<Rightarrow> string \<Rightarrow> user" where
  "sample_newcomer i a = (sample_user i)\<lparr>email := Some a, email_verified_at := Some 0\<rparr>"

lemma issue_first_trial_device:
  assumes "kp = Some (priv, pub, psk)" and "bridge_used_ips P w = ([], w1)" and "configs d = []"
    and "add_peer_to_bridge P pub psk (pool_ip ''10.88.89'' 10) (client_name_of ''trial'' (username u)) w1 = (Done (True, why), w2)"
  shows "\<exists>c d'. issue_config P u name ''trial'' location kp now d w = (Done (Some c), d', w2)"
proof -
  have "find_free_ip d [] TRIAL_POOL DEFAULT = Some (pool_ip ''10.88.89'' 10)"
    using assms(3) by (simp add: find_free_ip_def TRIAL_POOL_def upt_conv_Cons del: upt_Suc)
  then have "issue_tries (Suc 9) P d (germany (pf_env P)) TRIAL_POOL pub psk (client_name_of ''trial'' (username u)) [] w1 =
      (Done (Some (pool_ip ''10.88.89'' 10)), w2)"
    using assms(4) by (simp add: loc_key_germany issue_tries.simps(2) [of 9, simplified])
  then show ?thesis
    using assms(1,2) by (simp add: issue_config_def pool_of_def loc_key_germany new_uuid_def Let_def)
qed

lemma start_trial_reaches_grant:
  assumes "user_by_name (fst s) n = Some u" and "trial_enabled (pf_env P)" and "verified u" and "\<not> trial_active u now"
    and "trial_until u = None" and "subscribed_until u = None"
    and "confirmed_mailbox u = Some a" and "\<not> is_disposable a"
    and "take_limit (TRIAL_PER_IP L) ip clk = (None, l1)"
    and "trial_grants (fst s) = []" and "0 < TRIAL_DAILY_CAP (pf_env P)"
  shows "fst (start_trial P n ip kp now clk L s w) = fst (grant_trial P u (Some (normalise_email a)) ip kp now s w)"
  using assms by (simp add: start_trial_def Let_def trial_seen_def count_where_def split: prod.split)

theorem one_trial_per_person_witness:
  "\<exists>a L' d' out' w' e. start_trial trial_platform ''bob'' ''1.2.3.4'' sample_keys 5 0 fresh_limits
       (empty_db\<lparr>users := [sample_newcomer ''bob'' ''bob@gmail.com'']\<rparr>, empty_outbox) [Some ([], []), Some (''ok:'', [])] =
       (Done (Inr a), L', (d', out'), w') \<and>
     fst (start_trial trial_platform ''eve'' ''5.6.7.8'' sample_keys 9 0 fresh_limits
       (d'\<lparr>users := [sample_newcomer ''eve'' ''B.o.b+again@Googlemail.com'']\<rparr>, empty_outbox) []) \<in> {Done (Inl e), Raised}"
proof -
  let ?bob = "sample_newcomer ''bob'' ''bob@gmail.com''" and ?eve = "sample_newcomer ''eve'' ''B.o.b+again@Googlemail.com''"
  let ?d = "empty_db\<lparr>users := [?bob]\<rparr>"
  let ?run = "start_trial trial_platform ''bob'' ''1.2.3.4'' sample_keys 5 0 fresh_limits (?d, empty_outbox)
       [Some ([], []), Some (''ok:'', [])]"
  have g: "trial_enabled (pf_env trial_platform)" "user_by_name ?d ''bob'' = Some ?bob" "verified ?bob" "\<not> trial_active ?bob 5"
    "trial_until ?bob = None" "subscribed_until ?bob = None" "\<not> is_disposable ''bob@gmail.com''"
    "confirmed_mailbox ?bob = Some ''bob@gmail.com''" "fst (take_limit (TRIAL_PER_IP fresh_limits) ''1.2.3.4'' 0) = None"
    "TRIAL_DAILY_CAP (pf_env trial_platform) = 30" "trial_grants ?d = []"
    by code_simp+
  have add: "bridge_used_ips trial_platform [Some ([], []), Some (''ok:'', [])] = ([], [Some (''ok:'', [])])"
    "add_peer_to_bridge trial_platform (sample_key CHR ''K'') (sample_key CHR ''S'') (pool_ip ''10.88.89'' 10)
       (client_name_of ''trial'' (username ?bob)) [Some (''ok:'', [])] = (Done (True, ''ok''), [])"
    by code_simp+
  have "\<exists>a. fst (grant_trial trial_platform ?bob (Some (normalise_email ''bob@gmail.com'')) ''1.2.3.4'' sample_keys 5
      (?d, empty_outbox) [Some ([], []), Some (''ok:'', [])]) = Done (Inr a)"
  proof -
    let ?u = "?bob\<lparr>trial_until := Some (trial_end (pf_env trial_platform) 5)\<rparr>"
    have iss: "\<exists>c d'. issue_config trial_platform ?u ''trial'' ''trial'' DEFAULT sample_keys 5 dx
        [Some ([], []), Some (''ok:'', [])] = (Done (Some c), d', [])" if "configs dx = []" for dx
      by (rule issue_first_trial_device [OF sample_keys_def add(1) that]) (use add(2) in simp)
    let ?dx = "(snd (new_uuid (put_user ?u ?d)))\<lparr>trial_grants := trial_grants ?d @
        [trial_record ?bob (Some (normalise_email ''bob@gmail.com'')) ''1.2.3.4'' 5 ?d]\<rparr>"
    have "configs ?dx = []" by (simp add: new_uuid_def empty_db_def)
    from iss [OF this] obtain c d' where "issue_config trial_platform ?u ''trial'' ''trial'' DEFAULT sample_keys 5 ?dx
        [Some ([], []), Some (''ok:'', [])] = (Done (Some c), d', [])" by blast
    from grant_trial_eq [OF this] show ?thesis using g(11) by (simp add: grant_conflict_def)
  qed
  moreover obtain l1 where "take_limit (TRIAL_PER_IP fresh_limits) ''1.2.3.4'' 0 = (None, l1)"
    using g(9) by (metis prod.collapse)
  then have "fst ?run = fst (grant_trial trial_platform ?bob (Some (normalise_email ''bob@gmail.com'')) ''1.2.3.4'' sample_keys 5
      (?d, empty_outbox) [Some ([], []), Some (''ok:'', [])])"
    by (intro start_trial_reaches_grant) (simp_all only: fst_conv g, simp_all)
  ultimately obtain a where a: "fst ?run = Done (Inr a)" by metis
  obtain L' d' out' w' where run: "?run = (Done (Inr a), L', (d', out'), w')" using a by (metis prod.collapse)
  have h: "user_by_name ?d ''bob'' = Some ?bob" "user_by_name (d'\<lparr>users := [?eve]\<rparr>) ''eve'' = Some ?eve"
    by (simp_all add: user_by_name_def sample_newcomer_def sample_user_def)
  have m: "confirmed_mailbox ?bob \<noteq> None"
    "map_option normalise_email (confirmed_mailbox ?eve) = map_option normalise_email (confirmed_mailbox ?bob)"
    by code_simp+
  from one_trial_per_person [OF run h, of "''5.6.7.8''" sample_keys 9 0 fresh_limits empty_outbox "[]"] m
  obtain e where "fst (start_trial trial_platform ''eve'' ''5.6.7.8'' sample_keys 9 0 fresh_limits
       (d'\<lparr>users := [?eve]\<rparr>, empty_outbox) []) \<in> {Done (Inl e), Raised}"
    by auto
  with run show ?thesis by blast
qed

end
