(* ===== verification/Accounts.thy ===== *)
theory Accounts
  imports Credit Trial Sessions Subscriptions
begin

section \<open>Accounts (\<open>pwa/api/register.py\<close>, \<open>pwa/api/email_verify.py\<close>, \<open>pwa/api/password_reset.py\<close>)\<close>

text \<open>
  Registration and the client's own pages, the confirmation of an address and the password
  reset.  \<open>email_str\<close> is pydantic's \<open>EmailStr\<close>: the address as the validator gives it, or
  \<open>None\<close> for one it refuses.  A random token is the argument \<open>tok\<close> of the operation that
  draws it, as in the theory of sign-ins.  A letter that is awaited and cannot be sent is only
  logged, so a letter is an entry of the outbox.

  The table's constraints are \<open>user_conflict\<close>: an insertion that breaks one raises.
\<close>

subsection \<open>Queries and limits\<close>

text \<open>\<open>scalar_one_or_none\<close>: more than one row raises.\<close>

fun one_or_none :: "'a list \<Rightarrow> 'a option outcome" where
  "one_or_none [] = Done None"
| "one_or_none [x] = Done (Some x)"
| "one_or_none (x # y # xs) = Raised"

text \<open>\<open>ratelimit.take\<close> on one of the module's limiters.\<close>

definition limited ::
  "(limits \<Rightarrow> limiter) \<Rightarrow> ((limiter \<Rightarrow> limiter) \<Rightarrow> limits \<Rightarrow> limits) \<Rightarrow> string \<Rightarrow> int \<Rightarrow> limits \<Rightarrow> http_error option \<times> limits"
where
  "limited get upd key clk L = (let (over, l1) = take_limit (get L) key clk in (over, upd (\<lambda>_. l1) L))"

definition user_conflict :: "user \<Rightarrow> db \<Rightarrow> bool" where
  "user_conflict u d =
     list_ex (\<lambda>x. u_id x = u_id u \<or> username x = username u \<or>
       email u \<noteq> None \<and> email x = email u \<or> telegram_id u \<noteq> None \<and> telegram_id x = telegram_id u \<or>
       google_sub u \<noteq> None \<and> google_sub x = google_sub u) (users d)"

definition add_user :: "user \<Rightarrow> db \<Rightarrow> db outcome" where
  "add_user u d = (if user_conflict u d then Raised else Done (d\<lparr>users := users d @ [u]\<rparr>))"

text \<open>A \<open>User\<close> with the columns given and the defaults of the others.\<close>

definition new_user :: "string \<Rightarrow> string \<Rightarrow> string option \<Rightarrow> string \<Rightarrow> string \<Rightarrow> datetime \<Rightarrow> user" where
  "new_user i name addr hash lg now =
     \<lparr>u_id = i, username = name, email = addr, password_hash = hash, u_is_active = True,
      is_subscribed = False, u_peer_ip = None, u_plan = None, u_created_at = now,
      subscribed_until = None, reset_token = None, reset_expires = None, email_verified_at = None,
      email_verify_token = None, email_verify_expires = None, lang = lg, trial_until = None,
      referred_code = None, telegram_id = None, google_sub = None, telegram_link_hash = None,
      telegram_link_expires = None\<rparr>"

subsection \<open>Confirmation tokens (\<open>email_verify.py\<close>)\<close>

definition PORTAL_BASE_URL :: "env \<Rightarrow> string" where
  "PORTAL_BASE_URL e = getenv e ''PORTAL_BASE_URL'' ''https://sov3r3ign.com''"

definition VERIFY_TOKEN_TTL :: timedelta where
  "VERIFY_TOKEN_TTL = hours 48"

definition issue_token :: "crypto \<Rightarrow> string \<Rightarrow> datetime \<Rightarrow> user \<Rightarrow> user" where
  "issue_token K tok now u =
     u\<lparr>email_verify_token := Some (digest K tok), email_verify_expires := Some (now + VERIFY_TOKEN_TTL)\<rparr>"

definition verify_url :: "env \<Rightarrow> string \<Rightarrow> string" where
  "verify_url e token = PORTAL_BASE_URL e @ ''/verify?token='' @ token"

definition mark_verified :: "datetime \<Rightarrow> user \<Rightarrow> user" where
  "mark_verified now u =
     (if email_verified_at u = None then u\<lparr>email_verified_at := Some now\<rparr> else u)
       \<lparr>email_verify_token := None, email_verify_expires := None\<rparr>"

definition verify_email ::
  "crypto \<Rightarrow> string \<Rightarrow> string \<Rightarrow> datetime \<Rightarrow> int \<Rightarrow> limits \<Rightarrow> db \<Rightarrow> unit reply \<times> limits \<times> db"
where
  "verify_email K ip token now clk L d =
     (if length token > 128 then (Done (Inl (http 422 ''string_too_long'')), L, d)
      else
        let (over, L1) = limited VERIFY_PER_IP VERIFY_PER_IP_update ip clk L in
        case over of
          Some err \<Rightarrow> (Done (Inl err), L1, d)
        | None \<Rightarrow>
            (case one_or_none (filter (\<lambda>u. email_verify_token u = Some (digest K token)) (users d)) of
               Raised \<Rightarrow> (Raised, L1, d)
             | Done None \<Rightarrow> (Done (Inl (http 400 ''Invalid or used confirmation link'')), L1, d)
             | Done (Some u) \<Rightarrow>
                 (case email_verify_expires u of
                    None \<Rightarrow> (Done (Inl (http 400 ''Invalid or used confirmation link'')), L1, d)
                  | Some expires \<Rightarrow>
                      if now > expires then (Done (Inl (http 400 ''Confirmation link has expired'')), L1, d)
                      else (Done (Inr ()), L1, put_user (mark_verified now u) d))))"

text \<open>The answer says whether the address was confirmed already.\<close>

definition resend_verification ::
  "crypto \<Rightarrow> env \<Rightarrow> string \<Rightarrow> string \<Rightarrow> string \<Rightarrow> datetime \<Rightarrow> int \<Rightarrow> limits \<Rightarrow> session \<Rightarrow> bool reply \<times> limits \<times> session"
where
  "resend_verification K e name ip tok now clk L s =
     (case user_by_name (fst s) name of
        None \<Rightarrow> (Done (Inl (http 404 ''User not found'')), L, s)
      | Some u \<Rightarrow>
          if email_verified_at u \<noteq> None then (Done (Inr True), L, s)
          else if \<not> given (email u) then (Done (Inl (http 400 ''no_email'')), L, s)
          else
            let (over, L1) = limited VERIFY_RESEND VERIFY_RESEND_update (u_id u) clk L in
            case over of
              Some err \<Rightarrow> (Done (Inl err), L1, s)
            | None \<Rightarrow>
                (let (over2, L2) = limited VERIFY_RESEND_PER_IP VERIFY_RESEND_PER_IP_update ip clk L1 in
                 case over2 of
                   Some err \<Rightarrow> (Done (Inl err), L2, s)
                 | None \<Rightarrow>
                     (Done (Inr False), L2, put_user (issue_token K tok now u) (fst s),
                      (snd s)\<lparr>letters := letters (snd s) @ [Verification (the (email u)) (verify_url e tok)]\<rparr>)))"

subsection \<open>Registration (\<open>register.py\<close>)\<close>

text \<open>\<open>[A-Za-z0-9_-]{3,27}\<close>, matched against the whole name.\<close>

definition name_char :: "char \<Rightarrow> bool" where
  "name_char c = (is_letter c \<or> is_digit c \<or> c = CHR ''_'' \<or> c = CHR ''-'')"

definition USERNAME_RE :: "string \<Rightarrow> bool" where
  "USERNAME_RE s = (3 \<le> length s \<and> length s \<le> 27 \<and> list_all name_char s)"

definition PASSWORD_MIN :: nat where
  "PASSWORD_MIN = 8"

definition PASSWORD_MAX :: nat where
  "PASSWORD_MAX = 128"

definition RESERVED :: "env \<Rightarrow> string list" where
  "RESERVED e = [lower (ADMIN_USERNAME e), ''admin'', ''root'', ''support'', ''sovereign'', ''sovrn'']"

record register_request =
  rq_username :: string
  rq_email :: string
  rq_password :: string
  rq_lang :: string
  rq_ref :: "string option"

text \<open>The validators of the request body; \<open>None\<close> is a body pydantic refuses.\<close>

definition register_body :: "env \<Rightarrow> (string \<Rightarrow> string option) \<Rightarrow> register_request \<Rightarrow> register_request option" where
  "register_body e email_str q =
     (if \<not> USERNAME_RE (rq_username q) \<or> lower (rq_username q) \<in> set (RESERVED e) \<or>
         length (rq_password q) < PASSWORD_MIN \<or> length (rq_password q) > PASSWORD_MAX \<or>
         (case rq_ref q of None \<Rightarrow> False | Some r \<Rightarrow> length r > 32)
      then None
      else
        case email_str (rq_email q) of
          None \<Rightarrow> None
        | Some a \<Rightarrow> Some (q\<lparr>rq_email := lower a,
                            rq_lang := (if rq_lang q \<in> {''ru'', ''en''} then rq_lang q else ''ru'')\<rparr>))"

record user_response =
  ur_id :: string
  ur_username :: string
  ur_email :: string
  ur_is_active :: bool
  ur_is_subscribed :: bool
  ur_peer_ip :: "string option"

text \<open>\<open>email: str\<close> is not nullable: an account without an address does not fit (\<open>None\<close>).\<close>

definition user_response_of :: "user \<Rightarrow> user_response option" where
  "user_response_of u =
     map_option (\<lambda>a. \<lparr>ur_id = u_id u, ur_username = username u, ur_email = a, ur_is_active = u_is_active u,
                      ur_is_subscribed = is_subscribed u, ur_peer_ip = u_peer_ip u\<rparr>) (email u)"

text \<open>The code of a link the account came through, when it holds for it.\<close>

definition referred_by :: "db \<Rightarrow> string option \<Rightarrow> user \<Rightarrow> datetime \<Rightarrow> string option" where
  "referred_by d ref u now =
     (if given ref then map_option code (fst (resolve_code d ref u now)) else None)"

text \<open>The part of \<open>register\<close> after the limit: the two queries, the insertion and the letter.\<close>

definition create_account ::
  "crypto \<Rightarrow> env \<Rightarrow> register_request \<Rightarrow> string \<Rightarrow> datetime \<Rightarrow> session \<Rightarrow> user_response reply \<times> session"
where
  "create_account K e q tok now s =
     (let d = fst s in
      case one_or_none (filter (\<lambda>u. lower (username u) = lower (rq_username q)) (users d)) of
        Raised \<Rightarrow> (Raised, s)
      | Done (Some _) \<Rightarrow> (Done (Inl (http 409 ''Username already exists'')), s)
      | Done None \<Rightarrow>
          (case one_or_none (filter (\<lambda>u. map_option lower (email u) = Some (rq_email q)) (users d)) of
             Raised \<Rightarrow> (Raised, s)
           | Done (Some _) \<Rightarrow> (Done (Inl (http 409 ''Email already registered'')), s)
           | Done None \<Rightarrow>
               (let (i, d1) = new_uuid d;
                    u = issue_token K tok now
                          (new_user i (rq_username q) (Some (rq_email q)) (pwd_hash K (rq_password q)) (rq_lang q) now)
                in case add_user u d1 of
                     Raised \<Rightarrow> (Raised, s)
                   | Done d2 \<Rightarrow>
                       (let u1 = u\<lparr>referred_code := referred_by d2 (rq_ref q) u now\<rparr>
                        in case user_response_of u1 of
                             None \<Rightarrow> (Raised, s)
                           | Some r \<Rightarrow>
                               (Done (Inr r), put_user u1 d2,
                                (snd s)\<lparr>letters := letters (snd s) @ [Welcome (rq_email q) (verify_url e tok)]\<rparr>)))))"

definition register ::
  "crypto \<Rightarrow> env \<Rightarrow> (string \<Rightarrow> string option) \<Rightarrow> string \<Rightarrow> register_request \<Rightarrow> string \<Rightarrow> datetime \<Rightarrow> int \<Rightarrow>
   limits \<Rightarrow> session \<Rightarrow> user_response reply \<times> limits \<times> session"
where
  "register K e email_str ip req tok now clk L s =
     (case register_body e email_str req of
        None \<Rightarrow> (Done (Inl (http 422 ''validation'')), L, s)
      | Some q \<Rightarrow>
          let (over, L1) = limited REGISTER_PER_IP REGISTER_PER_IP_update ip clk L in
          case over of
            Some err \<Rightarrow> (Done (Inl err), L1, s)
          | None \<Rightarrow> (case create_account K e q tok now s of (r, s1) \<Rightarrow> (r, L1, s1)))"

definition list_clients :: "crypto \<Rightarrow> string \<Rightarrow> datetime \<Rightarrow> db \<Rightarrow> user_response list reply" where
  "list_clients K token now d =
     (case require_admin K token now of
        Inl err \<Rightarrow> Done (Inl err)
      | Inr _ \<Rightarrow>
          (case those (map user_response_of (users d)) of
             None \<Rightarrow> Raised
           | Some rows \<Rightarrow> Done (Inr rows)))"

text \<open>The answer of \<open>assign_peer\<close>: the account's name, its address and its new end.\<close>

definition assign_peer ::
  "crypto \<Rightarrow> string \<Rightarrow> string \<Rightarrow> string \<Rightarrow> int \<Rightarrow> datetime \<Rightarrow> db \<Rightarrow> (string \<times> string \<times> datetime) reply \<times> db"
where
  "assign_peer K token name peer_ip n now d =
     (case require_admin K token now of
        Inl err \<Rightarrow> (Done (Inl err), d)
      | Inr _ \<Rightarrow>
          if n < 1 \<or> n > 365 then (Done (Inl (http 422 ''days'')), d)
          else
            case user_by_name d name of
              None \<Rightarrow> (Done (Inl (http 404 (''User '' @ [CHR 0x27] @ name @ [CHR 0x27] @ '' not found''))), d)
            | Some u \<Rightarrow>
                let base = max now (case subscribed_until u of None \<Rightarrow> now | Some t \<Rightarrow> t);
                    until = base + days n
                in if length peer_ip > 20 then (Raised, d)
                   else (Done (Inr (name, peer_ip, until)),
                         put_user (u\<lparr>u_peer_ip := Some peer_ip, is_subscribed := True,
                                    subscribed_until := Some until\<rparr>) d))"

record me_answer =
  me_username :: string
  me_email :: "string option"
  me_email_verified :: bool
  me_telegram_linked :: bool
  me_is_subscribed :: bool
  me_plan :: "string option"
  me_active :: bool
  me_peer_ip :: "string option"
  me_subscribed_until :: "datetime option"
  me_trial_state :: string
  me_trial_until :: "datetime option"

definition get_me :: "env \<Rightarrow> string \<Rightarrow> datetime \<Rightarrow> db \<Rightarrow> http_error + me_answer" where
  "get_me e name now d =
     (case user_by_name d name of
        None \<Rightarrow> Inl (http 404 ''User not found'')
      | Some u \<Rightarrow> Inr
          \<lparr>me_username = username u, me_email = email u, me_email_verified = (email_verified_at u \<noteq> None),
           me_telegram_linked = (telegram_id u \<noteq> None), me_is_subscribed = is_subscribed u, me_plan = u_plan u,
           me_active = has_active_subscription u now, me_peer_ip = u_peer_ip u,
           me_subscribed_until = subscribed_until u,
           me_trial_state = trial_state e u (subscribed_until u \<noteq> None) now, me_trial_until = trial_until u\<rparr>)"

record payment_row =
  pr_plan :: string
  pr_amount :: int
  pr_granted :: bool
  pr_currency :: string
  pr_status :: string
  pr_created_at :: datetime
  pr_paid_at :: "datetime option"

definition my_payments :: "string \<Rightarrow> db \<Rightarrow> http_error + payment_row list" where
  "my_payments name d =
     (case user_by_name d name of
        None \<Rightarrow> Inl (http 404 ''User not found'')
      | Some u \<Rightarrow> Inr
          (map (\<lambda>p. \<lparr>pr_plan = p_plan p, pr_amount = p_amount p, pr_granted = (provider p = Some ''manual''),
                      pr_currency = p_currency p, pr_status = p_status p, pr_created_at = p_created_at p,
                      pr_paid_at = paid_at p\<rparr>)
             (sort_key (\<lambda>p. - p_created_at p) (filter (\<lambda>p. p_user_id p = u_id u) (payments d)))))"

subsection \<open>The password reset (\<open>password_reset.py\<close>)\<close>

definition RESET_TOKEN_TTL_HOURS :: int where
  "RESET_TOKEN_TTL_HOURS = 1"

definition reset_url :: "env \<Rightarrow> string \<Rightarrow> string" where
  "reset_url e token = PORTAL_BASE_URL e @ ''/reset?token='' @ token"

text \<open>A letter is only sent to an account that has the address typed in, so it has one.\<close>

definition forgot_password ::
  "crypto \<Rightarrow> env \<Rightarrow> (string \<Rightarrow> string option) \<Rightarrow> string \<Rightarrow> string \<Rightarrow> string \<Rightarrow> datetime \<Rightarrow> int \<Rightarrow> limits \<Rightarrow> session \<Rightarrow>
   string reply \<times> limits \<times> session"
where
  "forgot_password K e email_str ip addr tok now clk L s =
     (case email_str addr of
        None \<Rightarrow> (Done (Inl (http 422 ''validation'')), L, s)
      | Some a \<Rightarrow>
          let mail = lower a; (over, L1) = limited FORGOT_PER_IP FORGOT_PER_IP_update ip clk L in
          case over of
            Some err \<Rightarrow> (Done (Inl err), L1, s)
          | None \<Rightarrow>
              (let (over2, L2) = limited FORGOT_PER_EMAIL FORGOT_PER_EMAIL_update mail clk L1;
                   sent = Done (Inr ''If that email is registered, a reset link has been sent.'')
               in case over2 of
                    Some err \<Rightarrow> (Done (Inl err), L2, s)
                  | None \<Rightarrow>
                      (case one_or_none (filter (\<lambda>u. map_option lower (email u) = Some mail) (users (fst s))) of
                         Raised \<Rightarrow> (Raised, L2, s)
                       | Done None \<Rightarrow> (sent, L2, s)
                       | Done (Some u) \<Rightarrow>
                           (sent, L2,
                            put_user (u\<lparr>reset_token := Some (digest K tok),
                                       reset_expires := Some (now + hours RESET_TOKEN_TTL_HOURS)\<rparr>) (fst s),
                            (snd s)\<lparr>letters := letters (snd s) @
                              [PasswordReset (the (email u)) (reset_url e tok)]\<rparr>))))"

definition with_password :: "crypto \<Rightarrow> string \<Rightarrow> datetime \<Rightarrow> user \<Rightarrow> user" where
  "with_password K new_password now u =
     (let u1 = u\<lparr>password_hash := pwd_hash K new_password, reset_token := None, reset_expires := None\<rparr>
      in if email_verified_at u1 = None then mark_verified now u1 else u1)"

definition reset_password ::
  "crypto \<Rightarrow> string \<Rightarrow> string \<Rightarrow> string \<Rightarrow> datetime \<Rightarrow> int \<Rightarrow> limits \<Rightarrow> db \<Rightarrow> string reply \<times> limits \<times> db"
where
  "reset_password K ip token new_password now clk L d =
     (if length token > 128 \<or> length new_password > 128 then (Done (Inl (http 422 ''string_too_long'')), L, d)
      else
        let (over, L1) = limited RESET_PER_IP RESET_PER_IP_update ip clk L;
            invalid = Done (Inl (http 400 ''Invalid or expired reset link''))
        in case over of
             Some err \<Rightarrow> (Done (Inl err), L1, d)
           | None \<Rightarrow>
               if length new_password < 8
               then (Done (Inl (http 400 ''Password must be at least 8 characters'')), L1, d)
               else
                 (case one_or_none (filter (\<lambda>u. reset_token u = Some (digest K token)) (users d)) of
                    Raised \<Rightarrow> (Raised, L1, d)
                  | Done None \<Rightarrow> (invalid, L1, d)
                  | Done (Some u) \<Rightarrow>
                      (case reset_expires u of
                         None \<Rightarrow> (invalid, L1, d)
                       | Some expires \<Rightarrow>
                           if now > expires
                           then (invalid, L1, put_user (u\<lparr>reset_token := None, reset_expires := None\<rparr>) d)
                           else (Done (Inr ''Password updated successfully''), L1,
                                 put_user (with_password K new_password now u) (close_all u d)))))"

subsection \<open>Lemmas: queries\<close>

lemma one_or_none_None [simp]: "one_or_none xs = Done None \<longleftrightarrow> xs = []"
  by (cases xs rule: one_or_none.cases) auto

lemma one_or_none_Some [simp]: "one_or_none xs = Done (Some x) \<longleftrightarrow> xs = [x]"
  by (cases xs rule: one_or_none.cases) auto

lemma one_or_none_Raised [simp]: "one_or_none xs = Raised \<longleftrightarrow> 2 \<le> length xs"
  by (cases xs rule: one_or_none.cases) auto

lemma filter_single:
  "filter P xs = [x] \<Longrightarrow> x \<in> set xs \<and> P x \<and> (\<forall>y\<in>set xs. P y \<longrightarrow> y = x)"
proof -
  assume "filter P xs = [x]"
  then have "set (filter P xs) = {x}" by simp
  then show ?thesis by auto
qed

lemma filter_singleI:
  assumes "distinct (map k xs)" and "x \<in> set xs" and "P x" and "\<And>y. y \<in> set xs \<Longrightarrow> P y \<Longrightarrow> k y = k x"
  shows "filter P xs = [x]"
  using assms
proof (induction xs)
  case (Cons a xs)
  show ?case
  proof (cases "a = x")
    case True
    have "\<not> P y" if "y \<in> set xs" for y
    proof
      assume "P y"
      with that Cons.prems(4) have "k y = k x" by simp
      moreover have "k a \<notin> k ` set xs" using Cons.prems(1) by simp
      moreover have "k y \<in> k ` set xs" using that by (rule imageI)
      ultimately show False using True by simp
    qed
    then have "filter P xs = []" by (simp add: filter_empty_conv)
    with True Cons.prems(3) show ?thesis by simp
  next
    case False
    with Cons.prems(2) have "x \<in> set xs" by simp
    then have "k a \<noteq> k x" using Cons.prems(1) by auto
    then have "\<not> P a" using Cons.prems(4) [of a] by fastforce
    moreover have "filter P xs = [x]"
    proof (rule Cons.IH [OF _ \<open>x \<in> set xs\<close> Cons.prems(3)])
      show "distinct (map k xs)" using Cons.prems(1) by simp
      show "k y = k x" if "y \<in> set xs" "P y" for y by (rule Cons.prems(4)) (simp_all add: that)
    qed
    ultimately show ?thesis by simp
  qed
qed simp

lemma unique_filter_le_1:
  assumes "unique_on k xs"
  shows "length (filter (\<lambda>x. k x = Some v) xs) \<le> 1"
proof -
  have "unique_on k xs \<Longrightarrow> length (filter (\<lambda>x. k x = Some v) xs) \<le> 1 \<and>
    (v \<notin> set (List.map_filter k xs) \<longrightarrow> filter (\<lambda>x. k x = Some v) xs = [])"
    by (induction xs) (auto simp: unique_on_def List.map_filter_simps split: option.splits)
  with assms show ?thesis by simp
qed

lemma unique_on_map: "unique_on k xs \<longleftrightarrow> unique_on id (map k xs)"
  by (simp add: unique_on_def List.map_filter_def filter_map comp_def)

lemma unique_on_eqD:
  assumes "unique_on k xs" and "x \<in> set xs" and "y \<in> set xs" and "k x = Some v" and "k y = Some v"
  shows "x = y"
proof -
  have "length (filter (\<lambda>x. k x = Some v) xs) \<le> 1" by (rule unique_filter_le_1 [OF assms(1)])
  moreover have "x \<in> set (filter (\<lambda>x. k x = Some v) xs)" "y \<in> set (filter (\<lambda>x. k x = Some v) xs)"
    using assms by auto
  ultimately show ?thesis
    by (cases "filter (\<lambda>x. k x = Some v) xs" rule: one_or_none.cases) auto
qed

lemma set_put_user:
  "set (users (put_user u d)) = {x \<in> set (users d). u_id x \<noteq> u_id u} \<union> {u | x. x \<in> set (users d) \<and> u_id x = u_id u}"
  by (auto simp: put_user_def set_update_where image_iff)

lemma map_put_user:
  assumes "distinct (map u_id (users d))" and "u \<in> set (users d)" and "u_id u' = u_id u" and "f u' = f u"
  shows "map f (users (put_user u' d)) = map f (users d)"
proof -
  have "x = u" if "x \<in> set (users d)" "u_id x = u_id u'" for x
    using that assms by (metis distinct_map_eqD)
  with assms(4) show ?thesis by (auto simp: put_user_def update_where_def)
qed

lemma put_user_added:
  assumes "\<not> user_conflict u d" and "u_id u1 = u_id u"
  shows "users (put_user u1 (d\<lparr>users := users d @ [u]\<rparr>)) = users d @ [u1]"
proof -
  have "\<forall>x\<in>set (users d). u_id x \<noteq> u_id u1" using assms by (auto simp: user_conflict_def list_ex_iff)
  then show ?thesis using assms by (simp add: put_user_def update_where_def map_idI)
qed

subsection \<open>One account per name, address, chat and Google account\<close>

text \<open>
  Stronger than the table's constraints in the two columns that people type: names and
  addresses differ in more than case.
\<close>

definition accounts_ok :: "db \<Rightarrow> bool" where
  "accounts_ok d =
     (distinct (map u_id (users d)) \<and> distinct (map (\<lambda>u. lower (username u)) (users d)) \<and>
      unique_on (\<lambda>u. map_option lower (email u)) (users d) \<and> unique_on telegram_id (users d) \<and>
      unique_on google_sub (users d))"

lemma accounts_ok_users: "users d' = users d \<Longrightarrow> accounts_ok d' = accounts_ok d"
  by (simp add: accounts_ok_def)

lemma accounts_ok_put:
  assumes "accounts_ok d" and "u \<in> set (users d)" and "u_id u' = u_id u" and "username u' = username u"
    and "email u' = email u" and "telegram_id u' = telegram_id u" and "google_sub u' = google_sub u"
  shows "accounts_ok (put_user u' d)"
proof -
  note same = map_put_user [of d u u', OF _ assms(2,3)]
  have ids: "distinct (map u_id (users d))" using assms(1) by (simp add: accounts_ok_def)
  show ?thesis
    using assms unfolding accounts_ok_def unique_on_map [where xs = "users _"]
    by (simp add: same [OF ids])
qed

lemma accounts_ok_add:
  assumes "accounts_ok d" and "users d' = users d @ [u]" and "u_id u \<notin> u_id ` set (users d)"
    and "\<forall>x\<in>set (users d). lower (username x) \<noteq> lower (username u)"
    and "\<forall>x\<in>set (users d). email u \<noteq> None \<longrightarrow> map_option lower (email x) \<noteq> map_option lower (email u)"
    and "\<forall>x\<in>set (users d). telegram_id u \<noteq> None \<longrightarrow> telegram_id x \<noteq> telegram_id u"
    and "\<forall>x\<in>set (users d). google_sub u \<noteq> None \<longrightarrow> google_sub x \<noteq> google_sub u"
  shows "accounts_ok d'"
  using assms unfolding accounts_ok_def
  by (auto simp: unique_on_append_single)

lemma filter_email_le_1:
  "accounts_ok d \<Longrightarrow> length (filter (\<lambda>u. map_option lower (email u) = Some a) (users d)) \<le> 1"
  unfolding accounts_ok_def by (rule unique_filter_le_1) simp

lemma filter_name_le_1:
  assumes "accounts_ok d"
  shows "length (filter (\<lambda>u. lower (username u) = n) (users d)) \<le> 1"
proof -
  have "unique_on (\<lambda>u. Some (lower (username u))) (users d)"
    using assms by (simp add: accounts_ok_def unique_on_def List.map_filter_def comp_def)
  from unique_filter_le_1 [OF this, of n] show ?thesis by simp
qed

subsection \<open>Lemmas: how the requests end\<close>

lemma mark_verified_same [simp]:
  "u_id (mark_verified now u) = u_id u" "username (mark_verified now u) = username u"
  "email (mark_verified now u) = email u" "telegram_id (mark_verified now u) = telegram_id u"
  "google_sub (mark_verified now u) = google_sub u" "password_hash (mark_verified now u) = password_hash u"
  "reset_token (mark_verified now u) = reset_token u" "email_verify_token (mark_verified now u) = None"
  "email_verified_at (mark_verified now u) = Some (case email_verified_at u of None \<Rightarrow> now | Some t \<Rightarrow> t)"
  by (auto simp: mark_verified_def split: option.splits)

lemma with_password_same [simp]:
  "u_id (with_password K pw now u) = u_id u" "username (with_password K pw now u) = username u"
  "email (with_password K pw now u) = email u" "telegram_id (with_password K pw now u) = telegram_id u"
  "google_sub (with_password K pw now u) = google_sub u"
  "password_hash (with_password K pw now u) = pwd_hash K pw" "reset_token (with_password K pw now u) = None"
  "email_verified_at (with_password K pw now u) \<noteq> None"
  by (simp_all add: with_password_def Let_def)

lemma create_account_cases:
  assumes "create_account K e q tok now s = (r, s')"
  obtains (refused) err where "r = Done (Inl err)" "s' = s"
  | (raised) "r = Raised" "s' = s"
      "2 \<le> length (filter (\<lambda>u. lower (username u) = lower (rq_username q)) (users (fst s))) \<or>
       2 \<le> length (filter (\<lambda>u. map_option lower (email u) = Some (rq_email q)) (users (fst s))) \<or>
       (\<forall>x\<in>set (users (fst s)). lower (username x) \<noteq> lower (rq_username q) \<and> map_option lower (email x) \<noteq> Some (rq_email q)) \<and>
       (\<exists>x\<in>set (users (fst s)). u_id x = fst (new_uuid (fst s)) \<or> username x = rq_username q \<or> email x = Some (rq_email q))"
  | (created) u d' a c where "r = Done (Inr a)" "s' = (d', (snd s)\<lparr>letters := letters (snd s) @ [Welcome (rq_email q) (verify_url e tok)]\<rparr>)"
      "users d' = users (fst s) @ [u]" "u_id u \<notin> u_id ` set (users (fst s))"
      "\<forall>x\<in>set (users (fst s)). lower (username x) \<noteq> lower (rq_username q) \<and> map_option lower (email x) \<noteq> Some (rq_email q)"
      "u = (issue_token K tok now (new_user (fst (new_uuid (fst s))) (rq_username q) (Some (rq_email q))
              (pwd_hash K (rq_password q)) (rq_lang q) now))\<lparr>referred_code := c\<rparr>"
      "user_response_of u = Some a"
proof -
  define d where "d = fst s"
  let ?same_name = "filter (\<lambda>u. lower (username u) = lower (rq_username q)) (users d)"
  let ?same_mail = "filter (\<lambda>u. map_option lower (email u) = Some (rq_email q)) (users d)"
  obtain i d1 where id: "new_uuid d = (i, d1)" by fastforce
  define u where "u = issue_token K tok now (new_user i (rq_username q) (Some (rq_email q))
      (pwd_hash K (rq_password q)) (rq_lang q) now)"
  have d1: "users d1 = users d" using id by (auto simp: new_uuid_def)
  show thesis
  proof (cases "?same_name = [] \<and> ?same_mail = []")
    case False
    then show thesis
    proof (cases "2 \<le> length ?same_name \<or> ?same_name = [] \<and> 2 \<le> length ?same_mail")
      case True
      then have "create_account K e q tok now s = (Raised, s)"
        unfolding create_account_def Let_def d_def [symmetric] by (auto split: outcome.splits option.splits)
      with assms True show thesis by (intro raised) (auto simp: d_def)
    next
      case nr: False
      then have "\<exists>err. create_account K e q tok now s = (Done (Inl err), s)"
        using False unfolding create_account_def Let_def d_def [symmetric]
        by (auto split: outcome.splits option.splits)
      with assms show thesis using refused by auto
    qed
  next
    case True
    then have new: "\<forall>x\<in>set (users d). lower (username x) \<noteq> lower (rq_username q) \<and> map_option lower (email x) \<noteq> Some (rq_email q)"
      by (simp add: filter_empty_conv)
    have run: "create_account K e q tok now s = (case add_user u d1 of Raised \<Rightarrow> (Raised, s)
        | Done d2 \<Rightarrow> (let u1 = u\<lparr>referred_code := referred_by d2 (rq_ref q) u now\<rparr> in
            case user_response_of u1 of None \<Rightarrow> (Raised, s) | Some a \<Rightarrow> (Done (Inr a), put_user u1 d2,
              (snd s)\<lparr>letters := letters (snd s) @ [Welcome (rq_email q) (verify_url e tok)]\<rparr>)))"
      using True id unfolding u_def create_account_def d_def by (simp add: Let_def)
    show thesis
    proof (cases "user_conflict u d1")
      case True
      then have "\<exists>x\<in>set (users d). u_id x = i \<or> username x = rq_username q \<or> email x = Some (rq_email q)"
        by (auto simp: user_conflict_def u_def issue_token_def new_user_def list_ex_iff d1)
      with True run assms new id show thesis by (intro raised) (auto simp: add_user_def d_def)
    next
      case False
      define d2 where "d2 = d1\<lparr>users := users d1 @ [u]\<rparr>"
      define u1 where "u1 = u\<lparr>referred_code := referred_by d2 (rq_ref q) u now\<rparr>"
      obtain a where resp: "user_response_of u1 = Some a"
        by (simp add: user_response_of_def u1_def u_def issue_token_def new_user_def)
      have "create_account K e q tok now s = (Done (Inr a), put_user u1 d2,
          (snd s)\<lparr>letters := letters (snd s) @ [Welcome (rq_email q) (verify_url e tok)]\<rparr>)"
        unfolding run using False resp by (simp add: add_user_def Let_def d2_def [symmetric] u1_def [symmetric])
      moreover have "users (put_user u1 d2) = users d @ [u1]"
        unfolding d2_def using put_user_added [OF False, of u1] by (simp add: u1_def d1)
      moreover have "u_id u1 \<notin> u_id ` set (users d)"
        using False by (auto simp: user_conflict_def list_ex_iff d1 u1_def)
      ultimately show thesis using assms new resp id
        by (intro created [of a "put_user u1 d2" u1 "referred_code u1"])
          (auto simp: d_def u1_def u_def)
    qed
  qed
qed

lemma register_body_Some:
  assumes "register_body e email_str req = Some q"
  shows "USERNAME_RE (rq_username q)" "lower (rq_username q) \<notin> set (RESERVED e)" "lower (rq_email q) = rq_email q"
    "rq_username q = rq_username req" "rq_lang q \<in> {''ru'', ''en''}" "rq_password q = rq_password req"
  using assms by (auto simp: register_body_def split: if_splits option.splits)

lemma register_cases:
  assumes "register K e email_str ip req tok now clk L s = (r, L', s')"
  obtains (refused) err where "r = Done (Inl err)" "s' = s"
  | (ran) q where "register_body e email_str req = Some q" "create_account K e q tok now s = (r, s')"
  using assms by (auto simp: register_def split: option.splits prod.splits)

lemma verify_email_cases:
  assumes "verify_email K ip token now clk L d = (r, L', d')"
  obtains (refused) err where "r = Done (Inl err)" "d' = d"
  | (raised) "r = Raised" "d' = d"
  | (verified) u x where "r = Done (Inr ())" "filter (\<lambda>u. email_verify_token u = Some (digest K token)) (users d) = [u]"
      "email_verify_expires u = Some x" "now \<le> x" "d' = put_user (mark_verified now u) d"
proof -
  have "(\<exists>err. r = Done (Inl err)) \<and> d' = d \<or> r = Raised \<and> d' = d \<or>
    (\<exists>u x. r = Done (Inr ()) \<and> filter (\<lambda>u. email_verify_token u = Some (digest K token)) (users d) = [u] \<and>
      email_verify_expires u = Some x \<and> now \<le> x \<and> d' = put_user (mark_verified now u) d)"
    using assms unfolding verify_email_def by (auto split: if_splits option.splits prod.splits outcome.splits)
  then show thesis using refused raised verified by blast
qed

lemma reset_password_cases:
  assumes "reset_password K ip token pw now clk L d = (r, L', d')"
  obtains (refused) err where "r = Done (Inl err)" "d' = d"
  | (raised) "r = Raised" "d' = d"
  | (expired) u x err where "r = Done (Inl err)" "filter (\<lambda>u. reset_token u = Some (digest K token)) (users d) = [u]"
      "reset_expires u = Some x" "x < now" "d' = put_user (u\<lparr>reset_token := None, reset_expires := None\<rparr>) d"
  | (changed) u x m where "r = Done (Inr m)" "filter (\<lambda>u. reset_token u = Some (digest K token)) (users d) = [u]"
      "reset_expires u = Some x" "now \<le> x" "8 \<le> length pw" "d' = put_user (with_password K pw now u) (close_all u d)"
proof -
  have "(\<exists>err. r = Done (Inl err)) \<and> d' = d \<or> r = Raised \<and> d' = d \<or>
    (\<exists>u x. filter (\<lambda>u. reset_token u = Some (digest K token)) (users d) = [u] \<and> reset_expires u = Some x \<and>
      ((\<exists>err. r = Done (Inl err)) \<and> x < now \<and> d' = put_user (u\<lparr>reset_token := None, reset_expires := None\<rparr>) d \<or>
       (\<exists>m. r = Done (Inr m)) \<and> now \<le> x \<and> 8 \<le> length pw \<and> d' = put_user (with_password K pw now u) (close_all u d)))"
    using assms unfolding reset_password_def Let_def
    by (auto split: if_splits option.splits prod.splits outcome.splits)
  then show thesis using refused raised expired changed by blast
qed

lemma resend_verification_cases:
  assumes "resend_verification K e name ip tok now clk L s = (r, L', s')"
  obtains (same) "s' = s"
  | (sent) u where "r = Done (Inr False)" "user_by_name (fst s) name = Some u" "email_verified_at u = None" "given (email u)"
      "s' = (put_user (issue_token K tok now u) (fst s),
             (snd s)\<lparr>letters := letters (snd s) @ [Verification (the (email u)) (verify_url e tok)]\<rparr>)"
proof -
  have "s' = s \<or> (\<exists>u. r = Done (Inr False) \<and> user_by_name (fst s) name = Some u \<and> email_verified_at u = None \<and>
      given (email u) \<and> s' = (put_user (issue_token K tok now u) (fst s),
        (snd s)\<lparr>letters := letters (snd s) @ [Verification (the (email u)) (verify_url e tok)]\<rparr>))"
    using assms unfolding resend_verification_def by (auto split: if_splits option.splits prod.splits)
  then show thesis using same sent by blast
qed

lemma forgot_password_cases:
  assumes "forgot_password K e email_str ip addr tok now clk L s = (r, L', s')"
  obtains (same) "s' = s"
  | (sent) u a where "email_str addr = Some a" "filter (\<lambda>u. map_option lower (email u) = Some (lower a)) (users (fst s)) = [u]"
      "s' = (put_user (u\<lparr>reset_token := Some (digest K tok), reset_expires := Some (now + hours RESET_TOKEN_TTL_HOURS)\<rparr>) (fst s),
             (snd s)\<lparr>letters := letters (snd s) @ [PasswordReset (the (email u)) (reset_url e tok)]\<rparr>)"
proof -
  have "s' = s \<or> (\<exists>u a. email_str addr = Some a \<and>
      filter (\<lambda>u. map_option lower (email u) = Some (lower a)) (users (fst s)) = [u] \<and>
      s' = (put_user (u\<lparr>reset_token := Some (digest K tok), reset_expires := Some (now + hours RESET_TOKEN_TTL_HOURS)\<rparr>) (fst s),
        (snd s)\<lparr>letters := letters (snd s) @ [PasswordReset (the (email u)) (reset_url e tok)]\<rparr>))"
    using assms unfolding forgot_password_def Let_def
    by (auto split: if_splits option.splits prod.splits outcome.splits)
  then show thesis using same sent by blast
qed

lemma user_by_name_SomeD: "user_by_name d n = Some u \<Longrightarrow> u \<in> set (users d) \<and> username u = n"
  by (auto simp: user_by_name_def dest: find_SomeD)

lemma close_all_users [simp]: "users (close_all u d) = users d"
  by (simp add: close_all_def delete_sessions_def)

lemma register_accounts_ok:
  assumes "register K e email_str ip req tok now clk L s = (r, L', s')" and "accounts_ok (fst s)"
  shows "accounts_ok (fst s')"
  using assms(1)
proof (cases rule: register_cases)
  case (ran q)
  note body = register_body_Some [OF ran(1)]
  from ran(2) show ?thesis
  proof (cases rule: create_account_cases)
    case (created u d' a c)
    have f: "username u = rq_username q" "email u = Some (rq_email q)" "telegram_id u = None" "google_sub u = None"
      by (simp_all add: created(6) issue_token_def new_user_def)
    show ?thesis
      unfolding created(2) fst_conv
      by (rule accounts_ok_add [OF assms(2) created(3,4)]) (use created(5) f body(3) in auto)
  qed (use assms(2) in auto)
qed (use assms(2) in auto)

lemma verify_email_accounts_ok:
  assumes "verify_email K ip token now clk L d = (r, L', d')" and "accounts_ok d"
  shows "accounts_ok d'"
  using assms(1)
proof (cases rule: verify_email_cases)
  case (verified u x)
  have "u \<in> set (users d)" using filter_single [OF verified(2)] by blast
  then show ?thesis unfolding verified(5) by (rule accounts_ok_put [OF assms(2)]) simp_all
qed (use assms(2) in auto)

lemma reset_password_accounts_ok:
  assumes "reset_password K ip token pw now clk L d = (r, L', d')" and "accounts_ok d"
  shows "accounts_ok d'"
  using assms(1)
proof (cases rule: reset_password_cases)
  case (expired u x err)
  have "u \<in> set (users d)" using filter_single [OF expired(2)] by blast
  then show ?thesis unfolding expired(5) by (rule accounts_ok_put [OF assms(2)]) simp_all
next
  case (changed u x m)
  have "u \<in> set (users (close_all u d))" using filter_single [OF changed(2)] by simp
  moreover have "accounts_ok (close_all u d)" using assms(2) accounts_ok_users [of "close_all u d" d] by simp
  ultimately show ?thesis unfolding changed(6) by (intro accounts_ok_put) simp_all
qed (use assms(2) in auto)

lemma resend_verification_accounts_ok:
  assumes "resend_verification K e name ip tok now clk L s = (r, L', s')" and "accounts_ok (fst s)"
  shows "accounts_ok (fst s')"
  using assms(1)
proof (cases rule: resend_verification_cases)
  case (sent u)
  then show ?thesis
    using accounts_ok_put [OF assms(2), of u "issue_token K tok now u"] user_by_name_SomeD [of "fst s" name u]
    by (simp add: issue_token_def)
qed (use assms(2) in auto)

lemma forgot_password_accounts_ok:
  assumes "forgot_password K e email_str ip addr tok now clk L s = (r, L', s')" and "accounts_ok (fst s)"
  shows "accounts_ok (fst s')"
  using assms(1)
proof (cases rule: forgot_password_cases)
  case (sent u a)
  have "u \<in> set (users (fst s))" using filter_single [OF sent(2)] by blast
  then show ?thesis unfolding sent(3) fst_conv by (rule accounts_ok_put [OF assms(2)]) simp_all
qed (use assms(2) in auto)

lemma assign_peer_accounts_ok:
  assumes "assign_peer K token name peer_ip n now d = (r, d')" and "accounts_ok d"
  shows "accounts_ok d'"
proof -
  have "d' = d \<or> (\<exists>u t. user_by_name d name = Some u \<and>
      d' = put_user (u\<lparr>u_peer_ip := Some peer_ip, is_subscribed := True, subscribed_until := t\<rparr>) d)"
    using assms(1) unfolding assign_peer_def Let_def by (auto split: if_splits sum.splits option.splits)
  then show ?thesis
    using assms(2) accounts_ok_put [OF assms(2)] user_by_name_SomeD by fastforce
qed

subsection \<open>Lemmas: links work once\<close>

lemma verify_email_works:
  assumes "filter (\<lambda>u. email_verify_token u = Some (digest K tok)) (users d) = [u]" and "email_verify_expires u = Some x"
    and "t \<le> x" and "length tok \<le> 128" and "fst (limited VERIFY_PER_IP VERIFY_PER_IP_update ip clk L) = None"
  shows "verify_email K ip tok t clk L d =
    (Done (Inr ()), snd (limited VERIFY_PER_IP VERIFY_PER_IP_update ip clk L), put_user (mark_verified t u) d)"
proof -
  obtain L1 where "limited VERIFY_PER_IP VERIFY_PER_IP_update ip clk L = (None, L1)"
    using assms(5) by (metis prod.collapse)
  with assms show ?thesis by (simp add: verify_email_def)
qed

lemma verify_email_spent:
  assumes "\<forall>x\<in>set (users d). email_verify_token x \<noteq> Some (digest K tok)"
  shows "\<exists>err L'. verify_email K ip tok t clk L d = (Done (Inl err), L', d)"
proof -
  have "filter (\<lambda>u. email_verify_token u = Some (digest K tok)) (users d) = []"
    using assms by (simp add: filter_empty_conv)
  then show ?thesis by (auto simp: verify_email_def split: prod.splits option.splits)
qed

lemma reset_password_spent:
  assumes "\<forall>x\<in>set (users d). reset_token x \<noteq> Some (digest K tok)"
  shows "\<exists>err L'. reset_password K ip tok pw t clk L d = (Done (Inl err), L', d)"
proof -
  have "filter (\<lambda>u. reset_token u = Some (digest K tok)) (users d) = []"
    using assms by (simp add: filter_empty_conv)
  then show ?thesis by (auto simp: reset_password_def Let_def split: prod.splits option.splits)
qed

lemma use_session_owner:
  assumes "use_session K t now d = (Some v, d')"
  shows "sessions_of (u_id v) d \<noteq> []"
  using assms
proof (cases rule: use_session_cases)
  case (used row u)
  then have "row \<in> set (app_sessions d)" "as_user_id row = u_id v"
    by (auto simp: session_of_def dest: find_SomeD get_user_SomeD)
  then show ?thesis by (auto simp: sessions_of_def filter_empty_conv)
qed auto

subsection \<open>The properties\<close>

text \<open>
  C31: A registration that succeeds takes a name of the wrapper's alphabet that is not reserved
  and that no account has in any spelling, and adds exactly one account with the address in
  small letters, unconfirmed.  The link of its letter confirms the address within
  48 hours, and a second use of the same link is refused and changes nothing.  With one
  account per name and address and a new identifier, registration never breaks a constraint.
\<close>

theorem register_then_verify:
  assumes run: "register K e email_str ip req tok now clk L s = (r, L1, s1)" and ok: "accounts_ok (fst s)"
    and new: "fst (new_uuid (fst s)) \<notin> u_id ` set (users (fst s))"
    and tok: "\<forall>x\<in>set (users (fst s)). email_verify_token x \<noteq> Some (digest K tok)" "length tok \<le> 128"
    and t: "t \<le> now + hours 48" and lim: "fst (limited VERIFY_PER_IP VERIFY_PER_IP_update ip2 clk2 L2) = None"
  shows "r \<noteq> Raised \<and> (\<forall>a. r = Done (Inr a) \<longrightarrow>
    (\<exists>u L3 d3. users (fst s1) = users (fst s) @ [u] \<and> ur_id a = u_id u \<and> username u = rq_username req \<and>
       USERNAME_RE (username u) \<and> lower (username u) \<notin> set (RESERVED e) \<and>
       (\<forall>x\<in>set (users (fst s)). lower (username x) \<noteq> lower (username u) \<and> map_option lower (email x) \<noteq> email u) \<and>
       email_verified_at u = None \<and> letters (snd s1) = letters (snd s) @ [Welcome (the (email u)) (verify_url e tok)] \<and>
       verify_email K ip2 tok t clk2 L2 (fst s1) = (Done (Inr ()), L3, d3) \<and>
       users d3 = users (fst s) @ [mark_verified t u] \<and> email_verified_at (mark_verified t u) = Some t \<and>
       (\<forall>ip4 t4 clk4 L4. \<exists>err L5. verify_email K ip4 tok t4 clk4 L4 d3 = (Done (Inl err), L5, d3))))"
  using run
proof (cases rule: register_cases)
  case (ran q)
  note body = register_body_Some [OF ran(1)]
  from ran(2) show ?thesis
  proof (cases rule: create_account_cases)
    case raised
    have "\<not> 2 \<le> length (filter (\<lambda>u. lower (username u) = lower (rq_username q)) (users (fst s)))"
      "\<not> 2 \<le> length (filter (\<lambda>u. map_option lower (email u) = Some (rq_email q)) (users (fst s)))"
      using filter_name_le_1 [OF ok, of "lower (rq_username q)"] filter_email_le_1 [OF ok, of "rq_email q"] by linarith+
    with raised(3) obtain x where x: "x \<in> set (users (fst s))"
      "lower (username x) \<noteq> lower (rq_username q)" "map_option lower (email x) \<noteq> Some (rq_email q)"
      "u_id x = fst (new_uuid (fst s)) \<or> username x = rq_username q \<or> email x = Some (rq_email q)"
      by blast
    have "u_id x \<noteq> fst (new_uuid (fst s))" using x(1) new by (metis imageI)
    with x(2-4) have False using body(3) by auto
    then show ?thesis ..
  next
    case (created u d' a c)
    have f: "username u = rq_username q" "email u = Some (rq_email q)" "email_verified_at u = None"
      "email_verify_token u = Some (digest K tok)" "email_verify_expires u = Some (now + hours 48)"
      by (simp_all add: created(6) issue_token_def new_user_def VERIFY_TOKEN_TTL_def)
    have "filter (\<lambda>x. email_verify_token x = Some (digest K tok)) (users d') = [u]"
      using tok(1) f(4) by (simp add: created(3) filter_empty_conv)
    note once = verify_email_works [OF this f(5) t tok(2) lim]
    have us: "users (put_user (mark_verified t u) d') = users (fst s) @ [mark_verified t u]"
    proof -
      have "\<forall>x\<in>set (users (fst s)). u_id x \<noteq> u_id u" using created(4) by (metis imageI)
      then show ?thesis by (simp add: put_user_def update_where_def created(3) map_idI)
    qed
    then have "\<forall>x\<in>set (users (put_user (mark_verified t u) d')). email_verify_token x \<noteq> Some (digest K tok)"
      using tok(1) by auto
    note spent = verify_email_spent [OF this]
    have id: "ur_id a = u_id u" using created(7) by (auto simp: user_response_of_def)
    show ?thesis
    proof (intro conjI allI impI)
      fix b assume "r = Done (Inr b)"
      with created(1) have "b = a" by simp
      with once us spent id f body(1,2,4) created(2,3,5)
      show "\<exists>u L3 d3. users (fst s1) = users (fst s) @ [u] \<and> ur_id b = u_id u \<and> username u = rq_username req \<and>
         USERNAME_RE (username u) \<and> lower (username u) \<notin> set (RESERVED e) \<and>
         (\<forall>x\<in>set (users (fst s)). lower (username x) \<noteq> lower (username u) \<and> map_option lower (email x) \<noteq> email u) \<and>
         email_verified_at u = None \<and> letters (snd s1) = letters (snd s) @ [Welcome (the (email u)) (verify_url e tok)] \<and>
         verify_email K ip2 tok t clk2 L2 (fst s1) = (Done (Inr ()), L3, d3) \<and>
         users d3 = users (fst s) @ [mark_verified t u] \<and> email_verified_at (mark_verified t u) = Some t \<and>
         (\<forall>ip4 t4 clk4 L4. \<exists>err L5. verify_email K ip4 tok t4 clk4 L4 d3 = (Done (Inl err), L5, d3))"
        by (intro exI [of _ u] exI [of _ "put_user (mark_verified t u) d'"] exI) simp
    qed (use created(1) in simp)
  qed auto
qed auto

definition sample_request :: register_request where
  "sample_request = \<lparr>rq_username = ''Alice-1'', rq_email = ''Alice@Mail.ru'', rq_password = ''correct horse'',
     rq_lang = ''de'', rq_ref = Some ''nope''\<rparr>"

definition sample_members :: db where
  "sample_members = empty_db\<lparr>users := [(sample_user ''bob'')\<lparr>email := Some ''bob@mail.ru'', reset_token := Some ''#reset'',
     reset_expires := Some 100\<rparr>]\<rparr>"

theorem register_then_verify_witness:
  "\<exists>a L1 s1 u L3 d3. register sample_crypto (\<lambda>_. None) Some ''1.2.3.4'' sample_request ''tok'' 0 0 fresh_limits
       (sample_members, empty_outbox) = (Done (Inr a), L1, s1) \<and>
     verify_email sample_crypto ''5.6.7.8'' ''tok'' (hours 48) 0 fresh_limits (fst s1) = (Done (Inr ()), L3, d3) \<and>
     users d3 = users sample_members @ [mark_verified (hours 48) u] \<and> username u = ''Alice-1''"
proof -
  let ?run = "register sample_crypto (\<lambda>_. None) Some ''1.2.3.4'' sample_request ''tok'' 0 0 fresh_limits (sample_members, empty_outbox)"
  have "case fst ?run of Done (Inr a) \<Rightarrow> True | _ \<Rightarrow> False" by code_simp
  then obtain a where "fst ?run = Done (Inr a)" by (auto split: outcome.splits sum.splits)
  then obtain L1 s1 where run: "?run = (Done (Inr a), L1, s1)" by (metis prod.collapse)
  have h: "fst (new_uuid (fst (sample_members, empty_outbox))) \<notin> u_id ` set (users (fst (sample_members, empty_outbox)))"
    "\<forall>x\<in>set (users (fst (sample_members, empty_outbox))). email_verify_token x \<noteq> Some (digest sample_crypto ''tok'')"
    "accounts_ok (fst (sample_members, empty_outbox))"
    "fst (limited VERIFY_PER_IP VERIFY_PER_IP_update ''5.6.7.8'' 0 fresh_limits) = None"
    "rq_username sample_request = ''Alice-1''"
    by code_simp+
  from register_then_verify [OF run h(3) h(1,2) _ _ h(4), of "hours 48"] h(5)
  obtain u L3 d3 where "verify_email sample_crypto ''5.6.7.8'' ''tok'' (hours 48) 0 fresh_limits (fst s1) = (Done (Inr ()), L3, d3)"
    "users d3 = users sample_members @ [mark_verified (hours 48) u]" "username u = ''Alice-1''"
    by auto
  with run show ?thesis by blast
qed

text \<open>
  C32: A reset that succeeds was asked for with the token mailed to the account, before its
  end, with a password of eight characters or more; it changes that account alone, confirms
  its address, and closes all its sign-ins, so that no refresh token of the account works any
  more.  The same link never works again.
\<close>

theorem reset_closes_the_door:
  assumes run: "reset_password K ip tok pw now clk L d = (Done (Inr m), L', d')" and ids: "distinct (map u_id (users d))"
  shows "\<exists>u x. u \<in> set (users d) \<and> reset_token u = Some (digest K tok) \<and> reset_expires u = Some x \<and> now \<le> x \<and>
    8 \<le> length pw \<and> get_user d' (u_id u) = Some (with_password K pw now u) \<and>
    password_hash (with_password K pw now u) = pwd_hash K pw \<and> email_verified_at (with_password K pw now u) \<noteq> None \<and>
    (\<forall>i. i \<noteq> u_id u \<longrightarrow> get_user d' i = get_user d i \<and> sessions_of i d' = sessions_of i d) \<and>
    (\<forall>t now2 v d2. use_session K t now2 d' = (Some v, d2) \<longrightarrow> u_id v \<noteq> u_id u) \<and>
    (\<forall>ip2 pw2 now2 clk2 L2. \<exists>err L3. reset_password K ip2 tok pw2 now2 clk2 L2 d' = (Done (Inl err), L3, d'))"
  using run
proof (cases rule: reset_password_cases)
  case (changed u x n)
  note u = filter_single [OF changed(2)]
  let ?u = "with_password K pw now u"
  have get: "get_user d' i = (if i = u_id u then Some ?u else get_user d i)" for i
  proof -
    have "get_user (close_all u d) i = get_user d i" by (simp add: get_user_def)
    with u get_user_in_users [OF ids, of u] show ?thesis
      by (auto simp: changed(6) get_user_put_user split: option.splits)
  qed
  have ses: "sessions_of i d' = (if i = u_id u then [] else sessions_of i d)" for i
    unfolding changed(6) by (auto simp: sessions_of_def close_all_def delete_sessions_def intro: filter_cong)
  have "\<forall>y\<in>set (users d'). reset_token y \<noteq> Some (digest K tok)"
    unfolding changed(6) set_put_user using u by auto
  note spent = reset_password_spent [OF this]
  have "u_id v \<noteq> u_id u" if "use_session K t now2 d' = (Some v, d2)" for t now2 v d2
    using use_session_owner [OF that] ses [of "u_id v"] by auto
  with u changed(3-5) get ses spent show ?thesis by (intro exI [of _ u] exI [of _ x]) simp
qed auto

theorem reset_closes_the_door_witness:
  "\<exists>m L' d'. reset_password sample_crypto ''1.2.3.4'' ''reset'' ''new password'' 100 0 fresh_limits sample_members = (Done (Inr m), L', d') \<and>
     (\<exists>err L3. reset_password sample_crypto ''1.2.3.4'' ''reset'' ''other password'' 100 1 L' d' = (Done (Inl err), L3, d'))"
proof -
  let ?run = "reset_password sample_crypto ''1.2.3.4'' ''reset'' ''new password'' 100 0 fresh_limits sample_members"
  have "case fst ?run of Done (Inr a) \<Rightarrow> True | _ \<Rightarrow> False" by code_simp
  then obtain m where "fst ?run = Done (Inr m)" by (auto split: outcome.splits sum.splits)
  then obtain L' d' where run: "?run = (Done (Inr m), L', d')" by (metis prod.collapse)
  have "distinct (map u_id (users sample_members))" by code_simp
  from reset_closes_the_door [OF run this] run show ?thesis by blast
qed

text \<open>
  C33: What a request for a reset link answers, and what it leaves in the limiters, does not
  depend on who is registered: over two databases with one account per address, the same
  request gets the same reply.
\<close>

theorem forgot_says_nothing:
  assumes "accounts_ok d1" and "accounts_ok d2"
  shows "fst (forgot_password K e email_str ip addr tok now clk L (d1, out1)) =
           fst (forgot_password K e email_str ip addr tok now clk L (d2, out2)) \<and>
         fst (snd (forgot_password K e email_str ip addr tok now clk L (d1, out1))) =
           fst (snd (forgot_password K e email_str ip addr tok now clk L (d2, out2)))"
proof -
  have "one_or_none (filter (\<lambda>u. map_option lower (email u) = Some a) (users d)) \<noteq> Raised" if "accounts_ok d" for a d
    using filter_email_le_1 [OF that, of a] by simp
  with assms show ?thesis
    unfolding forgot_password_def Let_def
    by (auto split: option.splits prod.splits outcome.splits simp del: one_or_none_Raised)
qed

theorem forgot_says_nothing_witness:
  "accounts_ok sample_members \<and> accounts_ok empty_db \<and>
   fst (forgot_password sample_crypto (\<lambda>_. None) Some ''1.2.3.4'' ''bob@mail.ru'' ''t'' 0 0 fresh_limits (sample_members, empty_outbox)) =
   fst (forgot_password sample_crypto (\<lambda>_. None) Some ''1.2.3.4'' ''bob@mail.ru'' ''t'' 0 0 fresh_limits (empty_db, empty_outbox))"
proof -
  have "accounts_ok sample_members" "accounts_ok empty_db" by code_simp+
  with forgot_says_nothing [OF this] show ?thesis by blast
qed

end
