(* ===== verification/Signin.thy ===== *)
theory Signin
  imports Accounts Json "HOL-Library.List_Lexorder" "HOL-Library.Char_ord"
begin

section \<open>Google and Telegram (\<open>pwa/api/google_auth.py\<close>, the account side of \<open>pwa/api/telegram.py\<close>)\<close>

text \<open>
  Signing in with a Google account, tying a Telegram chat to an account, and the accounts that
  are opened from either.  Parameters stand for what is not in the repository: \<open>jwt\<close> is
  \<open>jose.jwt.decode\<close> with \<open>RS256\<close> (token, key set, audience, the clock; \<open>None\<close> where it raises),
  \<open>fetched\<close> the key set Google's address answers with (\<open>None\<close> for a failed request), \<open>hmac\<close>
  HMAC-SHA256 (key, message; the digest's bytes) and \<open>loads\<close> the JSON decoder.  A random
  password is the argument \<open>rnd\<close>.  Text is held as its UTF-8 bytes.
\<close>

subsection \<open>Google's keys and tokens\<close>

definition GOOGLE_CLIENT_ID :: "env \<Rightarrow> string" where
  "GOOGLE_CLIENT_ID e = strip (getenv e ''GOOGLE_CLIENT_ID'' [])"

definition ISSUERS :: "string list" where
  "ISSUERS = [''accounts.google.com'', ''https://accounts.google.com'']"

definition KEYS_TTL :: timedelta where
  "KEYS_TTL = seconds (6 * 3600)"

text \<open>The module's \<open>_keys\<close>.\<close>

record google_keys_cache =
  gk_at :: datetime
  gk_jwks :: json

definition no_keys :: google_keys_cache where
  "no_keys = \<lparr>gk_at = 0, gk_jwks = JNull\<rparr>"

definition google_keys :: "json option \<Rightarrow> datetime \<Rightarrow> google_keys_cache \<Rightarrow> json option \<times> google_keys_cache" where
  "google_keys fetched now c =
     (if truthy (gk_jwks c) \<and> now - gk_at c < KEYS_TTL then (Some (gk_jwks c), c)
      else case fetched of
             None \<Rightarrow> (None, c)
           | Some keys \<Rightarrow> (Some keys, \<lparr>gk_at = now, gk_jwks = keys\<rparr>))"

type_synonym jwt_decoder = "string \<Rightarrow> json \<Rightarrow> string \<Rightarrow> datetime \<Rightarrow> (string \<times> json) list option"

text \<open>\<open>claims.get("email_verified") in (True, "true")\<close>; Python's 1 and 1.0 equal \<open>True\<close>.\<close>

definition says_verified :: "json \<Rightarrow> bool" where
  "says_verified v =
     (case v of JBool b \<Rightarrow> b | JStr s \<Rightarrow> s = ''true'' | JInt n \<Rightarrow> n = 1 | JFloat r _ \<Rightarrow> r = ''1.0'' | _ \<Rightarrow> False)"

definition verify_id_token ::
  "jwt_decoder \<Rightarrow> env \<Rightarrow> json option \<Rightarrow> string \<Rightarrow> datetime \<Rightarrow> google_keys_cache \<Rightarrow>
   (string \<times> json) list option \<times> google_keys_cache"
where
  "verify_id_token jwt e fetched credential now c =
     (if GOOGLE_CLIENT_ID e = [] \<or> credential = [] \<or> length credential > 4096 then (None, c)
      else
        case google_keys fetched now c of
          (None, c1) \<Rightarrow> (None, c1)
        | (Some keys, c1) \<Rightarrow>
            (case jwt credential keys (GOOGLE_CLIENT_ID e) now of
               None \<Rightarrow> (None, c1)
             | Some claims \<Rightarrow>
                 if dict_get claims ''iss'' \<notin> set (map JStr ISSUERS) \<or> \<not> truthy (dict_get claims ''sub'') then (None, c1)
                 else if \<not> truthy (dict_get claims ''email'') \<or> \<not> says_verified (dict_get claims ''email_verified'')
                   then (None, c1)
                 else (Some claims, c1)))"

record google_in =
  gi_credential :: string
  gi_remember :: bool
  gi_username :: "string option"
  gi_ref :: "string option"

definition auth_options :: "env \<Rightarrow> string option" where
  "auth_options e = (if GOOGLE_CLIENT_ID e = [] then None else Some (GOOGLE_CLIENT_ID e))"

text \<open>The answer is the token response and the account's name.\<close>

definition signed_in ::
  "crypto \<Rightarrow> env \<Rightarrow> user \<Rightarrow> bool \<Rightarrow> string \<Rightarrow> datetime \<Rightarrow> db \<Rightarrow> (token_response \<times> string) \<times> db"
where
  "signed_in K e u remember tok now d =
     ((\<lparr>access_token = create_token K e (username u) ''client'' now, tr_role = ''client'',
        refresh_token = (if remember then Some tok else None)\<rparr>, username u),
      if remember then open_session K u tok now d else d)"

definition suggest :: "string \<Rightarrow> string" where
  "suggest addr =
     (let base = take 27 (filter name_char (before CHR ''@'' addr))
      in if length base \<ge> 3 then base else [])"

text \<open>\<open>User(id="-")\<close>: the buyer a referral code is tried for before the account exists.\<close>

definition nobody :: user where
  "nobody = new_user ''-'' [] None [] ''ru'' 0"

text \<open>The part that opens an account: the name asked for, the row, the sign-in.\<close>

definition google_register ::
  "crypto \<Rightarrow> env \<Rightarrow> google_in \<Rightarrow> string \<Rightarrow> string \<Rightarrow> string \<Rightarrow> string \<Rightarrow> datetime \<Rightarrow> db \<Rightarrow> (token_response \<times> string) reply \<times> db"
where
  "google_register K e body gsub mail rnd tok now d =
     (let name = strip (the (gi_username body)) in
      if \<not> USERNAME_RE name then (Done (Inl (http 422 ''bad_username'')), d)
      else if list_ex (\<lambda>u. lower (username u) = lower name) (users d)
        then (Done (Inl (http 409 ''username_taken'')), d)
      else
        let (i, d1) = new_uuid d;
            u = (new_user i name (Some mail) (pwd_hash K rnd) ''ru'' now)
                  \<lparr>email_verified_at := Some now, google_sub := Some gsub,
                   referred_code := referred_by d (gi_ref body) nobody now\<rparr>
        in case add_user u d1 of
             Raised \<Rightarrow> (Raised, d)
           | Done d2 \<Rightarrow> (case signed_in K e u (gi_remember body) tok now d2 of (a, d3) \<Rightarrow> (Done (Inr a), d3)))"

text \<open>Whom the claims name: an account, nobody yet, or an address that is not confirmed.\<close>

datatype google_account = Known user | Unknown | Unconfirmed

definition google_match ::
  "string \<Rightarrow> string \<Rightarrow> db \<Rightarrow> google_account outcome"
where
  "google_match gsub mail d =
     (case List.find (\<lambda>u. google_sub u = Some gsub) (users d) of
        Some u \<Rightarrow> Done (Known u)
      | None \<Rightarrow>
          (case one_or_none (filter (\<lambda>u. map_option lower (email u) = Some mail) (users d)) of
             Raised \<Rightarrow> Raised
           | Done None \<Rightarrow> Done Unknown
           | Done (Some same) \<Rightarrow>
               if email_verified_at same = None then Done Unconfirmed
               else Done (Known (if google_sub same = None then same\<lparr>google_sub := Some gsub\<rparr> else same))))"

definition google_sign_in ::
  "jwt_decoder \<Rightarrow> crypto \<Rightarrow> env \<Rightarrow> json option \<Rightarrow> string \<Rightarrow> google_in \<Rightarrow> string \<Rightarrow> string \<Rightarrow> datetime \<Rightarrow> int \<Rightarrow>
   google_keys_cache \<Rightarrow> limits \<Rightarrow> db \<Rightarrow> (token_response \<times> string) reply \<times> google_keys_cache \<times> limits \<times> db"
where
  "google_sign_in jwt K e fetched ip body rnd tok now clk c L d =
     (if length (gi_credential body) > 4096 \<or> (case gi_username body of None \<Rightarrow> False | Some n \<Rightarrow> length n > 27) \<or>
         (case gi_ref body of None \<Rightarrow> False | Some r \<Rightarrow> length r > 64)
      then (Done (Inl (http 422 ''string_too_long'')), c, L, d)
      else
        let (over, L1) = limited LOGIN_PER_IP LOGIN_PER_IP_update ip clk L in
        case over of
          Some err \<Rightarrow> (Done (Inl err), c, L1, d)
        | None \<Rightarrow>
            if GOOGLE_CLIENT_ID e = [] then (Done (Inl (http 503 ''google_off'')), c, L1, d)
            else
              (case verify_id_token jwt e fetched (gi_credential body) now c of
                 (None, c1) \<Rightarrow> (Done (Inl (http 401 ''bad_google_token'')), c1, L1, d)
               | (Some claims, c1) \<Rightarrow>
                   let gsub = json_str (dict_get claims ''sub'');
                       mail = lower (strip (json_str (dict_get claims ''email'')))
                   in case google_match gsub mail d of
                        Raised \<Rightarrow> (Raised, c1, L1, d)
                      | Done Unconfirmed \<Rightarrow> (Done (Inl (http 409 ''email_unconfirmed'')), c1, L1, d)
                      | Done (Known u) \<Rightarrow>
                          if \<not> u_is_active u then (Done (Inl (http 403 ''Account disabled'')), c1, L1, d)
                          else (case signed_in K e u (gi_remember body) tok now (put_user u d) of
                                  (a, d1) \<Rightarrow> (Done (Inr a), c1, L1, d1))
                      | Done Unknown \<Rightarrow>
                          if \<not> given (gi_username body)
                          then (Done (Inl \<lparr>status_code = 404, http_detail = NeedUsername (suggest mail)\<rparr>), c1, L1, d)
                          else
                            (case limited REGISTER_PER_IP REGISTER_PER_IP_update ip clk L1 of
                               (Some err, L2) \<Rightarrow> (Done (Inl err), c1, L2, d)
                             | (None, L2) \<Rightarrow>
                                 (case google_register K e body gsub mail rnd tok now d of
                                    (r, d1) \<Rightarrow> (r, c1, L2, d1)))))"

subsection \<open>Linking a chat\<close>

definition LINK_TTL :: timedelta where
  "LINK_TTL = minutes 15"

definition TG_BOT_USERNAME :: "env \<Rightarrow> string" where
  "TG_BOT_USERNAME e = dropWhile (\<lambda>c. c = CHR ''@'') (getenv e ''TG_BOT_USERNAME'' [])"

definition user_by_chat :: "db \<Rightarrow> int \<Rightarrow> user option" where
  "user_by_chat d chat = List.find (\<lambda>u. telegram_id u = Some chat) (users d)"

record tg_state_answer =
  tg_is_enabled :: bool
  tg_is_linked :: bool
  tg_bot :: "string option"

definition tg_state :: "env \<Rightarrow> string \<Rightarrow> db \<Rightarrow> http_error + tg_state_answer" where
  "tg_state e name d =
     (case user_by_name d name of
        None \<Rightarrow> Inl (http 404 ''User not found'')
      | Some u \<Rightarrow> Inr \<lparr>tg_is_enabled = (tg_enabled e \<and> TG_BOT_USERNAME e \<noteq> []), tg_is_linked = (telegram_id u \<noteq> None),
                        tg_bot = (if TG_BOT_USERNAME e = [] then None else Some (TG_BOT_USERNAME e))\<rparr>)"

text \<open>The answer is the link.\<close>

definition tg_link :: "crypto \<Rightarrow> env \<Rightarrow> string \<Rightarrow> string \<Rightarrow> datetime \<Rightarrow> db \<Rightarrow> (http_error + string) \<times> db" where
  "tg_link K e name tok now d =
     (if \<not> (tg_enabled e \<and> TG_BOT_USERNAME e \<noteq> []) then (Inl (http 503 ''bot is off''), d)
      else
        case user_by_name d name of
          None \<Rightarrow> (Inl (http 404 ''User not found''), d)
        | Some u \<Rightarrow>
            (Inr (''https://t.me/'' @ TG_BOT_USERNAME e @ ''?start='' @ tok),
             put_user (u\<lparr>telegram_link_hash := Some (digest K tok), telegram_link_expires := Some (now + LINK_TTL)\<rparr>) d))"

text \<open>The chat is told at once; a chat id 0 counts as none.\<close>

definition tg_unlink :: "env \<Rightarrow> string \<Rightarrow> session \<Rightarrow> (http_error + unit) \<times> session" where
  "tg_unlink e name s =
     (case user_by_name (fst s) name of
        None \<Rightarrow> (Inl (http 404 ''User not found''), s)
      | Some u \<Rightarrow>
          (Inr (), put_user (u\<lparr>telegram_id := None, telegram_link_hash := None\<rparr>) (fst s),
           tg_send_later e (telegram_id u) (Template ''tg_unlinked'' ''ru'' []) None (snd s)))"

text \<open>A chat that is tied to another account leaves it first.\<close>

definition leave_other :: "int \<Rightarrow> user \<Rightarrow> db \<Rightarrow> db" where
  "leave_other chat u d =
     (case user_by_chat d chat of
        None \<Rightarrow> d
      | Some v \<Rightarrow> if u_id v \<noteq> u_id u then put_user (v\<lparr>telegram_id := None\<rparr>) d else d)"

datatype link_answer = LinkStale | LinkDone string

definition link_chat :: "crypto \<Rightarrow> int \<Rightarrow> string \<Rightarrow> datetime \<Rightarrow> db \<Rightarrow> link_answer outcome \<times> db" where
  "link_chat K chat token now d =
     (case one_or_none (filter (\<lambda>u. telegram_link_hash u = Some (digest K token)) (users d)) of
        Raised \<Rightarrow> (Raised, d)
      | Done None \<Rightarrow> (Done LinkStale, d)
      | Done (Some u) \<Rightarrow>
          (case telegram_link_expires u of
             None \<Rightarrow> (Done LinkStale, d)
           | Some x \<Rightarrow>
               if x < now then (Done LinkStale, d)
               else (Done (LinkDone (username u)),
                     put_user (u\<lparr>telegram_id := Some chat, telegram_link_hash := None, telegram_link_expires := None\<rparr>)
                       (leave_other chat u d))))"

subsection \<open>The Mini App\<close>

definition INIT_DATA_MAX_AGE :: int where
  "INIT_DATA_MAX_AGE = 24 * 3600"

text \<open>\<open>urllib.parse\<close>: \<open>unquote\<close> and \<open>parse_qsl(keep_blank_values=True, strict_parsing=True)\<close>.\<close>

definition hex_value :: "char \<Rightarrow> nat option" where
  "hex_value c =
     (let n = (of_char c :: nat) in
      if is_digit c then Some (n - 48)
      else if 97 \<le> n \<and> n \<le> 102 then Some (n - 87)
      else if 65 \<le> n \<and> n \<le> 70 then Some (n - 55) else None)"

fun unquote :: "string \<Rightarrow> string" where
  "unquote (c # a # b # s) =
     (case (hex_value a, hex_value b) of
        (Some x, Some y) \<Rightarrow> if c = CHR ''%'' then char_of (16 * x + y) # unquote s else c # unquote (a # b # s)
      | _ \<Rightarrow> c # unquote (a # b # s))"
| "unquote s = s"

definition unquote_plus :: "string \<Rightarrow> string" where
  "unquote_plus s = unquote (map (\<lambda>c. if c = CHR ''+'' then CHR '' '' else c) s)"

definition parse_qsl :: "string \<Rightarrow> (string \<times> string) list option" where
  "parse_qsl qs =
     those (map (\<lambda>nv. if CHR ''='' \<in> set nv
                      then Some (unquote_plus (before CHR ''='' nv), unquote_plus (after CHR ''='' nv)) else None)
              (split_on CHR ''&'' qs))"

definition hexdigest :: "string \<Rightarrow> string" where
  "hexdigest s = concat (map (\<lambda>c. let n = (of_char c :: nat) in [hex_digit (n div 16), hex_digit n]) s)"

text \<open>The lines that are signed: every pair but the hash, in the order of their names.\<close>

definition check_string :: "(string \<times> string) list \<Rightarrow> string" where
  "check_string pairs =
     join [CHR 0x0A] (map (\<lambda>k. k @ ''='' @ the (map_of (rev pairs) k))
       (sort (remdups (filter (\<lambda>k. k \<noteq> ''hash'') (map fst pairs)))))"

definition init_hash :: "(string \<Rightarrow> string \<Rightarrow> string) \<Rightarrow> string \<Rightarrow> (string \<times> string) list \<Rightarrow> string" where
  "init_hash hmac bot_token pairs = hexdigest (hmac (hmac ''WebAppData'' bot_token) (check_string pairs))"

text \<open>\<open>hmac.compare_digest\<close> takes ASCII text only: other text raises.\<close>

definition verify_init_data ::
  "(string \<Rightarrow> string \<Rightarrow> string) \<Rightarrow> loads \<Rightarrow> string \<Rightarrow> string \<Rightarrow> datetime \<Rightarrow> (string \<times> json) list option outcome"
where
  "verify_init_data hmac loads init_data bot_token now =
     (case parse_qsl init_data of
        None \<Rightarrow> Done None
      | Some pairs \<Rightarrow>
          let get = (\<lambda>k dflt. case map_of (rev pairs) k of None \<Rightarrow> dflt | Some v \<Rightarrow> v);
              got = get ''hash'' []
          in if got = [] \<or> bot_token = [] then Done None
             else if list_ex (\<lambda>c. (of_char c :: nat) \<ge> 128) got then Raised
             else if init_hash hmac bot_token pairs \<noteq> got then Done None
             else
               case (py_int (get ''auth_date'' ''0''), loads (get ''user'' ''{}'')) of
                 (Some at, Some (JObj u)) \<Rightarrow>
                   if now - seconds at > seconds INIT_DATA_MAX_AGE then Done None
                   else (case dict_get u ''id'' of JInt _ \<Rightarrow> Done (Some u) | JBool _ \<Rightarrow> Done (Some u) | _ \<Rightarrow> Done None)
               | _ \<Rightarrow> Done None)"

definition tg_uid :: "(string \<times> json) list \<Rightarrow> int" where
  "tg_uid u = the (json_int (dict_get u ''id''))"

abbreviation BOT_TOKEN :: "env \<Rightarrow> string" where
  "BOT_TOKEN e \<equiv> getenv e ''TG_BOT_TOKEN'' []"

definition tg_login ::
  "(string \<Rightarrow> string \<Rightarrow> string) \<Rightarrow> loads \<Rightarrow> crypto \<Rightarrow> env \<Rightarrow> string \<Rightarrow> string \<Rightarrow> datetime \<Rightarrow> int \<Rightarrow> limits \<Rightarrow> db \<Rightarrow>
   (string \<times> string) reply \<times> limits"
where
  "tg_login hmac loads K e ip init_data now clk L d =
     (if init_data = [] \<or> length init_data > 4096 then (Done (Inl (http 422 ''string_length'')), L)
      else
        let (over, L1) = limited LOGIN_PER_IP LOGIN_PER_IP_update ip clk L in
        case over of
          Some err \<Rightarrow> (Done (Inl err), L1)
        | None \<Rightarrow>
            if \<not> tg_enabled e then (Done (Inl (http 503 ''bot is off'')), L1)
            else
              (case verify_init_data hmac loads init_data (BOT_TOKEN e) now of
                 Raised \<Rightarrow> (Raised, L1)
               | Done None \<Rightarrow> (Done (Inl (http 401 ''bad init data'')), L1)
               | Done (Some t) \<Rightarrow>
                   (case user_by_chat d (tg_uid t) of
                      None \<Rightarrow> (Done (Inl (http 404 ''not_linked'')), L1)
                    | Some u \<Rightarrow>
                        if \<not> u_is_active u then (Done (Inl (http 403 ''Account disabled'')), L1)
                        else (Done (Inr (create_token K e (username u) ''client'' now, username u)), L1))))"

definition tg_link_webapp ::
  "(string \<Rightarrow> string \<Rightarrow> string) \<Rightarrow> loads \<Rightarrow> env \<Rightarrow> string \<Rightarrow> string \<Rightarrow> datetime \<Rightarrow> db \<Rightarrow> unit reply \<times> db"
where
  "tg_link_webapp hmac loads e name init_data now d =
     (if init_data = [] \<or> length init_data > 4096 then (Done (Inl (http 422 ''string_length'')), d)
      else
        case verify_init_data hmac loads init_data (BOT_TOKEN e) now of
          Raised \<Rightarrow> (Raised, d)
        | Done None \<Rightarrow> (Done (Inl (http 401 ''bad init data'')), d)
        | Done (Some t) \<Rightarrow>
            (case user_by_name d name of
               None \<Rightarrow> (Done (Inl (http 404 ''User not found'')), d)
             | Some u \<Rightarrow>
                 (Done (Inr ()), put_user (u\<lparr>telegram_id := Some (tg_uid t), telegram_link_hash := None\<rparr>)
                            (leave_other (tg_uid t) u d))))"

record tg_register_request =
  tr_init_data :: string
  tr_username :: string
  tr_ref :: "string option"

text \<open>The part after the signature is accepted.\<close>

definition tg_create ::
  "crypto \<Rightarrow> env \<Rightarrow> tg_register_request \<Rightarrow> int \<Rightarrow> string \<Rightarrow> datetime \<Rightarrow> db \<Rightarrow> (string \<times> string) reply \<times> db"
where
  "tg_create K e body chat rnd now d =
     (if user_by_chat d chat \<noteq> None then (Done (Inl (http 409 ''already_linked'')), d)
      else
        let name = strip (tr_username body) in
        if \<not> USERNAME_RE name then (Done (Inl (http 422 ''bad_username'')), d)
        else if list_ex (\<lambda>u. lower (username u) = lower name) (users d)
          then (Done (Inl (http 409 ''username_taken'')), d)
        else
          let (i, d1) = new_uuid d;
              u = (new_user i name None (pwd_hash K rnd) ''ru'' now)
                    \<lparr>telegram_id := Some chat, referred_code := referred_by d (tr_ref body) nobody now\<rparr>
          in case add_user u d1 of
               Raised \<Rightarrow> (Raised, d)
             | Done d2 \<Rightarrow> (Done (Inr (create_token K e name ''client'' now, name)), d2))"

definition tg_register ::
  "(string \<Rightarrow> string \<Rightarrow> string) \<Rightarrow> loads \<Rightarrow> crypto \<Rightarrow> env \<Rightarrow> string \<Rightarrow> tg_register_request \<Rightarrow> string \<Rightarrow> datetime \<Rightarrow> int \<Rightarrow>
   limits \<Rightarrow> db \<Rightarrow> (string \<times> string) reply \<times> limits \<times> db"
where
  "tg_register hmac loads K e ip body rnd now clk L d =
     (if tr_init_data body = [] \<or> length (tr_init_data body) > 4096 \<or> length (tr_username body) < 3 \<or>
         length (tr_username body) > 27 \<or> (case tr_ref body of None \<Rightarrow> False | Some r \<Rightarrow> length r > 32)
      then (Done (Inl (http 422 ''string_length'')), L, d)
      else
        let (over, L1) = limited REGISTER_PER_IP REGISTER_PER_IP_update ip clk L in
        case over of
          Some err \<Rightarrow> (Done (Inl err), L1, d)
        | None \<Rightarrow>
            if \<not> tg_enabled e then (Done (Inl (http 503 ''bot is off'')), L1, d)
            else
              (case verify_init_data hmac loads (tr_init_data body) (BOT_TOKEN e) now of
                 Raised \<Rightarrow> (Raised, L1, d)
               | Done None \<Rightarrow> (Done (Inl (http 401 ''bad init data'')), L1, d)
               | Done (Some t) \<Rightarrow>
                   (case tg_create K e body (tg_uid t) rnd now d of (r, d1) \<Rightarrow> (r, L1, d1))))"

subsection \<open>Lemmas\<close>

lemma unique_on_update:
  assumes "distinct (map i rows)" and "unique_on k rows"
    and "\<And>x. x \<in> set rows \<Longrightarrow> i x \<noteq> i u \<Longrightarrow> k u \<noteq> None \<Longrightarrow> k x \<noteq> k u"
  shows "unique_on k (update_where (\<lambda>x. i x = i u) (\<lambda>_. u) rows)"
proof -
  have other: "update_where (\<lambda>x. i x = i u) (\<lambda>_. u) xs = xs" if "i u \<notin> i ` set xs" for xs
  proof -
    have "i x \<noteq> i u" if "x \<in> set xs" for x using that \<open>i u \<notin> i ` set xs\<close> by (metis imageI)
    then show ?thesis unfolding update_where_def by (intro map_idI) simp
  qed
  have in_mf: "v \<in> set (List.map_filter k xs) \<longleftrightarrow> (\<exists>x\<in>set xs. k x = Some v)" for v xs
    by (force simp: List.map_filter_def)
  show ?thesis
    using assms
  proof (induction rows)
    case (Cons r rows)
    have tail: "unique_on k rows" using Cons.prems(2) by (auto simp: unique_on_def List.map_filter_simps split: option.splits)
    show ?case
    proof (cases "i r = i u")
      case True
      then have "i u \<notin> i ` set rows" using Cons.prems(1) by simp
      moreover have "\<forall>x\<in>set rows. k u \<noteq> None \<longrightarrow> k x \<noteq> k u"
        using Cons.prems(1,3) True by (metis image_eqI list.set_intros(2) calculation)
      ultimately show ?thesis
        using True tail other [of rows]
        by (auto simp: update_where_def unique_on_def List.map_filter_simps in_mf split: option.splits)
    next
      case False
      have "unique_on k (update_where (\<lambda>x. i x = i u) (\<lambda>_. u) rows)"
        by (rule Cons.IH) (use Cons.prems tail in auto)
      moreover have "k x \<noteq> Some v" if "x \<in> set (update_where (\<lambda>x. i x = i u) (\<lambda>_. u) rows)" "k r = Some v" for x v
      proof -
        have "x \<in> set rows \<or> x = u" using that(1) by (auto simp: update_where_def)
        then show ?thesis
        proof
          assume "x \<in> set rows"
          then show ?thesis using Cons.prems(2) that(2) by (auto simp: unique_on_def List.map_filter_simps in_mf)
        next
          assume "x = u"
          then show ?thesis using Cons.prems(3) [of r] False that(2) by auto
        qed
      qed
      ultimately show ?thesis
        using False by (auto simp: update_where_def unique_on_def List.map_filter_simps in_mf split: option.splits)
    qed
  qed (simp add: update_where_def unique_on_def)
qed

lemma accounts_ok_change:
  assumes ok: "accounts_ok d" and u: "u \<in> set (users d)" "u_id u' = u_id u" "username u' = username u" "email u' = email u"
    and tg: "\<And>x. x \<in> set (users d) \<Longrightarrow> u_id x \<noteq> u_id u \<Longrightarrow> telegram_id u' \<noteq> None \<Longrightarrow> telegram_id x \<noteq> telegram_id u'"
    and gs: "\<And>x. x \<in> set (users d) \<Longrightarrow> u_id x \<noteq> u_id u \<Longrightarrow> google_sub u' \<noteq> None \<Longrightarrow> google_sub x \<noteq> google_sub u'"
  shows "accounts_ok (put_user u' d)"
proof -
  have ids: "distinct (map u_id (users d))" using ok by (simp add: accounts_ok_def)
  note same = map_put_user [OF ids u(1,2)]
  have "unique_on telegram_id (users (put_user u' d))" "unique_on google_sub (users (put_user u' d))"
    using ok tg gs unfolding accounts_ok_def put_user_def
    by (auto intro!: unique_on_update simp flip: u(2))
  moreover have "unique_on (\<lambda>u. map_option lower (email u)) (users (put_user u' d))"
    using ok unfolding accounts_ok_def unique_on_map [of "\<lambda>u. map_option lower (email u)"]
    by (subst same) (simp_all add: u(4))
  ultimately show ?thesis
    using ok unfolding accounts_ok_def by (simp add: same [of "\<lambda>u. lower (username u)"] u(3))
qed

lemma user_by_chat_SomeD: "user_by_chat d c = Some u \<Longrightarrow> u \<in> set (users d) \<and> telegram_id u = Some c"
  by (auto simp: user_by_chat_def dest: find_SomeD)

lemma user_by_chat_None: "user_by_chat d c = None \<longleftrightarrow> (\<forall>x\<in>set (users d). telegram_id x \<noteq> Some c)"
  by (auto simp: user_by_chat_def find_None_iff)

text \<open>After \<open>leave_other\<close> only the account itself may hold the chat.\<close>

lemma leave_other_spec:
  assumes "accounts_ok d" and "u \<in> set (users d)"
  shows "accounts_ok (leave_other c u d)" and "u \<in> set (users (leave_other c u d))"
    and "\<forall>x\<in>set (users (leave_other c u d)). u_id x \<noteq> u_id u \<longrightarrow> telegram_id x \<noteq> Some c"
    and "\<forall>x\<in>set (users (leave_other c u d)). \<exists>y\<in>set (users d). telegram_link_hash x = telegram_link_hash y \<and> u_id x = u_id y"
proof -
  have "accounts_ok (leave_other c u d) \<and> u \<in> set (users (leave_other c u d)) \<and>
    (\<forall>x\<in>set (users (leave_other c u d)). u_id x \<noteq> u_id u \<longrightarrow> telegram_id x \<noteq> Some c) \<and>
    (\<forall>x\<in>set (users (leave_other c u d)). \<exists>y\<in>set (users d). telegram_link_hash x = telegram_link_hash y \<and> u_id x = u_id y)"
  proof (cases "user_by_chat d c")
    case None
    then have "leave_other c u d = d" by (simp add: leave_other_def)
    with None assms show ?thesis by (auto simp: user_by_chat_None)
  next
    case (Some v)
    note v = user_by_chat_SomeD [OF Some]
    have one: "x = v" if "x \<in> set (users d)" "telegram_id x = Some c" for x
      using unique_on_eqD [of telegram_id "users d" x v c] that v assms(1) by (auto simp: accounts_ok_def)
    show ?thesis
    proof (cases "u_id v = u_id u")
      case True
      with Some one assms show ?thesis by (auto simp: leave_other_def)
    next
      case False
      have "accounts_ok (put_user (v\<lparr>telegram_id := None\<rparr>) d)"
        by (rule accounts_ok_change [OF assms(1), of v]) (use v assms(1) in \<open>auto simp: accounts_ok_def dest: unique_on_eqD\<close>)
      moreover have "leave_other c u d = put_user (v\<lparr>telegram_id := None\<rparr>) d" using Some False by (simp add: leave_other_def)
      moreover have "telegram_id x \<noteq> Some c" if "x \<in> set (users (put_user (v\<lparr>telegram_id := None\<rparr>) d))" for x
      proof
        assume c: "telegram_id x = Some c"
        with that have "x \<in> set (users d)" "u_id x \<noteq> u_id v" by (auto simp: set_put_user)
        with one [OF this(1) c] show False by simp
      qed
      moreover have "\<exists>y\<in>set (users d). telegram_link_hash x = telegram_link_hash y \<and> u_id x = u_id y"
        if "x \<in> set (users (put_user (v\<lparr>telegram_id := None\<rparr>) d))" for x
        using that v by (auto simp: set_put_user)
      moreover have "u \<in> set (users (put_user (v\<lparr>telegram_id := None\<rparr>) d))"
        using assms(2) False by (auto simp: set_put_user)
      ultimately show ?thesis by simp
    qed
  qed
  then show "accounts_ok (leave_other c u d)" "u \<in> set (users (leave_other c u d))"
    "\<forall>x\<in>set (users (leave_other c u d)). u_id x \<noteq> u_id u \<longrightarrow> telegram_id x \<noteq> Some c"
    "\<forall>x\<in>set (users (leave_other c u d)). \<exists>y\<in>set (users d). telegram_link_hash x = telegram_link_hash y \<and> u_id x = u_id y"
    by blast+
qed

definition with_chat :: "user \<Rightarrow> int \<Rightarrow> user \<Rightarrow> bool" where
  "with_chat u c u' =
     (u_id u' = u_id u \<and> username u' = username u \<and> email u' = email u \<and> google_sub u' = google_sub u \<and>
      telegram_id u' = Some c \<and> telegram_link_hash u' = None)"

lemma take_chat:
  assumes "accounts_ok d" and "u \<in> set (users d)" and "with_chat u c u'"
  shows "accounts_ok (put_user u' (leave_other c u d))" and "user_by_chat (put_user u' (leave_other c u d)) c = Some u'"
    and "\<forall>x\<in>set (users (put_user u' (leave_other c u d))). telegram_id x = Some c \<longrightarrow> x = u'"
    and "\<forall>x\<in>set (users (put_user u' (leave_other c u d))). u_id x \<noteq> u_id u \<longrightarrow>
           (\<exists>y\<in>set (users d). telegram_link_hash x = telegram_link_hash y \<and> u_id x = u_id y)"
proof -
  let ?d = "leave_other c u d"
  note l = leave_other_spec [OF assms(1,2), of c]
  note w = assms(3) [unfolded with_chat_def]
  have g: "google_sub x \<noteq> google_sub u'" if "x \<in> set (users ?d)" "u_id x \<noteq> u_id u" "google_sub u' \<noteq> None" for x
    using unique_on_eqD [of google_sub "users ?d" x u] l(1,2) that w by (auto simp: accounts_ok_def)
  show "accounts_ok (put_user u' ?d)"
    by (rule accounts_ok_change [OF l(1,2)]) (use w l(3) g in auto)
  show only: "\<forall>x\<in>set (users (put_user u' ?d)). telegram_id x = Some c \<longrightarrow> x = u'"
    using l(3) w by (auto simp: set_put_user)
  have "u' \<in> set (users (put_user u' ?d))" using in_users_put_user [OF l(2), of u'] w by simp
  then have "user_by_chat (put_user u' ?d) c \<noteq> None" using w by (auto simp: user_by_chat_None)
  then show "user_by_chat (put_user u' ?d) c = Some u'" using only user_by_chat_SomeD by fastforce
  show "\<forall>x\<in>set (users (put_user u' ?d)). u_id x \<noteq> u_id u \<longrightarrow>
      (\<exists>y\<in>set (users d). telegram_link_hash x = telegram_link_hash y \<and> u_id x = u_id y)"
    using l(4) w by (auto simp: set_put_user)
qed

lemma link_chat_cases:
  assumes "link_chat K c token now d = (r, d')"
  obtains (same) "d' = d" "\<forall>n. r \<noteq> Done (LinkDone n)"
  | (linked) u x where "r = Done (LinkDone (username u))"
      "filter (\<lambda>u. telegram_link_hash u = Some (digest K token)) (users d) = [u]" "telegram_link_expires u = Some x" "now \<le> x"
      "d' = put_user (u\<lparr>telegram_id := Some c, telegram_link_hash := None, telegram_link_expires := None\<rparr>) (leave_other c u d)"
proof -
  have "d' = d \<and> (\<forall>n. r \<noteq> Done (LinkDone n)) \<or>
    (\<exists>u x. r = Done (LinkDone (username u)) \<and> filter (\<lambda>u. telegram_link_hash u = Some (digest K token)) (users d) = [u] \<and>
      telegram_link_expires u = Some x \<and> now \<le> x \<and>
      d' = put_user (u\<lparr>telegram_id := Some c, telegram_link_hash := None, telegram_link_expires := None\<rparr>) (leave_other c u d))"
    using assms unfolding link_chat_def by (auto split: outcome.splits option.splits if_splits)
  then show thesis using same linked by blast
qed

lemma link_chat_accounts_ok:
  assumes "link_chat K c token now d = (r, d')" and "accounts_ok d"
  shows "accounts_ok d'"
  using assms(1)
proof (cases rule: link_chat_cases)
  case (linked u x)
  have "u \<in> set (users d)" using filter_single [OF linked(2)] by blast
  from take_chat(1) [OF assms(2) this] show ?thesis unfolding linked(5) by (simp add: with_chat_def)
qed (use assms(2) in simp)

lemma tg_link_webapp_accounts_ok:
  assumes "tg_link_webapp hmac loads e name init_data now d = (r, d')" and "accounts_ok d"
  shows "accounts_ok d'"
proof -
  have "d' = d \<or> (\<exists>u c. user_by_name d name = Some u \<and>
      d' = put_user (u\<lparr>telegram_id := Some c, telegram_link_hash := None\<rparr>) (leave_other c u d))"
    using assms(1) unfolding tg_link_webapp_def by (auto split: outcome.splits option.splits if_splits)
  then show ?thesis
  proof (elim disjE exE conjE)
    fix u c assume u: "user_by_name d name = Some u"
      "d' = put_user (u\<lparr>telegram_id := Some c, telegram_link_hash := None\<rparr>) (leave_other c u d)"
    then have "u \<in> set (users d)" using user_by_name_SomeD by blast
    from take_chat(1) [OF assms(2) this] show ?thesis unfolding u(2) by (simp add: with_chat_def)
  qed (use assms(2) in simp)
qed

lemma tg_link_accounts_ok:
  assumes "tg_link K e name tok now d = (r, d')" and "accounts_ok d"
  shows "accounts_ok d'"
proof -
  have "d' = d \<or> (\<exists>u. user_by_name d name = Some u \<and>
      d' = put_user (u\<lparr>telegram_link_hash := Some (digest K tok), telegram_link_expires := Some (now + LINK_TTL)\<rparr>) d)"
    using assms(1) unfolding tg_link_def by (auto split: option.splits if_splits)
  then show ?thesis
    using assms(2) accounts_ok_put [OF assms(2)] user_by_name_SomeD by fastforce
qed

lemma tg_unlink_accounts_ok:
  assumes "tg_unlink e name s = (r, s')" and "accounts_ok (fst s)"
  shows "accounts_ok (fst s')"
proof -
  have "s' = s \<or> (\<exists>u. user_by_name (fst s) name = Some u \<and>
      fst s' = put_user (u\<lparr>telegram_id := None, telegram_link_hash := None\<rparr>) (fst s))"
    using assms(1) unfolding tg_unlink_def by (auto split: option.splits)
  then show ?thesis
  proof (elim disjE exE conjE)
    fix u assume u: "user_by_name (fst s) name = Some u"
      "fst s' = put_user (u\<lparr>telegram_id := None, telegram_link_hash := None\<rparr>) (fst s)"
    have "u \<in> set (users (fst s))" using user_by_name_SomeD [OF u(1)] by blast
    moreover from this have "google_sub x \<noteq> google_sub u" if "x \<in> set (users (fst s))" "u_id x \<noteq> u_id u" "google_sub u \<noteq> None" for x
      using unique_on_eqD [of google_sub "users (fst s)" x u] assms(2) that by (auto simp: accounts_ok_def)
    ultimately show ?thesis unfolding u(2) by (intro accounts_ok_change [OF assms(2)]) auto
  qed (use assms(2) in simp)
qed

lemma list_ex_name: "\<not> list_ex (\<lambda>u. lower (username u) = n) us \<longleftrightarrow> (\<forall>x\<in>set us. lower (username x) \<noteq> n)"
  by (auto simp: list_ex_iff)

lemma add_user_cases:
  assumes "add_user u d = Done d'"
  shows "d' = d\<lparr>users := users d @ [u]\<rparr>" "u_id u \<notin> u_id ` set (users d)"
    "\<forall>x\<in>set (users d). telegram_id u \<noteq> None \<longrightarrow> telegram_id x \<noteq> telegram_id u"
    "\<forall>x\<in>set (users d). google_sub u \<noteq> None \<longrightarrow> google_sub x \<noteq> google_sub u"
  using assms by (auto simp: add_user_def user_conflict_def list_ex_iff split: if_splits)

lemma new_uuid_users [simp]: "users (snd (new_uuid d)) = users d"
  by (simp add: new_uuid_def)

lemma tg_create_cases:
  assumes "tg_create K e body c rnd now d = (r, d')"
  obtains (same) "d' = d" "\<forall>a. r \<noteq> Done (Inr a)"
  | (created) u name where "r = Done (Inr (create_token K e name ''client'' now, name))" "name = strip (tr_username body)"
      "user_by_chat d c = None" "USERNAME_RE name" "\<forall>x\<in>set (users d). lower (username x) \<noteq> lower name"
      "username u = name" "email u = None" "telegram_id u = Some c" "google_sub u = None" "add_user u (snd (new_uuid d)) = Done d'"
proof -
  let ?name = "strip (tr_username body)"
  let ?u = "(new_user (fst (new_uuid d)) ?name None (pwd_hash K rnd) ''ru'' now)
    \<lparr>telegram_id := Some c, referred_code := referred_by d (tr_ref body) nobody now\<rparr>"
  have "d' = d \<and> (\<forall>a. r \<noteq> Done (Inr a)) \<or>
    r = Done (Inr (create_token K e ?name ''client'' now, ?name)) \<and> user_by_chat d c = None \<and> USERNAME_RE ?name \<and>
    (\<forall>x\<in>set (users d). lower (username x) \<noteq> lower ?name) \<and> add_user ?u (snd (new_uuid d)) = Done d'"
    using assms unfolding tg_create_def Let_def list_ex_name [symmetric]
    by (auto split: if_splits outcome.splits prod.splits)
  then show thesis
  proof (elim disjE conjE)
    assume a: "r = Done (Inr (create_token K e ?name ''client'' now, ?name))" "user_by_chat d c = None" "USERNAME_RE ?name"
      "\<forall>x\<in>set (users d). lower (username x) \<noteq> lower ?name" "add_user ?u (snd (new_uuid d)) = Done d'"
    show thesis by (rule created [OF a(1) refl a(2-4) _ _ _ _ a(5)]) (simp_all add: new_user_def)
  qed (rule same)
qed

lemma tg_create_accounts_ok:
  assumes "tg_create K e body c rnd now d = (r, d')" and "accounts_ok d"
  shows "accounts_ok d'"
  using assms(1)
proof (cases rule: tg_create_cases)
  case (created u name)
  note a = add_user_cases [OF created(10), unfolded new_uuid_users]
  show ?thesis
    by (rule accounts_ok_add [OF assms(2) _ a(2) _ _ a(3,4)]) (use created(5-7) in \<open>auto simp: a(1)\<close>)
qed (use assms(2) in simp)

lemma tg_register_cases:
  assumes "tg_register hmac loads K e ip body rnd now clk L d = (r, L', d')"
  obtains (same) "d' = d" "\<forall>a. r \<noteq> Done (Inr a)"
  | (ran) t where "verify_init_data hmac loads (tr_init_data body) (BOT_TOKEN e) now = Done (Some t)"
      "tg_create K e body (tg_uid t) rnd now d = (r, d')"
proof -
  have "d' = d \<and> (\<forall>a. r \<noteq> Done (Inr a)) \<or>
    (\<exists>t. verify_init_data hmac loads (tr_init_data body) (BOT_TOKEN e) now = Done (Some t) \<and>
       tg_create K e body (tg_uid t) rnd now d = (r, d'))"
    using assms unfolding tg_register_def by (auto split: if_splits option.splits prod.splits outcome.splits)
  then show thesis using same ran by blast
qed

lemma open_session_users [simp]: "users (open_session K u tok now d) = users d"
  by (simp add: open_session_def Let_def delete_sessions_def new_uuid_def)

lemma signed_in_users: "signed_in K e u remember tok now d = (a, d') \<Longrightarrow> users d' = users d \<and> snd a = username u"
  by (auto simp: signed_in_def)

lemma google_register_cases:
  assumes "google_register K e body gsub mail rnd tok now d = (r, d')"
  obtains (same) "d' = d" "\<forall>a. r \<noteq> Done (Inr a)"
  | (created) u a where "r = Done (Inr a)" "snd a = username u" "USERNAME_RE (username u)"
      "\<forall>x\<in>set (users d). lower (username x) \<noteq> lower (username u)" "email u = Some mail" "google_sub u = Some gsub"
      "telegram_id u = None" "email_verified_at u = Some now" "users d' = users d @ [u]" "u_id u \<notin> u_id ` set (users d)"
proof -
  let ?name = "strip (the (gi_username body))"
  define u where "u = (new_user (fst (new_uuid d)) ?name (Some mail) (pwd_hash K rnd) ''ru'' now)
    \<lparr>email_verified_at := Some now, google_sub := Some gsub, referred_code := referred_by d (gi_ref body) nobody now\<rparr>"
  have f: "username u = ?name" "email u = Some mail" "google_sub u = Some gsub" "telegram_id u = None" "email_verified_at u = Some now"
    by (simp_all add: u_def new_user_def)
  have "d' = d \<and> (\<forall>a. r \<noteq> Done (Inr a)) \<or>
    (\<exists>a d2. r = Done (Inr a) \<and> USERNAME_RE ?name \<and> (\<forall>x\<in>set (users d). lower (username x) \<noteq> lower ?name) \<and>
      add_user u (snd (new_uuid d)) = Done d2 \<and> signed_in K e u (gi_remember body) tok now d2 = (a, d'))"
    using assms unfolding google_register_def Let_def list_ex_name [symmetric] u_def
    by (auto split: if_splits outcome.splits prod.splits)
  then show thesis
  proof (elim disjE conjE exE)
    fix a d2
    assume a: "r = Done (Inr a)" "USERNAME_RE ?name" "\<forall>x\<in>set (users d). lower (username x) \<noteq> lower ?name"
      "add_user u (snd (new_uuid d)) = Done d2" "signed_in K e u (gi_remember body) tok now d2 = (a, d')"
    note ad = add_user_cases [OF a(4), unfolded new_uuid_users]
    have "users d' = users d @ [u]" "snd a = username u" using signed_in_users [OF a(5)] ad(1) by simp_all
    then show thesis by (intro created [of a u]) (use a f ad in auto)
  qed (rule same)
qed

lemma google_match_Known:
  assumes "google_match gsub mail d = Done (Known u)"
  obtains (tied) "u \<in> set (users d)" "google_sub u = Some gsub"
  | (confirmed) v where "v \<in> set (users d)" "map_option lower (email v) = Some mail" "email_verified_at v \<noteq> None"
      "\<forall>x\<in>set (users d). google_sub x \<noteq> Some gsub"
      "u = (if google_sub v = None then v\<lparr>google_sub := Some gsub\<rparr> else v)"
proof (cases "List.find (\<lambda>u. google_sub u = Some gsub) (users d)")
  case None
  then have new: "\<forall>x\<in>set (users d). google_sub x \<noteq> Some gsub" by (simp add: find_None_iff)
  obtain v where v: "filter (\<lambda>u. map_option lower (email u) = Some mail) (users d) = [v]" "email_verified_at v \<noteq> None"
    "u = (if google_sub v = None then v\<lparr>google_sub := Some gsub\<rparr> else v)"
    using assms None by (auto simp: google_match_def split: outcome.splits option.splits if_splits)
  with filter_single [OF v(1)] new show thesis by (intro confirmed [of v]) auto
next
  case (Some v)
  with assms have "v = u" by (simp add: google_match_def)
  with Some show thesis by (intro tied) (auto dest: find_SomeD)
qed

lemma google_match_Unknown:
  assumes "google_match gsub mail d = Done Unknown"
  shows "\<forall>x\<in>set (users d). google_sub x \<noteq> Some gsub \<and> map_option lower (email x) \<noteq> Some mail"
  using assms
  by (auto simp: google_match_def find_None_iff filter_empty_conv split: outcome.splits option.splits if_splits)

lemma google_sign_in_cases:
  assumes "google_sign_in jwt K e fetched ip body rnd tok now clk c L d = (r, c', L', d')"
  obtains (same) "d' = d" "\<forall>a. r \<noteq> Done (Inr a)"
  | (known) claims u a where "verify_id_token jwt e fetched (gi_credential body) now c = (Some claims, c')"
      "google_match (json_str (dict_get claims ''sub'')) (lower (strip (json_str (dict_get claims ''email'')))) d = Done (Known u)"
      "u_is_active u" "signed_in K e u (gi_remember body) tok now (put_user u d) = (a, d')" "r = Done (Inr a)"
  | (opened) claims where "verify_id_token jwt e fetched (gi_credential body) now c = (Some claims, c')"
      "google_match (json_str (dict_get claims ''sub'')) (lower (strip (json_str (dict_get claims ''email'')))) d = Done Unknown"
      "google_register K e body (json_str (dict_get claims ''sub'')) (lower (strip (json_str (dict_get claims ''email'')))) rnd tok now d = (r, d')"
proof -
  have "d' = d \<and> (\<forall>a. r \<noteq> Done (Inr a)) \<or>
    (\<exists>claims. verify_id_token jwt e fetched (gi_credential body) now c = (Some claims, c') \<and>
      ((\<exists>u a. google_match (json_str (dict_get claims ''sub'')) (lower (strip (json_str (dict_get claims ''email'')))) d = Done (Known u) \<and>
        u_is_active u \<and> signed_in K e u (gi_remember body) tok now (put_user u d) = (a, d') \<and> r = Done (Inr a)) \<or>
       google_match (json_str (dict_get claims ''sub'')) (lower (strip (json_str (dict_get claims ''email'')))) d = Done Unknown \<and>
        google_register K e body (json_str (dict_get claims ''sub'')) (lower (strip (json_str (dict_get claims ''email'')))) rnd tok now d = (r, d')))"
    using assms unfolding google_sign_in_def Let_def
    by (auto split: if_splits outcome.splits prod.splits option.splits google_account.splits)
  then show thesis using same known opened by blast
qed

lemma google_sign_in_accounts_ok:
  assumes "google_sign_in jwt K e fetched ip body rnd tok now clk c L d = (r, c', L', d')" and "accounts_ok d"
  shows "accounts_ok d'"
  using assms(1)
proof (cases rule: google_sign_in_cases)
  case (known claims u a)
  have "accounts_ok (put_user u d)"
    using known(2)
  proof (cases rule: google_match_Known)
    case tied
    show ?thesis by (rule accounts_ok_put [OF assms(2) tied(1)]) simp_all
  next
    case (confirmed v)
    have t: "telegram_id x \<noteq> telegram_id v" if "x \<in> set (users d)" "u_id x \<noteq> u_id v" "telegram_id v \<noteq> None" for x
      using unique_on_eqD [of telegram_id "users d" x v] assms(2) that confirmed(1) by (auto simp: accounts_ok_def)
    have g: "google_sub x \<noteq> google_sub v" if "x \<in> set (users d)" "u_id x \<noteq> u_id v" "google_sub v \<noteq> None" for x
      using unique_on_eqD [of google_sub "users d" x v] assms(2) that confirmed(1) by (auto simp: accounts_ok_def)
    show ?thesis
      by (rule accounts_ok_change [OF assms(2) confirmed(1)]) (use confirmed(4,5) t g in \<open>auto split: if_splits\<close>)
  qed
  moreover have "users d' = users (put_user u d)" using signed_in_users [OF known(4)] by simp
  ultimately show ?thesis using accounts_ok_users [of d' "put_user u d"] by simp
next
  case (opened claims)
  note new = google_match_Unknown [OF opened(2)]
  from opened(3) show ?thesis
  proof (cases rule: google_register_cases)
    case (created u a)
    show ?thesis
      by (rule accounts_ok_add [OF assms(2) created(9,10)]) (use created(4-7) new in auto)
  qed (use assms(2) in simp)
qed (use assms(2) in simp)

lemma verify_id_token_Some:
  assumes "verify_id_token jwt e fetched cred now c = (Some claims, c')"
  obtains keys where "jwt cred keys (GOOGLE_CLIENT_ID e) now = Some claims" "GOOGLE_CLIENT_ID e \<noteq> []"
    "fetched = Some keys \<or> gk_jwks c = keys \<and> now - gk_at c < KEYS_TTL"
    "dict_get claims ''iss'' \<in> set (map JStr ISSUERS)" "says_verified (dict_get claims ''email_verified'')"
proof -
  have "\<exists>keys. jwt cred keys (GOOGLE_CLIENT_ID e) now = Some claims \<and> GOOGLE_CLIENT_ID e \<noteq> [] \<and>
    (fetched = Some keys \<or> gk_jwks c = keys \<and> now - gk_at c < KEYS_TTL) \<and>
    dict_get claims ''iss'' \<in> set (map JStr ISSUERS) \<and> says_verified (dict_get claims ''email_verified'')"
    using assms unfolding verify_id_token_def google_keys_def by (auto split: if_splits option.splits prod.splits)
  then show thesis using that by blast
qed

lemma verify_init_data_Some:
  assumes "verify_init_data hmac loads init_data token now = Done (Some u)"
  obtains pairs at where "parse_qsl init_data = Some pairs" "token \<noteq> []"
    "map_of (rev pairs) ''hash'' = Some (init_hash hmac token pairs)"
    "py_int (case map_of (rev pairs) ''auth_date'' of None \<Rightarrow> ''0'' | Some v \<Rightarrow> v) = Some at"
    "now \<le> seconds at + hours 24"
    "loads (case map_of (rev pairs) ''user'' of None \<Rightarrow> ''{}'' | Some v \<Rightarrow> v) = Some (JObj u)"
proof -
  obtain pairs where p: "parse_qsl init_data = Some pairs" using assms by (auto simp: verify_init_data_def split: option.splits)
  have "token \<noteq> [] \<and> map_of (rev pairs) ''hash'' = Some (init_hash hmac token pairs) \<and>
    (\<exists>at. py_int (case map_of (rev pairs) ''auth_date'' of None \<Rightarrow> ''0'' | Some v \<Rightarrow> v) = Some at \<and>
      now \<le> seconds at + hours 24) \<and>
    loads (case map_of (rev pairs) ''user'' of None \<Rightarrow> ''{}'' | Some v \<Rightarrow> v) = Some (JObj u)"
    using assms p unfolding verify_init_data_def Let_def option.case
    by (simp split: if_splits option.splits json.splits outcome.splits add: hours_def seconds_def INIT_DATA_MAX_AGE_def)
  with p that show thesis by blast
qed

subsection \<open>The properties\<close>

text \<open>
  C37: Google signs in only with a token that its keys and our client ID decode, from one of its
  issuers and with a confirmed address.  It opens the account that Google account is tied to;
  or an account with the same address, confirmed there, which is tied to it; or, when neither
  exists, one new account with that address.  An account whose address is not confirmed and
  that is tied to no Google account is never touched.
\<close>

theorem google_needs_confirmed_address:
  assumes run: "google_sign_in jwt K e fetched ip body rnd tok now clk c L d = (Done (Inr (resp, name)), c', L', d')"
    and ids: "distinct (map u_id (users d))"
  shows "\<exists>keys claims gsub mail. jwt (gi_credential body) keys (GOOGLE_CLIENT_ID e) now = Some claims \<and>
    dict_get claims ''iss'' \<in> set (map JStr ISSUERS) \<and> says_verified (dict_get claims ''email_verified'') \<and>
    gsub = json_str (dict_get claims ''sub'') \<and> mail = lower (strip (json_str (dict_get claims ''email''))) \<and>
    ((\<exists>u\<in>set (users d). username u = name \<and> u_is_active u \<and>
        (google_sub u = Some gsub \<or> map_option lower (email u) = Some mail \<and> email_verified_at u \<noteq> None)) \<or>
     (\<exists>u. users d' = users d @ [u] \<and> username u = name \<and> google_sub u = Some gsub \<and> email u = Some mail \<and>
        (\<forall>x\<in>set (users d). google_sub x \<noteq> Some gsub \<and> map_option lower (email x) \<noteq> Some mail))) \<and>
    (\<forall>x\<in>set (users d). email_verified_at x = None \<and> google_sub x = None \<longrightarrow> x \<in> set (users d'))"
  using run
proof (cases rule: google_sign_in_cases)
  case (known claims u a)
  obtain keys where k: "jwt (gi_credential body) keys (GOOGLE_CLIENT_ID e) now = Some claims"
    "dict_get claims ''iss'' \<in> set (map JStr ISSUERS)" "says_verified (dict_get claims ''email_verified'')"
    by (rule verify_id_token_Some [OF known(1)])
  let ?g = "json_str (dict_get claims ''sub'')" and ?m = "lower (strip (json_str (dict_get claims ''email'')))"
  have n: "username u = name" "users d' = users (put_user u d)" using signed_in_users [OF known(4)] known(5) by auto
  from known(2) have "\<exists>v\<in>set (users d). u_id v = u_id u \<and> username v = name \<and> u_is_active v \<and>
      (google_sub v = Some ?g \<or> map_option lower (email v) = Some ?m \<and> email_verified_at v \<noteq> None)"
  proof (cases rule: google_match_Known)
    case tied
    with n known(3) show ?thesis by blast
  next
    case (confirmed v)
    have "u_id v = u_id u" "username v = name" "u_is_active v"
      using confirmed(5) n(1) known(3) by (simp_all split: if_splits)
    with confirmed(1-3) show ?thesis by blast
  qed
  then obtain v where v: "v \<in> set (users d)" "u_id v = u_id u" "username v = name" "u_is_active v"
      "google_sub v = Some ?g \<or> map_option lower (email v) = Some ?m \<and> email_verified_at v \<noteq> None" by blast
  have "x \<in> set (users d')" if "x \<in> set (users d)" "email_verified_at x = None" "google_sub x = None" for x
  proof -
    have "u_id x \<noteq> u_id u" using v that ids by (metis distinct_map_eqD option.distinct(1))
    with that(1) show ?thesis unfolding n(2) set_put_user by blast
  qed
  with k v(1,3-5) show ?thesis by blast
next
  case (opened claims)
  obtain keys where k: "jwt (gi_credential body) keys (GOOGLE_CLIENT_ID e) now = Some claims"
    "dict_get claims ''iss'' \<in> set (map JStr ISSUERS)" "says_verified (dict_get claims ''email_verified'')"
    by (rule verify_id_token_Some [OF opened(1)])
  note new = google_match_Unknown [OF opened(2)]
  from opened(3) show ?thesis
  proof (cases rule: google_register_cases)
    case (created u a)
    have "username u = name" using created(1,2) by auto
    moreover have "\<forall>x\<in>set (users d). x \<in> set (users d')" by (simp add: created(9))
    ultimately show ?thesis using k new created(5,6,9) by blast
  qed auto
qed auto

text \<open>Tokens that show what they say, to evaluate the handlers.\<close>

definition plain_crypto :: crypto where
  "plain_crypto = sample_crypto\<lparr>jwt_encode := \<lambda>c. sub c @ ''/'' @ role c,
     jwt_decode := \<lambda>s t. Some \<lparr>sub = before CHR ''/'' s, role = after CHR ''/'' s, exp = 0\<rparr>\<rparr>"

definition sample_env :: env where
  "sample_env = [''GOOGLE_CLIENT_ID'' \<mapsto> ''cid'', ''TG_BOT_TOKEN'' \<mapsto> ''T'', ''TG_BOT_USERNAME'' \<mapsto> ''@sovbot'']"

definition sample_jwt :: jwt_decoder where
  "sample_jwt t keys aud now = (if t = ''cred'' \<and> aud = ''cid'' then
     Some [(''iss'', JStr ''accounts.google.com''), (''sub'', JStr ''g1''), (''email'', JStr ''Bob@Mail.ru''),
           (''email_verified'', JBool True)] else None)"

definition sample_google_in :: google_in where
  "sample_google_in = \<lparr>gi_credential = ''cred'', gi_remember = True, gi_username = None, gi_ref = None\<rparr>"

definition confirmed_bob :: user where
  "confirmed_bob = (sample_user ''bob'')\<lparr>email := Some ''bob@mail.ru'', email_verified_at := Some 1\<rparr>"

theorem google_needs_confirmed_address_witness:
  "\<exists>resp c' L' d'. google_sign_in sample_jwt plain_crypto sample_env (Some (JStr ''k'')) ''1.2.3.4'' sample_google_in ''r'' ''t'' 9 0
       no_keys fresh_limits (empty_db\<lparr>users := [confirmed_bob]\<rparr>) = (Done (Inr (resp, ''bob'')), c', L', d') \<and>
     (\<forall>x\<in>set (users (empty_db\<lparr>users := [confirmed_bob]\<rparr>)). email_verified_at x = None \<and> google_sub x = None \<longrightarrow> x \<in> set (users d'))"
proof -
  let ?d = "empty_db\<lparr>users := [confirmed_bob]\<rparr>"
  let ?run = "google_sign_in sample_jwt plain_crypto sample_env (Some (JStr ''k'')) ''1.2.3.4'' sample_google_in ''r'' ''t'' 9 0
       no_keys fresh_limits ?d"
  have "case fst ?run of Done (Inr a) \<Rightarrow> snd a = ''bob'' | _ \<Rightarrow> False" by code_simp
  then obtain resp where "fst ?run = Done (Inr (resp, ''bob''))" by (auto split: outcome.splits sum.splits)
  then obtain c' L' d' where run: "?run = (Done (Inr (resp, ''bob'')), c', L', d')" by (metis prod.collapse)
  have "distinct (map u_id (users ?d))" by code_simp
  from google_needs_confirmed_address [OF run this] run show ?thesis by blast
qed

text \<open>
  C38: The link a signed-in client asks for ties the chat it is opened in to that account within
  fifteen minutes, and unties it from any other; after that the chat belongs to that account
  alone, and the same link ties nothing any more.
\<close>

theorem link_ties_one_chat:
  assumes run: "tg_link K e name tok now d = (Inr url, d1)" and ok: "accounts_ok d"
    and tok: "\<forall>x\<in>set (users d). telegram_link_hash x \<noteq> Some (digest K tok)" and t: "t \<le> now + minutes 15"
  shows "\<exists>u v d2. user_by_name d name = Some u \<and> url = ''https://t.me/'' @ TG_BOT_USERNAME e @ ''?start='' @ tok \<and>
    link_chat K chat tok t d1 = (Done (LinkDone name), d2) \<and> user_by_chat d2 chat = Some v \<and> u_id v = u_id u \<and>
    (\<forall>x\<in>set (users d2). telegram_id x = Some chat \<longrightarrow> x = v) \<and> accounts_ok d2 \<and>
    (\<forall>chat' t'. link_chat K chat' tok t' d2 = (Done LinkStale, d2))"
proof -
  obtain u where u: "user_by_name d name = Some u" "url = ''https://t.me/'' @ TG_BOT_USERNAME e @ ''?start='' @ tok"
    and d1: "d1 = put_user (u\<lparr>telegram_link_hash := Some (digest K tok), telegram_link_expires := Some (now + LINK_TTL)\<rparr>) d"
    using run by (auto simp: tg_link_def split: if_splits option.splits)
  note un = user_by_name_SomeD [OF u(1)]
  define u1 where "u1 = u\<lparr>telegram_link_hash := Some (digest K tok), telegram_link_expires := Some (now + LINK_TTL)\<rparr>"
  define u2 where "u2 = u1\<lparr>telegram_id := Some chat, telegram_link_hash := None, telegram_link_expires := None\<rparr>"
  have ok1: "accounts_ok d1" by (rule tg_link_accounts_ok [OF run ok])
  have in1: "u1 \<in> set (users d1)" unfolding d1 u1_def [symmetric] using un in_users_put_user [of u d u1] by (simp add: u1_def)
  have hash1: "u_id y = u_id u1" if "y \<in> set (users d1)" "telegram_link_hash y = Some (digest K tok)" for y
    using that tok unfolding d1 u1_def [symmetric] by (auto simp: set_put_user)
  have "filter (\<lambda>y. telegram_link_hash y = Some (digest K tok)) (users d1) = [u1]"
    by (rule filter_singleI [of u_id]) (use ok1 in1 hash1 in \<open>auto simp: accounts_ok_def u1_def\<close>)
  then have link: "link_chat K chat tok t d1 = (Done (LinkDone name), put_user u2 (leave_other chat u1 d1))"
    using t un by (simp add: link_chat_def u1_def u2_def LINK_TTL_def)
  note tc = take_chat [OF ok1 in1, of chat u2]
  have w: "with_chat u1 chat u2" by (simp add: with_chat_def u2_def)
  have "telegram_link_hash x \<noteq> Some (digest K tok)" if x: "x \<in> set (users (put_user u2 (leave_other chat u1 d1)))" for x
  proof (cases "u_id x = u_id u1")
    case True
    then have "x = u2" using x by (auto simp: set_put_user u2_def)
    then show ?thesis by (simp add: u2_def)
  next
    case False
    with tc(4) [OF w] x hash1 show ?thesis by metis
  qed
  then have "link_chat K chat' tok t' (put_user u2 (leave_other chat u1 d1)) =
      (Done LinkStale, put_user u2 (leave_other chat u1 d1))" for chat' t'
    by (simp add: link_chat_def filter_False)
  moreover have "u_id u2 = u_id u" by (simp add: u2_def u1_def)
  ultimately show ?thesis using u link tc(1-3) [OF w] by blast
qed

theorem link_ties_one_chat_witness:
  "\<exists>url d1 v d2. tg_link plain_crypto sample_env ''bob'' ''tok'' 0 (empty_db\<lparr>users := [confirmed_bob,
       (sample_user ''eve'')\<lparr>telegram_id := Some 7\<rparr>]\<rparr>) = (Inr url, d1) \<and>
     link_chat plain_crypto 7 ''tok'' (minutes 15) d1 = (Done (LinkDone ''bob''), d2) \<and> user_by_chat d2 7 = Some v \<and> u_id v = ''bob''"
proof -
  let ?d = "empty_db\<lparr>users := [confirmed_bob, (sample_user ''eve'')\<lparr>telegram_id := Some 7\<rparr>]\<rparr>"
  let ?run = "tg_link plain_crypto sample_env ''bob'' ''tok'' 0 ?d"
  have "case fst ?run of Inr url \<Rightarrow> True | _ \<Rightarrow> False" by code_simp
  then obtain url d1 where run: "?run = (Inr url, d1)" by (metis (no_types, lifting) prod.collapse sum.case_eq_if sum.collapse(2))
  have h: "accounts_ok ?d" "\<forall>x\<in>set (users ?d). telegram_link_hash x \<noteq> Some (digest plain_crypto ''tok'')"
    "map_option u_id (user_by_name ?d ''bob'') = Some ''bob''" by code_simp+
  from link_ties_one_chat [OF run h(1,2), of "minutes 15" 7] h(3)
  obtain v d2 where "link_chat plain_crypto 7 ''tok'' (minutes 15) d1 = (Done (LinkDone ''bob''), d2)" "user_by_chat d2 7 = Some v" "u_id v = ''bob''"
    by auto
  with run show ?thesis by blast
qed

text \<open>
  C39: A Mini App sign-in gives a session only on data whose hash is the bot's own HMAC of the
  other fields, not older than a day, and then to the active account that the signed Telegram
  user is tied to.
\<close>

theorem telegram_session_needs_signature:
  assumes "tg_login hmac loads K e ip init_data now clk L d = (Done (Inr (token, name)), L')"
  shows "\<exists>pairs at t u. parse_qsl init_data = Some pairs \<and> BOT_TOKEN e \<noteq> [] \<and>
    map_of (rev pairs) ''hash'' = Some (init_hash hmac (BOT_TOKEN e) pairs) \<and>
    py_int (case map_of (rev pairs) ''auth_date'' of None \<Rightarrow> ''0'' | Some v \<Rightarrow> v) = Some at \<and> now \<le> seconds at + hours 24 \<and>
    loads (case map_of (rev pairs) ''user'' of None \<Rightarrow> ''{}'' | Some v \<Rightarrow> v) = Some (JObj t) \<and>
    u \<in> set (users d) \<and> telegram_id u = Some (tg_uid t) \<and> u_is_active u \<and> username u = name \<and>
    token = create_token K e name ''client'' now"
proof -
  obtain t u where t: "verify_init_data hmac loads init_data (BOT_TOKEN e) now = Done (Some t)"
    and u: "user_by_chat d (tg_uid t) = Some u" "u_is_active u" "username u = name" "token = create_token K e name ''client'' now"
    using assms by (auto simp: tg_login_def split: if_splits option.splits prod.splits outcome.splits)
  from user_by_chat_SomeD [OF u(1)] u(2-4) show ?thesis
    by (rule_tac verify_init_data_Some [OF t]) blast
qed

definition sample_hmac :: "string \<Rightarrow> string \<Rightarrow> string" where
  "sample_hmac key msg = key @ msg"

definition sample_loads :: loads where
  "sample_loads s = (if s = ''{7}'' then Some (JObj [(''id'', JInt 7)]) else None)"

definition sample_init_data :: string where
  "sample_init_data = ''auth_date=5&user=%7B7%7d&hash='' @
     init_hash sample_hmac ''T'' [(''auth_date'', ''5''), (''user'', ''{7}'')]"

theorem telegram_session_needs_signature_witness:
  "\<exists>token L' pairs. tg_login sample_hmac sample_loads plain_crypto sample_env ''1.2.3.4'' sample_init_data (hours 24) 0 fresh_limits
       (empty_db\<lparr>users := [confirmed_bob\<lparr>telegram_id := Some 7\<rparr>]\<rparr>) = (Done (Inr (token, ''bob'')), L') \<and>
     parse_qsl sample_init_data = Some pairs \<and> map_of (rev pairs) ''hash'' = Some (init_hash sample_hmac (BOT_TOKEN sample_env) pairs)"
proof -
  let ?run = "tg_login sample_hmac sample_loads plain_crypto sample_env ''1.2.3.4'' sample_init_data (hours 24) 0 fresh_limits
       (empty_db\<lparr>users := [confirmed_bob\<lparr>telegram_id := Some 7\<rparr>]\<rparr>)"
  have "case fst ?run of Done (Inr a) \<Rightarrow> snd a = ''bob'' | _ \<Rightarrow> False" by code_simp
  then obtain token where "fst ?run = Done (Inr (token, ''bob''))" by (auto split: outcome.splits sum.splits)
  then obtain L' where run: "?run = (Done (Inr (token, ''bob'')), L')" by (metis prod.collapse)
  from telegram_session_needs_signature [OF run] run show ?thesis by blast
qed

text \<open>
  C40: One account opened from Telegram, which has no address, is enough to stop the
  administrator's list of clients: the answer's model has no room for it and the request ends
  in an exception.
\<close>

theorem telegram_account_breaks_client_list:
  assumes "tg_register hmac loads K e ip body rnd now clk L d = (Done (Inr a), L', d')"
    and "require_admin K token t = Inr c"
  shows "list_clients K token t d' = Raised"
  using assms(1)
proof (cases rule: tg_register_cases)
  case (ran u)
  from ran(2) show ?thesis
  proof (cases rule: tg_create_cases)
    case (created v name)
    have "those (map user_response_of (xs @ [v])) = None" for xs
      using created(7) by (induction xs) (auto simp: user_response_of_def split: option.splits)
    then show ?thesis
      using assms(2) add_user_cases(1) [OF created(10)] by (simp add: list_clients_def)
  qed auto
qed auto

definition sample_newcomer_request :: tg_register_request where
  "sample_newcomer_request = \<lparr>tr_init_data = sample_init_data, tr_username = ''Carol'', tr_ref = None\<rparr>"

theorem telegram_account_breaks_client_list_witness:
  "\<exists>a L' d'. tg_register sample_hmac sample_loads plain_crypto sample_env ''1.2.3.4'' sample_newcomer_request ''r'' (hours 24) 0
       fresh_limits (empty_db\<lparr>users := [confirmed_bob]\<rparr>) = (Done (Inr a), L', d') \<and>
     list_clients plain_crypto (create_token plain_crypto sample_env ''admin'' ''admin'' 0) 0 d' = Raised"
proof -
  let ?run = "tg_register sample_hmac sample_loads plain_crypto sample_env ''1.2.3.4'' sample_newcomer_request ''r'' (hours 24) 0
       fresh_limits (empty_db\<lparr>users := [confirmed_bob]\<rparr>)"
  let ?token = "create_token plain_crypto sample_env ''admin'' ''admin'' 0"
  have "case fst ?run of Done (Inr a) \<Rightarrow> True | _ \<Rightarrow> False" by code_simp
  then obtain a where "fst ?run = Done (Inr a)" by (auto split: outcome.splits sum.splits)
  then obtain L' d' where run: "?run = (Done (Inr a), L', d')" by (metis prod.collapse)
  have "case require_admin plain_crypto ?token 0 of Inr c \<Rightarrow> True | Inl e \<Rightarrow> False" by code_simp
  then obtain c where "require_admin plain_crypto ?token 0 = Inr c" by (auto split: sum.splits)
  from telegram_account_breaks_client_list [OF run this] run show ?thesis by blast
qed

text \<open>
  The names kept for the operator are refused at registration and taken from Telegram, which
  checks the alphabet only.
\<close>

lemma reserved_name_from_telegram:
  "fst (register plain_crypto sample_env Some ''1.2.3.4'' (sample_request\<lparr>rq_username := ''Support''\<rparr>) ''t'' 0 0 fresh_limits
     (empty_db, empty_outbox)) = Done (Inl (http 422 ''validation'')) \<and>
   map_option username (user_by_chat (snd (snd (tg_register sample_hmac sample_loads plain_crypto sample_env ''1.2.3.4''
     (sample_newcomer_request\<lparr>tr_username := ''Support''\<rparr>) ''r'' 0 0 fresh_limits empty_db))) 7) = Some ''Support''"
proof
  show "fst (register plain_crypto sample_env Some ''1.2.3.4'' (sample_request\<lparr>rq_username := ''Support''\<rparr>) ''t'' 0 0 fresh_limits
     (empty_db, empty_outbox)) = Done (Inl (http 422 ''validation''))" by code_simp
  show "map_option username (user_by_chat (snd (snd (tg_register sample_hmac sample_loads plain_crypto sample_env ''1.2.3.4''
     (sample_newcomer_request\<lparr>tr_username := ''Support''\<rparr>) ''r'' 0 0 fresh_limits empty_db))) 7) = Some ''Support''" by code_simp
qed

end
