(* ===== verification/Clientarea.thy ===== *)
theory Clientarea
  imports Signin "HOL-Library.Product_Lexorder"
begin

section \<open>Codes, the bell and support (\<open>api/referral.py\<close>, \<open>api/admin_promo.py\<close>, \<open>api/notifications.py\<close>, \<open>api/support.py\<close>)\<close>

text \<open>
  The customer's credit and referral code, the operator's campaign codes, the feed of
  notifications and support tickets.  The random source of generated codes is the argument
  \<open>draws\<close>; \<open>token\<close> is the bearer token of an admin request.  Instants are answered as they
  are, where the endpoints spell them out in ISO format.
\<close>

subsection \<open>Credit and the referral code\<close>

record credit_answer =
  ca_balance :: int
  ca_pending :: int
  ca_max_share_percent :: int
  ca_history :: "credit_entry list"

definition get_credit :: "string \<Rightarrow> datetime \<Rightarrow> db \<Rightarrow> http_error + credit_answer" where
  "get_credit name now d =
     (case user_by_name d name of
        None \<Rightarrow> Inl (http 404 ''User not found'')
      | Some u \<Rightarrow> Inr \<lparr>ca_balance = balance d u now, ca_pending = pending_balance d u now,
                        ca_max_share_percent = 50, ca_history = history d u 50\<rparr>)"

record referral_answer =
  ra_code :: "string option"
  ra_uses :: int
  ra_discount_percent :: int
  ra_reward_days :: int
  ra_vesting_days :: int
  ra_eligible :: bool
  ra_rewards :: "(int \<times> datetime \<times> datetime option) list"

definition get_referral :: "string \<Rightarrow> datetime \<Rightarrow> db \<Rightarrow> http_error + referral_answer" where
  "get_referral name now d =
     (case user_by_name d name of
        None \<Rightarrow> Inl (http 404 ''User not found'')
      | Some u \<Rightarrow>
          let promo = code_for d u in
          Inr \<lparr>ra_code = map_option code promo,
               ra_uses = (case promo of None \<Rightarrow> 0 | Some p \<Rightarrow> uses_of d (code p)),
               ra_discount_percent = (case promo of None \<Rightarrow> DEFAULT_DISCOUNT_PERCENT | Some p \<Rightarrow> discount_percent p),
               ra_reward_days = REFERRAL_REWARD_DAYS, ra_vesting_days = REWARD_VESTING_DAYS,
               ra_eligible = has_active_subscription u now,
               ra_rewards = map (\<lambda>r. (rr_days r, vests_at r, applied_at r)) (rewards_of d u)\<rparr>)"

text \<open>The answer is the code and how often it was used.\<close>

definition create_referral ::
  "string \<Rightarrow> (nat \<Rightarrow> nat \<Rightarrow> nat) \<Rightarrow> datetime \<Rightarrow> db \<Rightarrow> (promo_code \<times> int) reply \<times> db"
where
  "create_referral name draws now d =
     (case user_by_name d name of
        None \<Rightarrow> (Done (Inl (http 404 ''User not found'')), d)
      | Some u \<Rightarrow>
          if \<not> has_active_subscription u now
          then (Done (Inl (http 403 ''A referral code is available with an active subscription'')), d)
          else
            (case issue_code d u draws now of
               Inl _ \<Rightarrow> (Raised, d)
             | Inr (p, d1) \<Rightarrow> (Done (Inr (p, uses_of d1 (code p))), d1)))"

subsection \<open>Campaign codes\<close>

definition MAX_DISCOUNT_PERCENT :: int where
  "MAX_DISCOUNT_PERCENT = 60"

text \<open>\<open>[A-Z0-9][A-Z0-9-]{2,31}\<close>; the text is stripped before it is matched, so that the end
  of the pattern is the end of the text.\<close>

definition code_char :: "char \<Rightarrow> bool" where
  "code_char c = (is_digit c \<or> 65 \<le> (of_char c :: nat) \<and> (of_char c :: nat) \<le> 90)"

definition CODE_RE :: "string \<Rightarrow> bool" where
  "CODE_RE s =
     (case s of
        [] \<Rightarrow> False
      | c # t \<Rightarrow> code_char c \<and> 2 \<le> length t \<and> length t \<le> 31 \<and> list_all (\<lambda>x. code_char x \<or> x = CHR ''-'') t)"

record create_promo_request =
  cp_code :: "string option"
  cp_discount_percent :: int
  cp_max_uses :: "int option"
  cp_expires_at :: "datetime option"
  cp_note :: "string option"

record promo_view =
  pv_code :: string
  pv_kind :: string
  pv_discount_percent :: int
  pv_max_uses :: "int option"
  pv_uses :: int
  pv_is_active :: bool
  pv_expires_at :: "datetime option"
  pv_created_at :: datetime
  pv_note :: "string option"

definition promo_describe :: "db \<Rightarrow> promo_code \<Rightarrow> promo_view" where
  "promo_describe d p =
     \<lparr>pv_code = code p, pv_kind = (if given (owner_user_id p) then ''referral'' else ''campaign''),
      pv_discount_percent = discount_percent p, pv_max_uses = max_uses p, pv_uses = uses_of d (code p),
      pv_is_active = pc_is_active p, pv_expires_at = pc_expires_at p, pv_created_at = pc_created_at p,
      pv_note = pc_note p\<rparr>"

definition list_promo_codes :: "crypto \<Rightarrow> string \<Rightarrow> datetime \<Rightarrow> db \<Rightarrow> http_error + promo_view list" where
  "list_promo_codes K token now d =
     (case require_admin K token now of
        Inl err \<Rightarrow> Inl err
      | Inr _ \<Rightarrow> Inr (map (promo_describe d) (sort_key (\<lambda>p. - pc_created_at p) (promo_codes d))))"

text \<open>The bounds of the request's fields.\<close>

definition promo_request_ok :: "create_promo_request \<Rightarrow> bool" where
  "promo_request_ok req =
     (1 \<le> cp_discount_percent req \<and> cp_discount_percent req \<le> MAX_DISCOUNT_PERCENT \<and>
      (case cp_max_uses req of None \<Rightarrow> True | Some n \<Rightarrow> 1 \<le> n) \<and>
      (case cp_note req of None \<Rightarrow> True | Some t \<Rightarrow> length t \<le> 255))"

text \<open>The code of the request, or one that is generated; \<open>Raised\<close> when ten attempts found none.\<close>

definition wanted_code :: "create_promo_request \<Rightarrow> (nat \<Rightarrow> nat \<Rightarrow> nat) \<Rightarrow> db \<Rightarrow> string reply" where
  "wanted_code req draws d =
     (if given (cp_code req)
      then let c = upper (strip (the (cp_code req))) in
           if CODE_RE c then Done (Inr c)
           else Done (Inl (http 400 ''A code is 3-32 characters: A-Z, 0-9 and dashes''))
      else case unused_code d draws of Inl _ \<Rightarrow> Raised | Inr c \<Rightarrow> Done (Inr c))"

definition create_promo_code ::
  "crypto \<Rightarrow> string \<Rightarrow> create_promo_request \<Rightarrow> (nat \<Rightarrow> nat \<Rightarrow> nat) \<Rightarrow> datetime \<Rightarrow> db \<Rightarrow> promo_view reply \<times> db"
where
  "create_promo_code K token req draws now d =
     (case require_admin K token now of
        Inl err \<Rightarrow> (Done (Inl err), d)
      | Inr _ \<Rightarrow>
          if \<not> promo_request_ok req then (Done (Inl (http 422 ''validation'')), d)
          else
            (case wanted_code req draws d of
               Raised \<Rightarrow> (Raised, d)
             | Done (Inl err) \<Rightarrow> (Done (Inl err), d)
             | Done (Inr c) \<Rightarrow>
                 if promo_of d c \<noteq> None then (Done (Inl (http 409 ''That code already exists'')), d)
                 else if (case cp_expires_at req of None \<Rightarrow> False | Some t \<Rightarrow> t \<le> now)
                   then (Done (Inl (http 400 ''That expiry is in the past'')), d)
                 else
                   let (i, d1) = new_uuid d;
                       promo = \<lparr>pc_id = i, code = c, owner_user_id = None,
                                discount_percent = cp_discount_percent req, max_uses = cp_max_uses req,
                                pc_is_active = True, pc_expires_at = cp_expires_at req, pc_created_at = now,
                                pc_note = cp_note req\<rparr>;
                       d2 = d1\<lparr>promo_codes := promo_codes d1 @ [promo]\<rparr>
                   in (Done (Inr (promo_describe d2 promo)), d2)))"

definition put_promo :: "promo_code \<Rightarrow> db \<Rightarrow> db" where
  "put_promo p d = d\<lparr>promo_codes := update_where (\<lambda>x. pc_id x = pc_id p) (\<lambda>_. p) (promo_codes d)\<rparr>"

definition deactivate_promo_code ::
  "crypto \<Rightarrow> string \<Rightarrow> string \<Rightarrow> datetime \<Rightarrow> db \<Rightarrow> (http_error + promo_view) \<times> db"
where
  "deactivate_promo_code K token c now d =
     (case require_admin K token now of
        Inl err \<Rightarrow> (Inl err, d)
      | Inr _ \<Rightarrow>
          (case promo_of d (upper (strip c)) of
             None \<Rightarrow> (Inl (http 404 ''No such code''), d)
           | Some p \<Rightarrow>
               let p1 = p\<lparr>pc_is_active := False\<rparr>; d1 = put_promo p1 d
               in (Inr (promo_describe d1 p1), d1)))"

subsection \<open>The bell\<close>

definition FEED_SIZE :: nat where
  "FEED_SIZE = 30"

record feed_item =
  fi_id :: string
  fi_kind :: string
  fi_text :: bell_text
  fi_link :: "string option"
  fi_created_at :: datetime
  fi_read :: bool

definition bell_describe :: "notification \<Rightarrow> feed_item" where
  "bell_describe n = \<lparr>fi_id = nt_id n, fi_kind = nt_kind n, fi_text = nt_text n, fi_link = nt_link n,
     fi_created_at = nt_created_at n, fi_read = (read_at n \<noteq> None)\<rparr>"

definition unread :: "user \<Rightarrow> db \<Rightarrow> int" where
  "unread u d = count_where (\<lambda>n. nt_user_id n = u_id u \<and> read_at n = None) (notifications d)"

text \<open>Newest first; rows of one instant by their identifier, the greater first.\<close>

definition list_notifications :: "string \<Rightarrow> db \<Rightarrow> http_error + feed_item list \<times> int" where
  "list_notifications name d =
     (case user_by_name d name of
        None \<Rightarrow> Inl (http 404 ''User not found'')
      | Some u \<Rightarrow>
          Inr (map bell_describe
                 (take FEED_SIZE (rev (sort_key (\<lambda>n. (nt_created_at n, nt_id n))
                    (filter (\<lambda>n. nt_user_id n = u_id u) (notifications d))))),
               unread u d))"

definition to_mark :: "user \<Rightarrow> string list option \<Rightarrow> notification \<Rightarrow> bool" where
  "to_mark u ids n =
     (nt_user_id n = u_id u \<and> read_at n = None \<and> (case ids of None \<Rightarrow> True | Some is \<Rightarrow> nt_id n \<in> set is))"

definition mark_read :: "string \<Rightarrow> string list option \<Rightarrow> datetime \<Rightarrow> db \<Rightarrow> (http_error + int) \<times> db" where
  "mark_read name ids now d =
     (case user_by_name d name of
        None \<Rightarrow> (Inl (http 404 ''User not found''), d)
      | Some u \<Rightarrow>
          if (case ids of None \<Rightarrow> False | Some is \<Rightarrow> length is > 100) then (Inl (http 422 ''too_long''), d)
          else (Inr (count_where (to_mark u ids) (notifications d)),
                d\<lparr>notifications := update_where (to_mark u ids) (\<lambda>n. n\<lparr>read_at := Some now\<rparr>) (notifications d)\<rparr>))"

definition broadcast_request ::
  "crypto \<Rightarrow> env \<Rightarrow> string \<Rightarrow> string \<Rightarrow> string \<Rightarrow> datetime \<Rightarrow> session \<Rightarrow> (http_error + int) \<times> session"
where
  "broadcast_request K e token title body now s =
     (case require_admin K token now of
        Inl err \<Rightarrow> (Inl err, s)
      | Inr _ \<Rightarrow>
          if title = [] \<or> length title > 120 \<or> body = [] \<or> length body > 1000 then (Inl (http 422 ''string_length''), s)
          else if strip title = [] \<or> strip body = [] then (Inl (http 422 ''Title and text are required''), s)
          else (case broadcast e (strip title) (strip body) now s of (n, s1) \<Rightarrow> (Inr n, s1)))"

subsection \<open>Support tickets\<close>

definition SUPPORT_INBOX :: "env \<Rightarrow> string" where
  "SUPPORT_INBOX e = getenv e ''SUPPORT_INBOX'' ''sovrn.support@gmail.com''"

definition CATEGORY_LABELS :: "(string \<times> string) list" where
  "CATEGORY_LABELS =
     [(''no_connect'', ''VPN won'' @ [CHR 0x27] @ ''t connect in AmneziaWG''),
      (''slow'', ''App or resource not loading / slow''),
      (''conf_file'', ''Can'' @ [CHR 0x27] @ ''t import .conf file in AmneziaWG''),
      (''other'', ''Other issue'')]"

record support_ticket =
  st_issue_type :: string
  st_os :: "string option"
  st_service :: "string option"
  st_details :: "string option"
  st_email :: string

text \<open>The letter's category, the fields that are filled in and the address to answer.\<close>

definition ticket_details :: "support_ticket \<Rightarrow> (string \<times> string) list" where
  "ticket_details t =
     [(k, the v). (k, v) \<leftarrow> [(''Operating system'', st_os t), (''Service'', st_service t), (''Description'', st_details t)], given v]"

definition ticket_category :: "support_ticket \<Rightarrow> string" where
  "ticket_category t =
     (case map_of CATEGORY_LABELS (st_issue_type t) of None \<Rightarrow> st_issue_type t | Some l \<Rightarrow> l)"

definition over :: "nat \<Rightarrow> string option \<Rightarrow> bool" where
  "over n v = (case v of None \<Rightarrow> False | Some s \<Rightarrow> length s > n)"

definition submit_ticket ::
  "env \<Rightarrow> (string \<Rightarrow> string option) \<Rightarrow> string \<Rightarrow> support_ticket \<Rightarrow> int \<Rightarrow> limits \<Rightarrow> outbox \<Rightarrow>
   (http_error + string) \<times> limits \<times> outbox"
where
  "submit_ticket e email_str ip t clk L out =
     (if length (st_issue_type t) > 32 \<or> over 100 (st_os t) \<or> over 200 (st_service t) \<or> over 4000 (st_details t) \<or>
         email_str (st_email t) = None
      then (Inl (http 422 ''validation''), L, out)
      else
        case limited SUPPORT_PER_IP SUPPORT_PER_IP_update ip clk L of
          (Some err, L1) \<Rightarrow> (Inl err, L1, out)
        | (None, L1) \<Rightarrow>
            (Inr ''Ticket received'', L1,
             out\<lparr>letters := letters out @
               [SupportTicket (SUPPORT_INBOX e) (ticket_category t) (ticket_details t) (the (email_str (st_email t)))]\<rparr>))"

subsection \<open>Lemmas\<close>

text \<open>
  What holds of the table of codes: identifiers and codes are unique, no discount is above 60 per
  cent, and a customer has at most one active code of their own.
\<close>

definition promo_ok :: "db \<Rightarrow> bool" where
  "promo_ok d =
     (distinct (map pc_id (promo_codes d)) \<and> distinct (map code (promo_codes d)) \<and> discounts_ok d \<and>
      unique_on (\<lambda>p. if pc_is_active p then owner_user_id p else None) (promo_codes d))"

definition fresh_promo_id :: "db \<Rightarrow> bool" where
  "fresh_promo_id d = (fst (new_uuid d) \<notin> pc_id ` set (promo_codes d))"

lemma discounts_ok_map: "discounts_ok d = list_all (\<lambda>n. 0 \<le> n \<and> n \<le> 60) (map discount_percent (promo_codes d))"
  by (simp add: discounts_ok_def list.pred_map comp_def)

lemma promo_of_None: "promo_of d c = None \<longleftrightarrow> c \<notin> code ` set (promo_codes d)"
  by (auto simp: promo_of_def find_None_iff)

lemma code_for_None:
  "code_for d u = None \<longleftrightarrow> (\<forall>p\<in>set (promo_codes d). pc_is_active p \<longrightarrow> owner_user_id p \<noteq> Some (u_id u))"
  by (auto simp: code_for_def find_None_iff)

lemma promo_ok_add:
  assumes "promo_ok d" and "promo_codes d' = promo_codes d @ [p]" and "pc_id p \<notin> pc_id ` set (promo_codes d)"
    and "code p \<notin> code ` set (promo_codes d)" and "0 \<le> discount_percent p" and "discount_percent p \<le> 60"
    and "\<And>o'. owner_user_id p = Some o' \<Longrightarrow> \<forall>x\<in>set (promo_codes d). pc_is_active x \<longrightarrow> owner_user_id x \<noteq> Some o'"
  shows "promo_ok d'"
  using assms by (auto simp: promo_ok_def discounts_ok_def unique_on_append_single)

lemma try_codes_unused: "try_codes d draws = Inr c \<Longrightarrow> promo_of d c = None"
  by (induction d draws rule: try_codes.induct) (auto split: option.splits)

lemma create_referral_ok:
  assumes "create_referral name draws now d = (r, d')" and "promo_ok d" and "fresh_promo_id d"
  shows "promo_ok d' \<and> set (promo_codes d) \<subseteq> set (promo_codes d')"
proof -
  have "d' = d \<or> (\<exists>u c p. user_by_name d name = Some u \<and> code_for d u = None \<and> promo_of d c = None \<and>
    promo_codes d' = promo_codes d @ [p] \<and> pc_id p = fst (new_uuid d) \<and> code p = c \<and>
    discount_percent p = DEFAULT_DISCOUNT_PERCENT \<and> owner_user_id p = Some (u_id u))"
    using assms(1) unfolding create_referral_def issue_code_def Let_def
    by (auto split: option.splits if_splits sum.splits prod.splits
        simp: unused_code_def new_uuid_def dest: try_codes_unused)
  then show ?thesis
  proof (elim disjE exE conjE)
    fix u c p
    assume a: "code_for d u = None" "promo_of d c = None" "promo_codes d' = promo_codes d @ [p]" "pc_id p = fst (new_uuid d)"
      "code p = c" "discount_percent p = DEFAULT_DISCOUNT_PERCENT" "owner_user_id p = Some (u_id u)"
    have "promo_ok d'"
      by (rule promo_ok_add [OF assms(2) a(3)])
        (use a assms(3) in \<open>auto simp: fresh_promo_id_def promo_of_None code_for_None DEFAULT_DISCOUNT_PERCENT_def\<close>)
    then show ?thesis using a(3) by auto
  qed (use assms(2) in simp)
qed

lemma create_promo_code_ok:
  assumes "create_promo_code K token req draws now d = (r, d')" and "promo_ok d" and "fresh_promo_id d"
  shows "promo_ok d' \<and> set (promo_codes d) \<subseteq> set (promo_codes d')"
proof -
  have "d' = d \<or> (\<exists>p. promo_of d (code p) = None \<and> promo_request_ok req \<and>
    promo_codes d' = promo_codes d @ [p] \<and> pc_id p = fst (new_uuid d) \<and>
    discount_percent p = cp_discount_percent req \<and> owner_user_id p = None)"
    using assms(1) unfolding create_promo_code_def Let_def
    by (auto split: option.splits if_splits sum.splits prod.splits outcome.splits simp: new_uuid_def)
  then show ?thesis
  proof (elim disjE exE conjE)
    fix p
    assume a: "promo_of d (code p) = None" "promo_request_ok req" "promo_codes d' = promo_codes d @ [p]"
      "pc_id p = fst (new_uuid d)" "discount_percent p = cp_discount_percent req" "owner_user_id p = None"
    have "promo_ok d'"
      by (rule promo_ok_add [OF assms(2) a(3)])
        (use a assms(3) in \<open>auto simp: fresh_promo_id_def promo_of_None promo_request_ok_def MAX_DISCOUNT_PERCENT_def\<close>)
    then show ?thesis using a(3) by auto
  qed (use assms(2) in simp)
qed

lemma put_promo_same_key:
  assumes "distinct (map pc_id (promo_codes d))" and "p \<in> set (promo_codes d)" and "pc_id p' = pc_id p" and "f p' = f p"
  shows "map f (promo_codes (put_promo p' d)) = map f (promo_codes d)"
proof -
  have "x = p" if "x \<in> set (promo_codes d)" "pc_id x = pc_id p'" for x
    using that assms by (metis distinct_map_eqD)
  with assms(4) show ?thesis by (auto simp: put_promo_def update_where_def)
qed

lemma deactivate_promo_code_ok:
  assumes "deactivate_promo_code K token c now d = (r, d')" and ok: "promo_ok d"
  shows "promo_ok d'" and "map code (promo_codes d') = map code (promo_codes d)"
    and "r = Inr v \<Longrightarrow> \<exists>p. promo_of d' (pv_code v) = Some p \<and> \<not> pc_is_active p"
proof -
  have ids: "distinct (map pc_id (promo_codes d))" using ok by (simp add: promo_ok_def)
  have "(d' = d \<and> (\<forall>v. r \<noteq> Inr v)) \<or> (\<exists>p. promo_of d (upper (strip c)) = Some p \<and> d' = put_promo (p\<lparr>pc_is_active := False\<rparr>) d \<and>
      r = Inr (promo_describe d' (p\<lparr>pc_is_active := False\<rparr>)))"
    using assms(1) unfolding deactivate_promo_code_def Let_def by (auto split: sum.splits option.splits)
  then have "promo_ok d' \<and> map code (promo_codes d') = map code (promo_codes d) \<and>
    (\<forall>v. r = Inr v \<longrightarrow> (\<exists>p. promo_of d' (pv_code v) = Some p \<and> \<not> pc_is_active p))"
  proof (elim disjE exE conjE)
    fix p :: promo_code
    let ?p = "p\<lparr>pc_is_active := False\<rparr>"
    assume a: "promo_of d (upper (strip c)) = Some p" "d' = put_promo ?p d" "r = Inr (promo_describe d' ?p)"
    note p = promo_of_SomeD [OF a(1)]
    note same = put_promo_same_key [OF ids, of p ?p, folded a(2)]
    have codes: "map code (promo_codes d') = map code (promo_codes d)" using p by (intro same) simp_all
    have "map discount_percent (promo_codes d') = map discount_percent (promo_codes d)" using p by (intro same) simp_all
    then have disc: "discounts_ok d'"
      using ok unfolding promo_ok_def discounts_ok_map by simp
    have "unique_on (\<lambda>p. if pc_is_active p then owner_user_id p else None) (promo_codes d')"
      using unique_on_update [of pc_id "promo_codes d" "\<lambda>p. if pc_is_active p then owner_user_id p else None" ?p] ids ok
      by (simp add: a(2) put_promo_def promo_ok_def)
    moreover have "map pc_id (promo_codes d') = map pc_id (promo_codes d)" using p by (intro same) simp_all
    ultimately have ok': "promo_ok d'" using ok codes disc by (simp add: promo_ok_def)
    have "?p \<in> set (promo_codes d')" using p by (auto simp: a(2) put_promo_def set_update_where image_iff)
    then have "promo_of d' (code ?p) \<noteq> None" unfolding promo_of_None by (metis imageI)
    then obtain q where q: "promo_of d' (code ?p) = Some q" by blast
    then have "q = ?p"
      using ok' promo_of_SomeD [OF q] \<open>?p \<in> set (promo_codes d')\<close> distinct_map_eqD [of code "promo_codes d'" q ?p]
      by (simp add: promo_ok_def)
    with q have "promo_of d' (code p) = Some ?p" by simp
    with ok' codes a(3) show ?thesis by (simp add: promo_describe_def)
  qed (use ok in auto)
  then show "promo_ok d'" "map code (promo_codes d') = map code (promo_codes d)"
    "r = Inr v \<Longrightarrow> \<exists>p. promo_of d' (pv_code v) = Some p \<and> \<not> pc_is_active p" by blast+
qed

text \<open>Marking everything read leaves nothing unread, counts what was, and touches no other feed.\<close>

lemma mark_read_clears:
  assumes "mark_read name None now d = (Inr n, d')"
  obtains u where "user_by_name d name = Some u" "n = unread u d" "unread u d' = 0"
    "filter (\<lambda>m. nt_user_id m \<noteq> u_id u) (notifications d') = filter (\<lambda>m. nt_user_id m \<noteq> u_id u) (notifications d)"
proof -
  obtain u where u: "user_by_name d name = Some u" "n = count_where (to_mark u None) (notifications d)"
    "d' = d\<lparr>notifications := update_where (to_mark u None) (\<lambda>n. n\<lparr>read_at := Some now\<rparr>) (notifications d)\<rparr>"
    using assms by (auto simp: mark_read_def split: option.splits)
  have "to_mark u None = (\<lambda>n. nt_user_id n = u_id u \<and> read_at n = None)" by (auto simp: to_mark_def)
  then have "n = unread u d" by (simp add: u(2) unread_def)
  moreover have "unread u d' = 0"
    unfolding unread_def u(3) count_where_0_iff by (auto simp: update_where_def to_mark_def)
  moreover have "filter (\<lambda>m. nt_user_id m \<noteq> u_id u) (update_where (to_mark u None) (\<lambda>n. n\<lparr>read_at := Some now\<rparr>) ms) =
      filter (\<lambda>m. nt_user_id m \<noteq> u_id u) ms" for ms
    by (induction ms) (auto simp: update_where_def to_mark_def)
  ultimately show thesis using u by (intro that) simp_all
qed

subsection \<open>The properties\<close>

text \<open>
  C9: Whatever customers and the operator do with codes, codes stay unique, no discount exceeds 60
  per cent and no customer holds two active codes; no code is ever removed; and a code that was
  switched off is refused from then on.
\<close>

theorem promo_codes_stay_sound:
  assumes ok: "promo_ok d" and fresh: "fresh_promo_id d"
  shows "promo_ok (snd (create_referral name draws now d)) \<and> promo_ok (snd (create_promo_code K token req draws now d)) \<and>
    promo_ok (snd (deactivate_promo_code K token c now d)) \<and>
    code ` set (promo_codes d) \<subseteq> code ` set (promo_codes (snd (create_referral name draws now d))) \<and>
    code ` set (promo_codes d) \<subseteq> code ` set (promo_codes (snd (create_promo_code K token req draws now d))) \<and>
    code ` set (promo_codes d) = code ` set (promo_codes (snd (deactivate_promo_code K token c now d))) \<and>
    (\<forall>v c' buyer t. fst (deactivate_promo_code K token c now d) = Inr v \<and> upper (strip c') = pv_code v \<and> c' \<noteq> [] \<longrightarrow>
       resolve_code (snd (deactivate_promo_code K token c now d)) (Some c') buyer t = (None, Some ''inactive''))"
proof -
  note r = create_referral_ok [OF prod.collapse [symmetric] ok fresh, of name draws now]
  note p = create_promo_code_ok [OF prod.collapse [symmetric] ok fresh, of K token req draws now]
  note x = deactivate_promo_code_ok [OF prod.collapse [symmetric] ok, of K token c now]
  have "resolve_code (snd (deactivate_promo_code K token c now d)) (Some c') buyer t = (None, Some ''inactive'')"
    if "fst (deactivate_promo_code K token c now d) = Inr v" "upper (strip c') = pv_code v" "c' \<noteq> []" for v c' buyer t
    using x(3) [OF that(1)] that(2,3) by (auto simp: resolve_code_def given_def)
  moreover have "code ` set (promo_codes d) = code ` set (promo_codes (snd (deactivate_promo_code K token c now d)))"
    using arg_cong [OF x(2), of set] by simp
  ultimately show ?thesis using r p x(1) by blast
qed

definition sample_codes :: db where
  "sample_codes = empty_db\<lparr>users := [(sample_user ''bob'')\<lparr>is_subscribed := True, subscribed_until := Some 9\<rparr>],
     promo_codes := [sample_promo ''SEPT15'' None 15]\<rparr>"

theorem promo_codes_stay_sound_witness:
  "promo_ok sample_codes \<and> fresh_promo_id sample_codes \<and>
   promo_ok (snd (create_referral ''bob'' (\<lambda>a i. a) 5 sample_codes)) \<and>
   length (promo_codes (snd (create_referral ''bob'' (\<lambda>a i. a) 5 sample_codes))) = 2 \<and>
   resolve_code (snd (deactivate_promo_code plain_crypto ''op/admin'' ''sept15'' 0 sample_codes)) (Some '' sept15'') (sample_user ''eve'') 0 =
     (None, Some ''inactive'')"
proof -
  have ok: "promo_ok sample_codes" "fresh_promo_id sample_codes" by code_simp+
  have n: "length (promo_codes (snd (create_referral ''bob'' (\<lambda>a i. a) 5 sample_codes))) = 2" by code_simp
  have "case fst (deactivate_promo_code plain_crypto ''op/admin'' ''sept15'' 0 sample_codes) of Inr v \<Rightarrow> pv_code v = upper (strip '' sept15'') | Inl _ \<Rightarrow> False"
    by code_simp
  then obtain v where v: "fst (deactivate_promo_code plain_crypto ''op/admin'' ''sept15'' 0 sample_codes) = Inr v"
    "upper (strip '' sept15'') = pv_code v"
    by (auto split: sum.splits)
  note all = promo_codes_stay_sound [OF ok]
  have "resolve_code (snd (deactivate_promo_code plain_crypto ''op/admin'' ''sept15'' 0 sample_codes)) (Some '' sept15'') (sample_user ''eve'') 0 =
      (None, Some ''inactive'')"
    using all [THEN conjunct2, THEN conjunct2, THEN conjunct2, THEN conjunct2, THEN conjunct2, THEN conjunct2, rule_format,
        of plain_crypto "''op/admin''" "''sept15''" 0 v "'' sept15''" "sample_user ''eve''" 0] v by simp
  with all [THEN conjunct1, of "''bob''" "\<lambda>a i. a" 5] ok n show ?thesis by simp
qed

end
