(* ===== verification/Bot.thy ===== *)
theory Bot
  imports Payments Clientarea
begin

section \<open>The customers' bot (\<open>api/telegram.py\<close>, \<open>services/telegram.py\<close>)\<close>

text \<open>
  What the bot does with an update: linking, the menu card and its screens, and support, where a
  customer's text goes to the operator's chat and the operator's reply goes back.  Texts are values
  of \<open>say\<close> and \<open>caption\<close> that name their wording and carry what is filled in; a button is known by
  what it opens.  Telegram is the argument \<open>net\<close>: its answer to the call of a number.
\<close>

subsection \<open>What the bot says\<close>

datatype button =
    WebApp string
  | Callback string
  | Link string
  | ShareLink string int

datatype account_state = ActiveUntil string | TrialUntil string | NoAccess

datatype sub_text =
    SubTrial string
  | SubNone
  | SubPlan param string "(string \<times> int) list"

datatype invite_text = InviteNeedsSubscription | InviteLink string int int

datatype caption =
    NewcomerCard string
  | HomeCard string account_state string
  | StatusCard
  | HelpCard
  | NotLinkedCard
  | SubCard sub_text
  | InviteCard invite_text
  | WithNote link_answer caption

datatype who = Customer string "string option" | Stranger string

datatype say =
    ChatId int
  | RenewOnSite
  | TextOnly
  | LooksLikeConfig
  | SupportOff
  | TooMany
  | Undelivered
  | Received
  | ForOperator who string
  | HowToReply
  | FromSupport string
  | Delivered
  | NotDelivered
  | MenuText caption

datatype bot_call =
    SendMessage int say "button list list"
  | SendAnimation int string caption "button list list"
  | EditCaption int int caption "button list list"
  | EditText int int caption "button list list"
  | AnswerCallback string
  | RemoveKeyboard int
  | DeleteMessage int int

text \<open>An answer: the message's identifier and, for an animation, its file; or a description.\<close>

datatype bot_answer = Accepted int "string option" | Refused string

record bot =
  b_db :: db
  support_seen :: "int \<Rightarrow> datetime list"
  banner_id :: "string option"
  calls_made :: "bot_call list"

subsection \<open>The Bot API (\<open>services/telegram.py\<close>)\<close>

type_synonym tg_net = "nat \<Rightarrow> bot_call \<Rightarrow> bot_answer"

definition tg_call :: "env \<Rightarrow> tg_net \<Rightarrow> bot_call \<Rightarrow> bot \<Rightarrow> bot_answer \<times> bot" where
  "tg_call e net c b =
     (if \<not> tg_enabled e then (Refused ''bot is off'', b)
      else (net (length (calls_made b)) c, b\<lparr>calls_made := calls_made b @ [c]\<rparr>))"

definition tg_send :: "env \<Rightarrow> tg_net \<Rightarrow> int \<Rightarrow> say \<Rightarrow> button list list \<Rightarrow> bot \<Rightarrow> int option \<times> bot" where
  "tg_send e net chat txt buttons b =
     (case tg_call e net (SendMessage chat txt buttons) b of
        (Refused _, b1) \<Rightarrow> (None, b1)
      | (Accepted mid _, b1) \<Rightarrow> (Some mid, b1))"

definition SITE :: "env \<Rightarrow> string" where
  "SITE e = rstrip_slash (PORTAL_BASE_URL e)"

definition banner_url :: "env \<Rightarrow> string" where
  "banner_url e = SITE e @ ''/static/bot-banner.mp4''"

definition send_menu :: "env \<Rightarrow> tg_net \<Rightarrow> int \<Rightarrow> caption \<Rightarrow> button list list \<Rightarrow> bot \<Rightarrow> int option \<times> bot" where
  "send_menu e net chat cap buttons b =
     (let anim = (if given (banner_id b) then the (banner_id b) else banner_url e) in
      case tg_call e net (SendAnimation chat anim cap buttons) b of
        (Accepted mid fid, b1) \<Rightarrow> (Some mid, b1\<lparr>banner_id := (if given fid then fid else banner_id b1)\<rparr>)
      | (Refused _, b1) \<Rightarrow> tg_send e net chat (MenuText cap) buttons b1)"

definition edit_menu :: "env \<Rightarrow> tg_net \<Rightarrow> int \<Rightarrow> int \<Rightarrow> caption \<Rightarrow> button list list \<Rightarrow> bot \<Rightarrow> bot" where
  "edit_menu e net chat mid cap buttons b =
     (let (r, b1) = tg_call e net (EditCaption chat mid cap buttons) b;
          (r2, b2) = (case r of
             Refused why \<Rightarrow>
               if contains (lower why) ''no caption'' then tg_call e net (EditText chat mid cap buttons) b1 else (r, b1)
           | Accepted _ _ \<Rightarrow> (r, b1))
      in case r2 of
           Accepted _ _ \<Rightarrow> b2
         | Refused why \<Rightarrow> if contains why ''not modified'' then b2 else snd (send_menu e net chat cap buttons b2))"

definition answer_callback :: "env \<Rightarrow> tg_net \<Rightarrow> string \<Rightarrow> bot \<Rightarrow> bot" where
  "answer_callback e net i b = snd (tg_call e net (AnswerCallback i) b)"

definition drop_keyboard :: "env \<Rightarrow> tg_net \<Rightarrow> int \<Rightarrow> bot \<Rightarrow> bot" where
  "drop_keyboard e net chat b =
     (case tg_call e net (RemoveKeyboard chat) b of
        (Accepted mid _, b1) \<Rightarrow> snd (tg_call e net (DeleteMessage chat mid) b1)
      | (Refused _, b1) \<Rightarrow> b1)"

subsection \<open>The screens\<close>

definition utf8 :: "nat list \<Rightarrow> string" where
  "utf8 = map char_of"

text \<open>\<open>_esc\<close>: three replacements, one after another.\<close>

definition replace_char :: "char \<Rightarrow> string \<Rightarrow> string \<Rightarrow> string" where
  "replace_char c t s = concat (map (\<lambda>x. if x = c then t else [x]) s)"

definition esc :: "string \<Rightarrow> string" where
  "esc s = replace_char CHR ''>'' ''&gt;'' (replace_char CHR ''<'' ''&lt;'' (replace_char CHR ''&'' ''&amp;'' s))"

text \<open>\<open>urllib.parse.quote\<close>.\<close>

definition hex_upper :: "nat \<Rightarrow> char" where
  "hex_upper n = ''0123456789ABCDEF'' ! (n mod 16)"

definition url_quote :: "string \<Rightarrow> string" where
  "url_quote s = concat (map (\<lambda>c. if is_letter c \<or> is_digit c \<or> c \<in> set ''_.-~/'' then [c]
     else [CHR ''%'', hex_upper (of_char c div 16), hex_upper (of_char c)]) s)"

definition app_button :: "env \<Rightarrow> string \<Rightarrow> string \<Rightarrow> button" where
  "app_button e page query = WebApp (SITE e @ ''/app?tg=1'' @ query @ (if page \<noteq> [] then ''#'' @ page else []))"

definition BACK :: "button list list" where
  "BACK = [[Callback ''m:home'']]"

definition CHANNEL :: string where
  "CHANNEL = ''https://t.me/sov3r3ign_net''"

text \<open>\<open>%d.%m.%Y %H:%M\<close> and \<open>%d.%m %H:%M\<close> in Moscow time.\<close>

definition msk_minute :: "datetime \<Rightarrow> string" where
  "msk_minute t = strftime_day_minute t '' '' []"

definition msk_date_minute :: "datetime \<Rightarrow> string" where
  "msk_date_minute t = strftime_date t @ drop 5 (msk_minute t)"

definition subscription_text :: "db \<Rightarrow> user \<Rightarrow> datetime \<Rightarrow> sub_text" where
  "subscription_text d u now =
     (if \<not> has_active_subscription u now
      then (case trial_until u of
              Some t \<Rightarrow> if t > now then SubTrial (msk_date_minute t) else SubNone
            | None \<Rightarrow> SubNone)
      else
        let title = (case plan_info (u_plan u) of
               Some p \<Rightarrow> PPlan (tier p) (plan_days p) ''ru''
             | None \<Rightarrow> PStr (if given (u_plan u) then the (u_plan u) else utf8 [226, 128, 148]));
            locs = map (\<lambda>c. if c_location c = [] then ''de'' else c_location c)
                     (filter (\<lambda>c. c_user_id c = u_id u \<and> c_is_active c) (configs d))
        in SubPlan title (strftime_date (the (subscribed_until u)))
             (map (\<lambda>k. (k, int (length (filter (\<lambda>l. l = k) locs)))) (sort (remdups locs))))"

definition invite :: "env \<Rightarrow> (nat \<Rightarrow> nat \<Rightarrow> nat) \<Rightarrow> user \<Rightarrow> datetime \<Rightarrow> db \<Rightarrow>
  (invite_text \<times> button list list) outcome \<times> db"
where
  "invite e draws u now d =
     (if \<not> has_active_subscription u now then (Done (InviteNeedsSubscription, []), d)
      else case issue_code d u draws now of
        Inl _ \<Rightarrow> (Raised, d)
      | Inr (promo, d1) \<Rightarrow>
          let link = SITE e @ ''/?ref='' @ code promo
          in (Done (InviteLink link (discount_percent promo) REFERRAL_REWARD_DAYS,
                    [[ShareLink link (discount_percent promo)]]), d1))"

text \<open>The first name of the greeting is escaped; an empty one greets without a name.\<close>

definition home :: "env \<Rightarrow> int \<Rightarrow> string \<Rightarrow> string \<Rightarrow> datetime \<Rightarrow> db \<Rightarrow> caption \<times> button list list" where
  "home e chat first ref now d =
     (case user_by_chat d chat of
        None \<Rightarrow>
          let q = (if ref \<noteq> [] then ''&ref='' @ url_quote ref else [])
          in (NewcomerCard (esc first),
              [[app_button e [] (''&trial=1'' @ q)], [app_button e [] ''&login=1''],
               [Callback ''m:status'', Callback ''m:help'']])
      | Some u \<Rightarrow>
          let (st, pay) =
                (if has_active_subscription u now
                 then (ActiveUntil (strftime_date (the (subscribed_until u))), Callback ''m:sub'')
                 else case trial_until u of
                   Some t \<Rightarrow> if t > now then (TrialUntil (msk_minute t), app_button e ''payment'' [])
                             else (NoAccess, app_button e ''payment'' [])
                 | None \<Rightarrow> (NoAccess, app_button e ''payment'' []))
          in (HomeCard (esc first) st (esc (username u)),
              [[app_button e ''config'' []], [pay, Callback ''m:invite''],
               [Callback ''m:status'', Callback ''m:help''], [app_button e ''connect'' []]]))"

definition screen :: "env \<Rightarrow> (nat \<Rightarrow> nat \<Rightarrow> nat) \<Rightarrow> int \<Rightarrow> string \<Rightarrow> string \<Rightarrow> datetime \<Rightarrow> bot \<Rightarrow>
  (caption \<times> button list list) outcome \<times> bot"
where
  "screen e draws chat scr first now b =
     (if scr = ''status'' then (Done (StatusCard, [Link CHANNEL] # BACK), b)
      else if scr = ''help'' then (Done (HelpCard, BACK), b)
      else if scr = ''sub'' \<or> scr = ''invite'' then
        (case user_by_chat (b_db b) chat of
           None \<Rightarrow> (Done (NotLinkedCard, BACK), b)
         | Some u \<Rightarrow>
             if scr = ''sub''
             then (Done (SubCard (subscription_text (b_db b) u now), [app_button e ''payment'' []] # BACK), b)
             else (case invite e draws u now (b_db b) of
                     (Raised, _) \<Rightarrow> (Raised, b)
                   | (Done (txt, share), d1) \<Rightarrow> (Done (InviteCard txt, share @ BACK), b\<lparr>b_db := d1\<rparr>)))
      else (Done (home e chat first [] now (b_db b)), b))"

definition send_screen :: "env \<Rightarrow> tg_net \<Rightarrow> (nat \<Rightarrow> nat \<Rightarrow> nat) \<Rightarrow> int \<Rightarrow> string \<Rightarrow> string \<Rightarrow> link_answer option \<Rightarrow>
  datetime \<Rightarrow> bot \<Rightarrow> bot"
where
  "send_screen e net draws chat scr first note now b =
     (case screen e draws chat scr first now b of
        (Raised, b1) \<Rightarrow> b1
      | (Done (cap, buttons), b1) \<Rightarrow>
          snd (send_menu e net chat (case note of None \<Rightarrow> cap | Some n \<Rightarrow> WithNote n cap) buttons b1))"

subsection \<open>Support\<close>

definition SUPPORT_LIMIT :: nat where
  "SUPPORT_LIMIT = 10"

definition SUPPORT_WINDOW :: timedelta where
  "SUPPORT_WINDOW = seconds 3600"

text \<open>\<open>clk\<close> is the monotonic clock.\<close>

definition support_allowed :: "int \<Rightarrow> datetime \<Rightarrow> bot \<Rightarrow> bool \<times> bot" where
  "support_allowed chat clk b =
     (let q = dropWhile (\<lambda>t. t < clk - SUPPORT_WINDOW) (support_seen b chat) in
      if SUPPORT_LIMIT \<le> length q then (False, b\<lparr>support_seen := (support_seen b)(chat := q)\<rparr>)
      else (True, b\<lparr>support_seen := (support_seen b)(chat := q @ [clk])\<rparr>))"

text \<open>\<open>int(os.getenv("TG_ADMIN_CHAT_ID") or 0) or None\<close>; a value that is no number stops the import.\<close>

definition TG_ADMIN_CHAT_ID :: "env \<Rightarrow> int option" where
  "TG_ADMIN_CHAT_ID e =
     (case py_int (getenv e ''TG_ADMIN_CHAT_ID'' []) of None \<Rightarrow> None | Some n \<Rightarrow> if n = 0 then None else Some n)"

text \<open>\<open>text[:n]\<close> of a text in UTF-8.\<close>

fun utf8_take :: "nat \<Rightarrow> string \<Rightarrow> string" where
  "utf8_take n [] = []"
| "utf8_take n (c # s) =
     (if 128 \<le> (of_char c :: nat) \<and> (of_char c :: nat) < 192 then c # utf8_take n s
      else case n of 0 \<Rightarrow> [] | Suc m \<Rightarrow> c # utf8_take m s)"

text \<open>The answer for the customer; a second row with the same message would break the unique column.\<close>

definition to_support :: "env \<Rightarrow> tg_net \<Rightarrow> int \<Rightarrow> string \<Rightarrow> string \<Rightarrow> datetime \<Rightarrow> datetime \<Rightarrow> bot \<Rightarrow> say outcome \<times> bot" where
  "to_support e net chat from_name txt now clk b =
     (case TG_ADMIN_CHAT_ID e of
        None \<Rightarrow> (Done SupportOff, b)
      | Some admin \<Rightarrow>
          (case support_allowed chat clk b of
             (False, b1) \<Rightarrow> (Done TooMany, b1)
           | (True, b1) \<Rightarrow>
               let w = (case user_by_chat (b_db b1) chat of
                          Some u \<Rightarrow> Customer (username u) (if given (u_plan u) then u_plan u else None)
                        | None \<Rightarrow> Stranger from_name)
               in case tg_send e net admin (ForOperator w (utf8_take 3500 txt)) [] b1 of
                    (None, b2) \<Rightarrow> (Done Undelivered, b2)
                  | (Some mid, b2) \<Rightarrow>
                      let d = b_db b2; rows = telegram_supports d in
                      if list_ex (\<lambda>r. admin_message_id r = mid) rows then (Raised, b2)
                      else (Done Received,
                            b2\<lparr>b_db := d\<lparr>telegram_supports := rows @
                              [\<lparr>ts_id = int (length rows) + 1, admin_message_id = mid, user_chat_id = chat, ts_created_at = now\<rparr>]\<rparr>\<rparr>)))"

text \<open>\<open>_admin_reply\<close>: to the message with identifier \<open>to\<close>.\<close>

definition admin_reply :: "env \<Rightarrow> tg_net \<Rightarrow> int \<Rightarrow> int \<Rightarrow> string \<Rightarrow> bot \<Rightarrow> bot" where
  "admin_reply e net admin to txt b =
     (case List.find (\<lambda>r. admin_message_id r = to) (telegram_supports (b_db b)) of
        None \<Rightarrow> snd (tg_send e net admin HowToReply [] b)
      | Some row \<Rightarrow>
          let (ok, b1) = tg_send e net (user_chat_id row) (FromSupport txt) [] b
          in snd (tg_send e net admin (if ok \<noteq> None \<and> ok \<noteq> Some 0 then Delivered else NotDelivered) [] b1))"

subsection \<open>Updates\<close>

text \<open>An update as Telegram documents it; \<open>m_reply_to\<close> is the message that is answered.\<close>

record tg_message =
  m_id :: int
  m_chat :: int
  m_chat_type :: string
  m_text :: "string option"
  m_username :: "string option"
  m_first_name :: "string option"
  m_reply_to :: "int option"

record tg_callback =
  cq_id :: string
  cq_message :: "tg_message option"
  cq_data :: "string option"
  cq_first_name :: "string option"

datatype update = CallbackQuery tg_callback | Message tg_message | OtherUpdate

definition or_empty :: "string option \<Rightarrow> string" where
  "or_empty s = (case s of None \<Rightarrow> [] | Some t \<Rightarrow> t)"

definition on_callback :: "env \<Rightarrow> tg_net \<Rightarrow> (nat \<Rightarrow> nat \<Rightarrow> nat) \<Rightarrow> tg_callback \<Rightarrow> datetime \<Rightarrow> bot \<Rightarrow> bot" where
  "on_callback e net draws cq now b =
     (let b1 = answer_callback e net (cq_id cq) b; data = or_empty (cq_data cq) in
      case cq_message cq of
        None \<Rightarrow> b1
      | Some msg \<Rightarrow>
          if m_chat_type msg \<noteq> ''private'' \<or> \<not> startswith data ''m:'' then b1
          else (case screen e draws (m_chat msg) (drop 2 data) (or_empty (cq_first_name cq)) now b1 of
                  (Raised, b2) \<Rightarrow> b2
                | (Done (cap, buttons), b2) \<Rightarrow> edit_menu e net (m_chat msg) (m_id msg) cap buttons b2))"

text \<open>The old keyboard's buttons, in UTF-8.\<close>

definition B_SUB :: string where
  "B_SUB = utf8 [240, 159, 147, 139, 32, 208, 159, 208, 190, 208, 180, 208, 191, 208, 184, 209, 129, 208, 186, 208, 176]"

definition B_RENEW :: string where
  "B_RENEW = utf8 [240, 159, 146, 179, 32, 208, 159, 209, 128, 208, 190, 208, 180, 208, 187, 208, 184, 209, 130, 209, 140]"

definition B_INVITE :: string where
  "B_INVITE = utf8 [240, 159, 142, 129, 32, 208, 159, 209, 128, 208, 184, 208, 179, 208, 187, 208, 176, 209, 129, 208, 184,
     209, 130, 209, 140, 32, 208, 180, 209, 128, 209, 131, 208, 179, 208, 176]"

definition B_STATUS :: string where
  "B_STATUS = utf8 [240, 159, 147, 161, 32, 208, 161, 209, 130, 208, 176, 209, 130, 209, 131, 209, 129]"

definition B_HELP :: string where
  "B_HELP = utf8 [240, 159, 146, 172, 32, 208, 159, 208, 190, 208, 180, 208, 180, 208, 181, 209, 128, 208, 182, 208, 186, 208, 176]"

definition screens :: "(string \<times> string) list" where
  "screens = [(''/help'', ''help''), (B_HELP, ''help''), (''/status'', ''status''), (B_STATUS, ''status''),
     (''/me'', ''sub''), (B_SUB, ''sub''), (''/invite'', ''invite''), (B_INVITE, ''invite''), (''/menu'', ''home'')]"

text \<open>\<open>text.split(maxsplit=1)[1]\<close>, where there is a second part.\<close>

definition second_part :: "string \<Rightarrow> string option" where
  "second_part s =
     (let r = lstrip (dropWhile (\<lambda>c. \<not> is_space c) (lstrip s)) in if r = [] then None else Some r)"

definition on_start :: "env \<Rightarrow> tg_net \<Rightarrow> crypto \<Rightarrow> (nat \<Rightarrow> nat \<Rightarrow> nat) \<Rightarrow> int \<Rightarrow> string \<Rightarrow> string \<Rightarrow> datetime \<Rightarrow> bot \<Rightarrow> bot" where
  "on_start e net K draws chat first txt now b =
     (let b1 = drop_keyboard e net chat b in
      case second_part txt of
        Some arg \<Rightarrow>
          if \<not> startswith arg ''ref_'' then
            (case link_chat K chat arg now (b_db b1) of
               (Raised, _) \<Rightarrow> b1
             | (Done ans, d1) \<Rightarrow> send_screen e net draws chat ''home'' first (Some ans) now (b1\<lparr>b_db := d1\<rparr>))
          else (case home e chat first (drop 4 arg) now (b_db b1) of
                  (cap, buttons) \<Rightarrow> snd (send_menu e net chat cap buttons b1))
      | None \<Rightarrow>
          (case home e chat first [] now (b_db b1) of (cap, buttons) \<Rightarrow> snd (send_menu e net chat cap buttons b1)))"

definition site_button :: "env \<Rightarrow> string \<Rightarrow> button list list" where
  "site_button e page = [[WebApp (SITE e @ ''/app?tg=1#'' @ page)]]"

definition is_secret :: "string \<Rightarrow> bool" where
  "is_secret txt = (contains txt ''PrivateKey'' \<or> contains txt ''[Interface]'')"

definition on_message :: "env \<Rightarrow> tg_net \<Rightarrow> crypto \<Rightarrow> (nat \<Rightarrow> nat \<Rightarrow> nat) \<Rightarrow> tg_message \<Rightarrow> datetime \<Rightarrow> datetime \<Rightarrow> bot \<Rightarrow> bot" where
  "on_message e net K draws msg now clk b =
     (let chat = m_chat msg;
          txt = strip (or_empty (m_text msg));
          first = or_empty (m_first_name msg);
          name = (if given (m_username msg) then the (m_username msg)
                  else if given (m_first_name msg) then the (m_first_name msg) else ''?'')
      in if m_chat_type msg \<noteq> ''private'' then b
         else if TG_ADMIN_CHAT_ID e = Some chat \<and> m_reply_to msg \<noteq> None
           then admin_reply e net chat (the (m_reply_to msg)) (or_empty (m_text msg)) b
         else if startswith txt ''/start'' then on_start e net K draws chat first txt now b
         else if txt = ''/id'' then snd (tg_send e net chat (ChatId chat) [] b)
         else case map_of screens txt of
           Some scr \<Rightarrow> send_screen e net draws chat scr first None now b
         | None \<Rightarrow>
             if txt = B_RENEW \<or> txt = ''/renew''
               then snd (tg_send e net chat RenewOnSite (site_button e ''payment'') b)
             else if startswith txt ''/'' then send_screen e net draws chat ''home'' first None now b
             else if txt = [] then snd (tg_send e net chat TextOnly [] b)
             else if is_secret txt then snd (tg_send e net chat LooksLikeConfig [] b)
             else (case to_support e net chat name txt now clk b of
                     (Raised, b1) \<Rightarrow> b1
                   | (Done answer, b1) \<Rightarrow> snd (tg_send e net chat answer [] b1)))"

definition handle :: "env \<Rightarrow> tg_net \<Rightarrow> crypto \<Rightarrow> (nat \<Rightarrow> nat \<Rightarrow> nat) \<Rightarrow> update \<Rightarrow> datetime \<Rightarrow> datetime \<Rightarrow> bot \<Rightarrow> bot" where
  "handle e net K draws u now clk b =
     (case u of
        CallbackQuery cq \<Rightarrow> on_callback e net draws cq now b
      | Message msg \<Rightarrow> on_message e net K draws msg now clk b
      | OtherUpdate \<Rightarrow> b)"

definition is_ascii :: "string \<Rightarrow> bool" where
  "is_ascii s = list_all (\<lambda>c. (of_char c :: nat) < 128) s"

text \<open>\<open>POST /api/telegram/webhook\<close>; \<open>None\<close> is a body that is not JSON.  \<open>compare_digest\<close> raises on
  texts that are not ASCII; whatever else raises is logged and answered like the rest.\<close>

definition tg_webhook :: "env \<Rightarrow> tg_net \<Rightarrow> crypto \<Rightarrow> (nat \<Rightarrow> nat \<Rightarrow> nat) \<Rightarrow> string option \<Rightarrow> update option \<Rightarrow> datetime \<Rightarrow>
  datetime \<Rightarrow> bot \<Rightarrow> unit reply \<times> bot"
where
  "tg_webhook e net K draws header body now clk b =
     (let secret = getenv e ''TG_WEBHOOK_SECRET'' []; h = or_empty header in
      if secret = [] then (Done (Inl (http 403 ''forbidden'')), b)
      else if \<not> is_ascii h \<or> \<not> is_ascii secret then (Raised, b)
      else if h \<noteq> secret then (Done (Inl (http 403 ''forbidden'')), b)
      else (Done (Inr ()), case body of None \<Rightarrow> b | Some u \<Rightarrow> handle e net K draws u now clk b))"

text \<open>Updates one after another, each with the header and the instants it came with.\<close>

record delivery =
  dl_header :: "string option"
  dl_body :: "update option"
  dl_draws :: "nat \<Rightarrow> nat \<Rightarrow> nat"
  dl_now :: datetime
  dl_clk :: datetime

fun serve :: "env \<Rightarrow> tg_net \<Rightarrow> crypto \<Rightarrow> delivery list \<Rightarrow> bot \<Rightarrow> bot" where
  "serve e net K [] b = b"
| "serve e net K (x # xs) b =
     serve e net K xs (snd (tg_webhook e net K (dl_draws x) (dl_header x) (dl_body x) (dl_now x) (dl_clk x) b))"

subsection \<open>Lemmas\<close>

lemma esc_no_markup: "CHR ''<'' \<notin> set (esc s)" "CHR ''>'' \<notin> set (esc s)"
  by (auto simp: esc_def replace_char_def split: if_splits)

lemma contains_append: "contains s t \<Longrightarrow> contains (s @ r) t"
  by (auto simp: contains_iff_sublist sublist_append)

lemma utf8_take_prefix: "\<exists>r. s = utf8_take n s @ r"
  by (induction n s rule: utf8_take.induct) (auto split: nat.splits)

lemma is_secret_utf8_take: "is_secret (utf8_take n s) \<Longrightarrow> is_secret s"
  using utf8_take_prefix [of s n] contains_append unfolding is_secret_def by metis

text \<open>
  What a call may be: a customer's text goes only to the operator, and never one with a
  private key or an interface section in it.
\<close>

definition discreet :: "env \<Rightarrow> bot_call \<Rightarrow> bool" where
  "discreet e c =
     (case c of
        SendMessage chat (ForOperator _ txt) _ \<Rightarrow>
          TG_ADMIN_CHAT_ID e = Some chat \<and> \<not> contains txt ''PrivateKey'' \<and> \<not> contains txt ''[Interface]''
      | _ \<Rightarrow> True)"

definition supports_ok :: "db \<Rightarrow> bool" where
  "supports_ok d = distinct (map admin_message_id (telegram_supports d))"

text \<open>What every operation of the bot does: discreet calls, rows added to the forwarded messages, no
  device touched and accounts kept unique.\<close>

definition speaks :: "env \<Rightarrow> bot \<Rightarrow> bot \<Rightarrow> bool" where
  "speaks e b b' \<longleftrightarrow>
     (\<exists>cs. calls_made b' = calls_made b @ cs \<and> list_all (discreet e) cs) \<and>
     (\<exists>rows. telegram_supports (b_db b') = telegram_supports (b_db b) @ rows) \<and>
     (supports_ok (b_db b) \<longrightarrow> supports_ok (b_db b')) \<and>
     configs (b_db b') = configs (b_db b) \<and> (accounts_ok (b_db b) \<longrightarrow> accounts_ok (b_db b'))"

lemma speaks_refl [simp, intro]: "speaks e b b"
  by (simp add: speaks_def)

lemma speaks_trans [trans]: "speaks e b b' \<Longrightarrow> speaks e b' b'' \<Longrightarrow> speaks e b b''"
  unfolding speaks_def by (elim conjE exE) (simp add: list_all_append)

lemma speaks_same:
  assumes "calls_made b' = calls_made b" and "telegram_supports (b_db b') = telegram_supports (b_db b)"
    and "configs (b_db b') = configs (b_db b)" and "accounts_ok (b_db b) \<Longrightarrow> accounts_ok (b_db b')"
  shows "speaks e b b'"
  using assms by (simp add: speaks_def supports_ok_def)

lemma speaks_call: "discreet e c \<Longrightarrow> speaks e b (snd (tg_call e net c b))"
  by (simp add: speaks_def tg_call_def)

lemma snd_tg_send: "snd (tg_send e net chat txt bs b) = snd (tg_call e net (SendMessage chat txt bs) b)"
  by (simp add: tg_send_def split: prod.splits bot_answer.splits)

lemma speaks_send: "discreet e (SendMessage chat txt bs) \<Longrightarrow> speaks e b (snd (tg_send e net chat txt bs b))"
  by (simp add: snd_tg_send speaks_call)

lemma speaks_send_menu: "speaks e b (snd (send_menu e net chat cap bs b))"
proof -
  obtain r b1 where c: "tg_call e net (SendAnimation chat (if given (banner_id b) then the (banner_id b) else banner_url e) cap bs) b = (r, b1)"
    by fastforce
  have s: "speaks e b b1"
    using speaks_call [of e "SendAnimation chat (if given (banner_id b) then the (banner_id b) else banner_url e) cap bs" b net]
    by (simp add: c discreet_def)
  show ?thesis
  proof (cases r)
    case (Accepted mid fid)
    have "speaks e b1 (b1\<lparr>banner_id := (if given fid then fid else banner_id b1)\<rparr>)" by (rule speaks_same) simp_all
    from speaks_trans [OF s this] show ?thesis by (simp add: send_menu_def c Accepted)
  next
    case (Refused why)
    have "speaks e b1 (snd (tg_send e net chat (MenuText cap) bs b1))" by (rule speaks_send) (simp add: discreet_def)
    from speaks_trans [OF s this] show ?thesis by (simp add: send_menu_def c Refused)
  qed
qed

lemma speaks_edit_menu: "speaks e b (edit_menu e net chat mid cap bs b)"
proof -
  obtain r b1 where c: "tg_call e net (EditCaption chat mid cap bs) b = (r, b1)" by fastforce
  obtain r2 b2 where c2: "(case r of
      Refused why \<Rightarrow> if contains (lower why) ''no caption'' then tg_call e net (EditText chat mid cap bs) b1 else (r, b1)
    | Accepted _ _ \<Rightarrow> (r, b1)) = (r2, b2)" by fastforce
  have "speaks e b b1" using speaks_call [of e "EditCaption chat mid cap bs" b net] by (simp add: c discreet_def)
  also have "speaks e b1 b2"
    using c2 speaks_call [of e "EditText chat mid cap bs" b1 net] by (auto simp: discreet_def split: bot_answer.splits if_splits)
  finally have s: "speaks e b b2" .
  show ?thesis
    using speaks_trans [OF s speaks_send_menu] s by (simp add: edit_menu_def c c2 split: bot_answer.splits)
qed

lemma speaks_drop_keyboard: "speaks e b (drop_keyboard e net chat b)"
proof -
  obtain r b1 where c: "tg_call e net (RemoveKeyboard chat) b = (r, b1)" by fastforce
  have s: "speaks e b b1" using speaks_call [of e "RemoveKeyboard chat" b net] by (simp add: c discreet_def)
  have "speaks e b1 (snd (tg_call e net (DeleteMessage chat mid) b1))" for mid by (rule speaks_call) (simp add: discreet_def)
  with s show ?thesis by (auto simp: drop_keyboard_def c split: bot_answer.splits intro: speaks_trans)
qed

lemma supports_issue_code:
  "issue_code d u draws now = Inr (p, d1) \<Longrightarrow>
   telegram_supports d1 = telegram_supports d \<and> users d1 = users d \<and> configs d1 = configs d"
  by (auto simp: issue_code_def Let_def new_uuid_def split: option.splits sum.splits)

lemma supports_put_user [simp]: "telegram_supports (put_user u d) = telegram_supports d"
  by (simp add: put_user_def)

lemma supports_link_chat:
  "telegram_supports (snd (link_chat K chat token now d)) = telegram_supports d"
  "configs (snd (link_chat K chat token now d)) = configs d"
  by (auto simp: link_chat_def leave_other_def split: outcome.splits option.splits)

lemma speaks_screen: "speaks e b (snd (screen e draws chat scr first now b))"
proof (rule speaks_same)
  show "calls_made (snd (screen e draws chat scr first now b)) = calls_made b"
    by (auto simp: screen_def split: option.splits prod.splits outcome.splits)
  have "telegram_supports (b_db (snd (screen e draws chat scr first now b))) = telegram_supports (b_db b) \<and>
      users (b_db (snd (screen e draws chat scr first now b))) = users (b_db b) \<and>
      configs (b_db (snd (screen e draws chat scr first now b))) = configs (b_db b)"
    by (auto simp: screen_def invite_def Let_def
        split: option.splits prod.splits outcome.splits if_splits sum.splits dest!: supports_issue_code)
  then show "telegram_supports (b_db (snd (screen e draws chat scr first now b))) = telegram_supports (b_db b)"
    "configs (b_db (snd (screen e draws chat scr first now b))) = configs (b_db b)"
    "accounts_ok (b_db b) \<Longrightarrow> accounts_ok (b_db (snd (screen e draws chat scr first now b)))"
    by (simp_all add: accounts_ok_def)
qed

lemma speaks_send_screen: "speaks e b (send_screen e net draws chat scr first note now b)"
proof -
  obtain r b1 where c: "screen e draws chat scr first now b = (r, b1)" by fastforce
  have s: "speaks e b b1" using speaks_screen [of e b draws chat scr first now] by (simp add: c)
  show ?thesis
    using s speaks_trans [OF s speaks_send_menu] by (simp add: send_screen_def c split: outcome.splits prod.splits)
qed

lemma speaks_on_callback: "speaks e b (on_callback e net draws cq now b)"
proof -
  let ?b1 = "answer_callback e net (cq_id cq) b"
  have s: "speaks e b ?b1" unfolding answer_callback_def by (rule speaks_call) (simp add: discreet_def)
  have "speaks e ?b1 (on_callback e net draws cq now b)"
    using speaks_screen speaks_trans [OF speaks_screen speaks_edit_menu]
    by (auto simp: on_callback_def Let_def split: option.splits prod.splits outcome.splits) (metis snd_conv)+
  with s show ?thesis by (rule speaks_trans)
qed

lemma speaks_on_start: "speaks e b (on_start e net K draws chat first txt now b)"
proof -
  let ?b1 = "drop_keyboard e net chat b"
  have l: "speaks e ?b1 (?b1\<lparr>b_db := snd (link_chat K chat arg now (b_db ?b1))\<rparr>)" for arg
    by (rule speaks_same) (use link_chat_accounts_ok [of K chat arg now "b_db ?b1"] in \<open>auto simp: supports_link_chat intro: prod.collapse [symmetric]\<close>)
  have "speaks e ?b1 (on_start e net K draws chat first txt now b)"
    using speaks_send_menu speaks_trans [OF l speaks_send_screen]
    by (auto simp: on_start_def Let_def split: option.splits prod.splits outcome.splits) (metis snd_conv)+
  with speaks_drop_keyboard show ?thesis by (rule speaks_trans)
qed


lemma support_allowed_same [simp]:
  "calls_made (snd (support_allowed chat clk b)) = calls_made b" "b_db (snd (support_allowed chat clk b)) = b_db b"
  by (simp_all add: support_allowed_def Let_def)

lemma find_distinct: "distinct (map k rows) \<Longrightarrow> row \<in> set rows \<Longrightarrow> List.find (\<lambda>r. k r = k row) rows = Some row"
  by (induction rows) (auto simp: image_iff)

text \<open>How a text is handed over: what was sent, what Telegram answered, what was written down.\<close>

lemma to_support_cases:
  assumes "to_support e net chat name txt now clk b = (r, b')"
  obtains
    (kept) "r \<noteq> Done Received" "calls_made b' = calls_made b" "b_db b' = b_db b"
  | (sent) admin w b1 where "TG_ADMIN_CHAT_ID e = Some admin" "speaks e b b1" "b_db b1 = b_db b" "calls_made b1 = calls_made b"
      "r \<noteq> Done Received" "b' = snd (tg_call e net (SendMessage admin (ForOperator w (utf8_take 3500 txt)) []) b1)"
  | (recorded) admin w b1 mid f row where "TG_ADMIN_CHAT_ID e = Some admin" "speaks e b b1" "b_db b1 = b_db b" "calls_made b1 = calls_made b"
      "r = Done Received" "tg_call e net (SendMessage admin (ForOperator w (utf8_take 3500 txt)) []) b1 = (Accepted mid f, b'\<lparr>b_db := b_db b\<rparr>)"
      "mid \<notin> admin_message_id ` set (telegram_supports (b_db b))" "admin_message_id row = mid" "user_chat_id row = chat"
      "b_db b' = (b_db b)\<lparr>telegram_supports := telegram_supports (b_db b) @ [row]\<rparr>"
proof (cases "TG_ADMIN_CHAT_ID e")
  case None
  with assms kept show thesis by (auto simp: to_support_def)
next
  case (Some admin)
  obtain allowed b1 where al: "support_allowed chat clk b = (allowed, b1)" by fastforce
  have b1: "b_db b1 = b_db b" "calls_made b1 = calls_made b"
    using support_allowed_same [of chat clk b] by (simp_all add: al)
  have s: "speaks e b b1" by (rule speaks_same) (simp_all add: b1)
  show thesis
  proof (cases allowed)
    case False
    with assms al Some b1 kept show thesis by (auto simp: to_support_def)
  next
    case True
    define w where "w = (case user_by_chat (b_db b1) chat of
      Some u \<Rightarrow> Customer (username u) (if given (u_plan u) then u_plan u else None) | None \<Rightarrow> Stranger name)"
    obtain ans b2 where c: "tg_call e net (SendMessage admin (ForOperator w (utf8_take 3500 txt)) []) b1 = (ans, b2)" by fastforce
    have b2: "b_db b2 = b_db b1" using c by (auto simp: tg_call_def split: if_splits)
    show thesis
    proof (cases ans)
      case (Refused why)
      show thesis
        by (rule sent [OF Some s b1, of w]) (use assms al Some True c Refused in \<open>auto simp: to_support_def tg_send_def w_def Let_def\<close>)
    next
      case (Accepted mid f)
      show thesis
      proof (cases "list_ex (\<lambda>x. admin_message_id x = mid) (telegram_supports (b_db b2))")
        case True
        show thesis
          by (rule sent [OF Some s b1, of w])
            (use assms al Some \<open>allowed\<close> c Accepted True in \<open>auto simp: to_support_def tg_send_def w_def Let_def\<close>)
      next
        case False
        let ?row = "\<lparr>ts_id = int (length (telegram_supports (b_db b2))) + 1, admin_message_id = mid, user_chat_id = chat, ts_created_at = now\<rparr>"
        have e: "r = Done Received \<and> b' = b2\<lparr>b_db := (b_db b2)\<lparr>telegram_supports := telegram_supports (b_db b2) @ [?row]\<rparr>\<rparr>"
          using assms al Some \<open>allowed\<close> c Accepted False by (auto simp: to_support_def tg_send_def w_def Let_def)
        show thesis
          by (rule recorded [OF Some s b1, of w mid f ?row])
            (use e c Accepted b1 b2 False in \<open>auto simp: list_ex_iff\<close>)
      qed
    qed
  qed
qed

lemma speaks_to_support:
  assumes "\<not> is_secret txt"
  shows "speaks e b (snd (to_support e net chat name txt now clk b))"
proof -
  obtain r b' where r: "to_support e net chat name txt now clk b = (r, b')" by fastforce
  have d: "discreet e (SendMessage admin (ForOperator w (utf8_take 3500 txt)) [])" if "TG_ADMIN_CHAT_ID e = Some admin" for admin w
    using that assms is_secret_utf8_take [of 3500] by (auto simp: discreet_def is_secret_def)
  have "speaks e b b'"
    using r
  proof (cases rule: to_support_cases)
    case kept
    then show ?thesis by (simp add: speaks_same)
  next
    case (sent admin w b1)
    show ?thesis unfolding sent(6) by (rule speaks_trans [OF sent(2) speaks_call [OF d [OF sent(1)]]])
  next
    case (recorded admin w b1 mid f row)
    have "speaks e b (b'\<lparr>b_db := b_db b\<rparr>)"
      using speaks_trans [OF recorded(2) speaks_call [OF d [OF recorded(1), of w], of b1 net]] by (simp add: recorded(6))
    moreover have "speaks e (b'\<lparr>b_db := b_db b\<rparr>) b'"
      using recorded(7-) by (auto simp: speaks_def supports_ok_def accounts_ok_def)
    ultimately show ?thesis by (rule speaks_trans)
  qed
  then show ?thesis by (simp add: r)
qed

lemma speaks_admin_reply: "speaks e b (admin_reply e net admin to txt b)"
proof -
  have p: "discreet e (SendMessage chat HowToReply [])" "discreet e (SendMessage chat (FromSupport txt) [])"
    "discreet e (SendMessage chat (if c then Delivered else NotDelivered) [])" for chat c
    by (simp_all add: discreet_def)
  have "speaks e b (snd (tg_send e net admin (if c then Delivered else NotDelivered) [] (snd (tg_send e net chat (FromSupport txt) [] b))))" for chat c
    by (rule speaks_trans [OF speaks_send [OF p(2)] speaks_send [OF p(3)]])
  with speaks_send [OF p(1)] show ?thesis
    by (simp add: admin_reply_def Let_def case_prod_unfold split: option.split)
qed

lemma speaks_on_message: "speaks e b (on_message e net K draws msg now clk b)"
proof -
  have p: "speaks e b' (snd (tg_send e net chat x bs b'))" if "\<forall>w t. x \<noteq> ForOperator w t" for chat x bs b'
    using that by (intro speaks_send) (simp add: discreet_def split: say.splits)
  have t: "speaks e b (case to_support e net chat name s now clk b of (Raised, b1) \<Rightarrow> b1
      | (Done answer, b1) \<Rightarrow> snd (tg_send e net chat answer [] b1))" if "\<not> is_secret s" for chat name s
  proof -
    obtain r b1 where r: "to_support e net chat name s now clk b = (r, b1)" by fastforce
    have b1: "speaks e b b1" using speaks_to_support [OF that, of e b net chat name now clk] by (simp add: r)
    have "r = Done answer \<Longrightarrow> \<forall>w t. answer \<noteq> ForOperator w t" for answer
      using r by (auto simp: to_support_def Let_def split: option.splits prod.splits bool.splits if_splits)
    with b1 show ?thesis by (auto simp: r split: outcome.split intro: speaks_trans [OF b1 p])
  qed
  show ?thesis
    by (auto simp: on_message_def Let_def intro!: p t speaks_admin_reply speaks_on_start speaks_send_screen split: option.split)
qed

lemma speaks_webhook: "speaks e b (snd (tg_webhook e net K draws h u now clk b))"
  by (auto simp: tg_webhook_def Let_def handle_def intro: speaks_on_callback speaks_on_message split: option.split update.split)

lemma speaks_serve: "speaks e b (serve e net K xs b)"
  by (induction e net K xs b rule: serve.induct) (auto intro: speaks_trans speaks_webhook)

subsection \<open>The properties\<close>


text \<open>
  C35: The operator's answer reaches the customer who asked.  Once the bot has told a customer
  that their text was received, it is in the operator's chat under some message, and whatever
  happened in between, a reply to that message goes to that customer's chat, followed by a receipt
  for the operator, and nowhere else.
\<close>

theorem support_reply_comes_back:
  assumes "supports_ok (b_db b)" and "to_support e net chat name txt now clk b = (Done Received, b1)"
  shows "\<exists>admin mid w. TG_ADMIN_CHAT_ID e = Some admin \<and>
    calls_made b1 = calls_made b @ [SendMessage admin (ForOperator w (utf8_take 3500 txt)) []] \<and>
    (\<exists>f. net (length (calls_made b)) (SendMessage admin (ForOperator w (utf8_take 3500 txt)) []) = Accepted mid f) \<and>
    (\<forall>xs msg. m_chat msg = admin \<and> m_chat_type msg = ''private'' \<and> m_reply_to msg = Some mid \<longrightarrow>
       (\<exists>v\<in>{Delivered, NotDelivered}.
         calls_made (on_message e net K draws msg now' clk' (serve e net K xs b1)) =
         calls_made (serve e net K xs b1) @ [SendMessage chat (FromSupport (or_empty (m_text msg))) [], SendMessage admin v []]))"
  using assms(2)
proof (cases rule: to_support_cases)
  case (recorded admin w b0 mid f row)
  have on: "tg_enabled e" using recorded(6) by (auto simp: tg_call_def split: if_splits)
  have c: "calls_made b1 = calls_made b @ [SendMessage admin (ForOperator w (utf8_take 3500 txt)) []]"
    "net (length (calls_made b)) (SendMessage admin (ForOperator w (utf8_take 3500 txt)) []) = Accepted mid f"
    using recorded(4,6) on by (auto simp: tg_call_def dest: arg_cong [of _ _ calls_made])
  have ok: "supports_ok (b_db b1)" "row \<in> set (telegram_supports (b_db b1))"
    using assms(1) recorded(7,8,10) by (auto simp: supports_ok_def)
  have "\<exists>v\<in>{Delivered, NotDelivered}. calls_made (on_message e net K draws msg now' clk' (serve e net K xs b1)) =
      calls_made (serve e net K xs b1) @ [SendMessage chat (FromSupport (or_empty (m_text msg))) [], SendMessage admin v []]"
    if "m_chat msg = admin" "m_chat_type msg = ''private''" "m_reply_to msg = Some mid" for xs msg
  proof -
    let ?b = "serve e net K xs b1"
    have "supports_ok (b_db ?b) \<and> row \<in> set (telegram_supports (b_db ?b))"
      using speaks_serve [of e b1 net K xs] ok by (auto simp: speaks_def)
    then have "List.find (\<lambda>r. admin_message_id r = mid) (telegram_supports (b_db ?b)) = Some row"
      using find_distinct [of admin_message_id _ row] recorded(8) by (simp add: supports_ok_def)
    then show ?thesis
      using that recorded(1,9) on by (auto simp: on_message_def admin_reply_def Let_def tg_send_def tg_call_def case_prod_unfold split: bot_answer.splits)
  qed
  with recorded(1) c show ?thesis by blast
qed simp_all


definition bot_env :: env where
  "bot_env = (\<lambda>_. None)(''TG_BOT_TOKEN'' := Some ''1:a'', ''TG_ADMIN_CHAT_ID'' := Some ''7'', ''TG_WEBHOOK_SECRET'' := Some ''s3'')"

definition sample_net :: tg_net where
  "sample_net n c = Accepted (int n + 1) None"

definition empty_bot :: bot where
  "empty_bot = \<lparr>b_db = empty_db, support_seen = (\<lambda>_. []), banner_id = None, calls_made = []\<rparr>"

definition sample_message :: "int \<Rightarrow> string \<Rightarrow> int option \<Rightarrow> tg_message" where
  "sample_message chat t to = \<lparr>m_id = 3, m_chat = chat, m_chat_type = ''private'', m_text = Some t, m_username = Some ''bob'',
     m_first_name = None, m_reply_to = to\<rparr>"

definition sample_delivery :: "string \<Rightarrow> delivery" where
  "sample_delivery t = \<lparr>dl_header = Some ''s3'', dl_body = Some (Message (sample_message 5 t None)),
     dl_draws = (\<lambda>_ _. 0), dl_now = 1, dl_clk = 1\<rparr>"

lemma sample_key_text:
  "on_message bot_env net K draws (sample_message 5 ''PrivateKey = x'' None) now clk b = snd (tg_send bot_env net 5 LooksLikeConfig [] b)"
proof -
  have "strip ''PrivateKey = x'' = ''PrivateKey = x''" "map_of screens ''PrivateKey = x'' = None" "''PrivateKey = x'' \<noteq> B_RENEW"
    "is_secret ''PrivateKey = x''"
    by code_simp+
  then show ?thesis by (simp add: on_message_def sample_message_def or_empty_def startswith_def)
qed


theorem support_reply_comes_back_witness:
  "\<exists>mid v. calls_made (on_message bot_env sample_net sample_crypto (\<lambda>_ _. 0) (sample_message 7 ''try again'' (Some mid)) 2 2
       (snd (to_support bot_env sample_net 5 ''bob'' ''no internet'' 1 1 empty_bot))) =
     calls_made (snd (to_support bot_env sample_net 5 ''bob'' ''no internet'' 1 1 empty_bot)) @
       [SendMessage 5 (FromSupport ''try again'') [], SendMessage 7 v []]"
proof -
  let ?x = "to_support bot_env sample_net 5 ''bob'' ''no internet'' 1 1 empty_bot"
  have "fst ?x = Done Received" by code_simp
  then have run: "?x = (Done Received, snd ?x)" by (metis prod.collapse)
  have ok: "supports_ok (b_db empty_bot)" by (simp add: supports_ok_def empty_bot_def empty_db_def)
  have admin: "TG_ADMIN_CHAT_ID bot_env = Some 7" by code_simp
  from support_reply_comes_back [OF ok run, of sample_crypto "\<lambda>_ _. 0" 2 2]
  obtain a mid where a: "TG_ADMIN_CHAT_ID bot_env = Some a" and r: "\<forall>xs msg. m_chat msg = a \<and> m_chat_type msg = ''private'' \<and> m_reply_to msg = Some mid \<longrightarrow>
    (\<exists>v\<in>{Delivered, NotDelivered}.
       calls_made (on_message bot_env sample_net sample_crypto (\<lambda>_ _. 0) msg 2 2 (serve bot_env sample_net sample_crypto xs (snd ?x))) =
       calls_made (serve bot_env sample_net sample_crypto xs (snd ?x)) @
         [SendMessage 5 (FromSupport (or_empty (m_text msg))) [], SendMessage a v []])"
    by (elim exE conjE)
  have "a = 7" using a admin by simp
  note all = r [unfolded this, THEN spec, of "[]", THEN spec, of "sample_message 7 ''try again'' (Some mid)", unfolded serve.simps]
  have msg: "m_chat (sample_message 7 ''try again'' (Some mid)) = 7 \<and> m_chat_type (sample_message 7 ''try again'' (Some mid)) = ''private'' \<and>
      m_reply_to (sample_message 7 ''try again'' (Some mid)) = Some mid"
    and reply: "or_empty (m_text (sample_message 7 ''try again'' (Some mid))) = ''try again''"
    by (simp_all add: sample_message_def or_empty_def)
  from all [unfolded reply, THEN mp, OF msg] show ?thesis by blast
qed

end
