(* ===== verification/Peers.thy ===== *)
theory Peers
  imports Devices Sessions "HOL-Library.Multiset" "HOL-Library.AList" "HOL-Library.Product_Lexorder" "HOL-Library.List_Lexorder" "HOL-Library.Char_ord"
begin

section \<open>Peers and their names (\<open>services/net_manager.py\<close>, \<open>api/clients.py\<close>, \<open>tools/peer_reconcile.py\<close>)\<close>

text \<open>
  The administrator's list of the peers on an entry node: reading the output of \<open>awg show\<close>, naming
  each peer from the portal's devices or the operator's labels, and the labels themselves; and the
  comparison of a node with the database that the operator runs by hand.  Lower-casing names for the
  order of the list is that of ASCII letters.
\<close>

subsection \<open>Reading a node (\<open>services/net_manager.py\<close>)\<close>

record peer_status =
  ps_public_key :: string
  ps_endpoint :: string
  ps_handshake :: string
  ps_transfer :: string
  ps_allowed_ips :: string

definition new_peer :: "string \<Rightarrow> peer_status" where
  "new_peer k = \<lparr>ps_public_key = k, ps_endpoint = ''N/A'', ps_handshake = ''never'', ps_transfer = ''0 B'', ps_allowed_ips = []\<rparr>"

text \<open>\<open>line.split(": ", 1)[1]\<close>; \<open>None\<close> is the \<open>IndexError\<close>.\<close>

fun after_colon :: "string \<Rightarrow> string option" where
  "after_colon (c # d # s) = (if c = CHR '':'' \<and> d = CHR '' '' then Some s else after_colon (d # s))"
| "after_colon _ = None"

text \<open>One line of the loop; \<open>ips\<close> says whether the addresses are read too.\<close>

definition peer_line :: "bool \<Rightarrow> string \<Rightarrow> peer_status \<Rightarrow> peer_status option" where
  "peer_line ips line p =
     (if contains line ''latest handshake:'' then map_option (\<lambda>v. p\<lparr>ps_handshake := v\<rparr>) (after_colon line)
      else if contains line ''transfer:'' then map_option (\<lambda>v. p\<lparr>ps_transfer := v\<rparr>) (after_colon line)
      else if contains line ''endpoint:'' then map_option (\<lambda>v. p\<lparr>ps_endpoint := v\<rparr>) (after_colon line)
      else if ips \<and> startswith line ''allowed ips:'' then map_option (\<lambda>v. p\<lparr>ps_allowed_ips := v\<rparr>) (after_colon line)
      else Some p)"

fun read_peers :: "bool \<Rightarrow> string list \<Rightarrow> peer_status option \<Rightarrow> peer_status list option" where
  "read_peers ips [] cur = Some (case cur of None \<Rightarrow> [] | Some p \<Rightarrow> [p])"
| "read_peers ips (l # ls) cur =
     (let line = strip l in
      if startswith line ''peer:'' then
        (case after_colon line of
           None \<Rightarrow> None
         | Some k \<Rightarrow> map_option (\<lambda>ps. (case cur of None \<Rightarrow> [] | Some p \<Rightarrow> [p]) @ ps) (read_peers ips ls (Some (new_peer k))))
      else
        (case cur of
           None \<Rightarrow> read_peers ips ls None
         | Some p \<Rightarrow>
             (case peer_line ips line p of
                None \<Rightarrow> None
              | Some p1 \<Rightarrow> read_peers ips ls (Some p1))))"

definition BRIDGE_AWG_INTERFACE :: "env \<Rightarrow> string" where
  "BRIDGE_AWG_INTERFACE e = getenv e ''BRIDGE_AWG_INTERFACE'' ''awg0''"

text \<open>\<open>Inl\<close> is the error text; \<open>h\<close> is empty for the bridge.\<close>

definition get_entry_status_data :: "'w platform \<Rightarrow> string \<Rightarrow> 'w \<Rightarrow> (string + peer_status list) outcome \<times> 'w" where
  "get_entry_status_data P h w =
     (case ssh_bridge P h (''sudo pwa-awg-show '' @ BRIDGE_AWG_INTERFACE (pf_env P)) w of
        (None, w1) \<Rightarrow> (Raised, w1)
      | (Some (out, err), w1) \<Rightarrow>
          (if out = [] \<or> \<not> contains (lower out) ''interface''
           then (Done (Inl (if err \<noteq> [] then err else ''No data from '' @ (if h \<noteq> [] then h else ''Bridge''))), w1)
           else (case read_peers True (split_on (char_of (10::nat)) out) None of
                   None \<Rightarrow> (Raised, w1)
                 | Some ps \<Rightarrow> (Done (Inr ps), w1))))"

definition get_bridge_status_data :: "'w platform \<Rightarrow> 'w \<Rightarrow> (string + peer_status list) outcome \<times> 'w" where
  "get_bridge_status_data P w = get_entry_status_data P [] w"

definition EXIT_IP :: "env \<Rightarrow> string" where
  "EXIT_IP e = getenv e ''EXIT_IP'' []"

text \<open>The exit node.\<close>

definition get_amnezia_status :: "'w platform \<Rightarrow> 'w \<Rightarrow> string option \<times> 'w" where
  "get_amnezia_status P w =
     (case pf_ssh P (EXIT_IP (pf_env P)) ''sudo pwa-awg-show'' w of
        (None, w1) \<Rightarrow> (None, w1)
      | (Some (out, err), w1) \<Rightarrow> (Some (if strip out \<noteq> [] then strip out else ''Error: '' @ strip err), w1))"

definition get_full_status_data :: "'w platform \<Rightarrow> 'w \<Rightarrow> (string + peer_status list) outcome \<times> 'w" where
  "get_full_status_data P w =
     (case get_amnezia_status P w of
        (None, w1) \<Rightarrow> (Raised, w1)
      | (Some raw, w1) \<Rightarrow>
          (if raw = [] \<or> \<not> contains (lower raw) ''interface'' then (Done (Inl raw), w1)
           else (case read_peers False (split_on (char_of (10::nat)) raw) None of
                   None \<Rightarrow> (Raised, w1)
                 | Some ps \<Rightarrow> (Done (Inr ps), w1))))"

subsection \<open>Names (\<open>api/clients.py\<close>)\<close>

record known_config =
  kc_name :: string
  kc_kind :: string
  kc_active :: bool

definition middle_dot :: string where
  "middle_dot = '' '' @ map char_of [194, 183::nat] @ '' ''"

text \<open>The device of a key: the last active row, or the first when none is active.\<close>

definition config_rows :: "db \<Rightarrow> (string \<times> known_config) list" where
  "config_rows d =
     [(public_key c, \<lparr>kc_name = username u @ middle_dot @ c_name c, kc_kind = c_kind c, kc_active = c_is_active c\<rparr>).
        c \<leftarrow> configs d, u \<leftarrow> users d, u_id u = c_user_id c]"

definition known_configs :: "db \<Rightarrow> string \<Rightarrow> known_config option" where
  "known_configs d =
     foldl (\<lambda>m kc. if m (fst kc) = None \<or> kc_active (snd kc) then m(fst kc \<mapsto> snd kc) else m) Map.empty (config_rows d)"

definition known_labels :: "db \<Rightarrow> string \<Rightarrow> string option" where
  "known_labels d = map_of (map (\<lambda>l. (pl_public_key l, label l)) (peer_labels d))"

definition peer_address :: "string \<Rightarrow> string" where
  "peer_address allowed =
     (let first = strip (hd (split_on CHR '','' allowed))
      in if first = [] \<or> first = ''(none)'' then [] else hd (split_on CHR ''/'' first))"

definition peer_number :: "string \<Rightarrow> string" where
  "peer_number address =
     (if startswith address ''10.88.88.'' then snd (rpartition CHR ''.'' address)
      else if startswith address ''10.88.89.'' then ''89.'' @ snd (rpartition CHR ''.'' address)
      else address)"

definition UNITS :: "(string \<times> int) list" where
  "UNITS = [(''second'', 1), (''minute'', 60), (''hour'', 3600), (''day'', 86400), (''week'', 604800)]"

definition rstrip_s :: "string \<Rightarrow> string" where
  "rstrip_s s = rev (dropWhile (\<lambda>c. c = CHR ''s'') (rev s))"

definition age_part :: "string \<Rightarrow> int option" where
  "age_part part =
     (case words part of
        [n, unit] \<Rightarrow> if isdigit n then map_option (\<lambda>k. int (nat_of_str n) * k) (map_of UNITS (rstrip_s unit)) else None
      | _ \<Rightarrow> None)"

definition removesuffix :: "string \<Rightarrow> string \<Rightarrow> string" where
  "removesuffix s t = (if endswith s t \<and> t \<noteq> [] then take (length s - length t) s else s)"

definition handshake_age :: "string \<Rightarrow> int option" where
  "handshake_age handshake =
     (let t = lower (strip handshake) in
      if t = ''now'' then Some 0
      else
        let ages = List.map_filter age_part (split_on CHR '','' (removesuffix t '' ago''))
        in if ages = [] then None else Some (sum_list ages))"

definition classify_handshake :: "string \<Rightarrow> string" where
  "classify_handshake handshake =
     (case handshake_age handshake of
        None \<Rightarrow> ''inactive''
      | Some age \<Rightarrow> if age \<le> 180 then ''active'' else ''idle'')"

record client_view =
  cv_name :: string
  cv_number :: string
  cv_address :: string
  cv_source :: string
  cv_key :: string
  cv_public_key :: string
  cv_status :: string
  cv_peer :: peer_status

definition number_sign :: string where
  "number_sign = map char_of [226, 132, 150::nat]"

definition peer_describe :: "(string \<Rightarrow> known_config option) \<Rightarrow> (string \<Rightarrow> string option) \<Rightarrow> peer_status \<Rightarrow> client_view" where
  "peer_describe cfgs labels p =
     (let key = ps_public_key p; address = peer_address (ps_allowed_ips p); number = peer_number address;
          (name, source) =
            (case cfgs key of
               Some c \<Rightarrow> (kc_name c, if kc_kind c = ''trial'' then ''trial'' else ''portal'')
             | None \<Rightarrow>
                 (case labels key of
                    Some l \<Rightarrow> (l, ''manual'')
                  | None \<Rightarrow> (if number \<noteq> [] then number_sign @ number else take 12 key, ''unknown'')))
      in \<lparr>cv_name = name, cv_number = number, cv_address = address, cv_source = source, cv_key = key,
          cv_public_key = take 12 key @ ''...'', cv_status = classify_handshake (ps_handshake p), cv_peer = p\<rparr>)"

definition peers_of :: "'w platform \<Rightarrow> string \<Rightarrow> 'w \<Rightarrow> (string + peer_status list) reply \<times> 'w" where
  "peers_of P location w =
     (case get_location (pf_loads P) (pf_env P) location of
        None \<Rightarrow> (Done (Inl (http 422 ''Unknown location'')), w)
      | Some loc \<Rightarrow>
          (case (if loc_key loc = DEFAULT then get_bridge_status_data P w else get_entry_status_data P (host loc) w) of
             (Raised, w1) \<Rightarrow> (Raised, w1)
           | (Done r, w1) \<Rightarrow> (Done (Inr r), w1)))"

definition status_order :: "string \<Rightarrow> int" where
  "status_order s = (if s = ''active'' then 0 else if s = ''idle'' then 1 else 2)"

record clients_answer =
  cl_location :: string
  cl_locations :: "string list"
  cl_total :: int
  cl_active :: int
  cl_idle :: int
  cl_inactive :: int
  cl_sources :: "(string \<times> int) list"
  cl_clients :: "client_view list"

text \<open>\<open>Inl\<close> inside the answer is \<open>{"ok": False, "error": ...}\<close>.\<close>

definition get_clients ::
  "'w platform \<Rightarrow> crypto \<Rightarrow> string \<Rightarrow> string option \<Rightarrow> datetime \<Rightarrow> db \<Rightarrow> 'w \<Rightarrow> (string + clients_answer) reply \<times> 'w"
where
  "get_clients P K token location now d w =
     (case require_admin K token now of
        Inl err \<Rightarrow> (Done (Inl err), w)
      | Inr _ \<Rightarrow>
          let loc = (if given location then the location else default_for_new (pf_loads P) (pf_env P)) in
          case peers_of P loc w of
            (Raised, w1) \<Rightarrow> (Raised, w1)
          | (Done (Inl err), w1) \<Rightarrow> (Done (Inl err), w1)
          | (Done (Inr (Inl why)), w1) \<Rightarrow> (Done (Inr (Inl why)), w1)
          | (Done (Inr (Inr ps)), w1) \<Rightarrow>
              let cs = sort_key (\<lambda>c. (status_order (cv_status c), lower (cv_name c)))
                         (map (peer_describe (known_configs d) (known_labels d)) ps)
              in (Done (Inr (Inr
                   \<lparr>cl_location = loc, cl_locations = location_keys (pf_loads P) (pf_env P), cl_total = int (length cs),
                    cl_active = count_where (\<lambda>c. cv_status c = ''active'') cs,
                    cl_idle = count_where (\<lambda>c. cv_status c = ''idle'') cs,
                    cl_inactive = count_where (\<lambda>c. cv_status c = ''inactive'') cs,
                    cl_sources = map (\<lambda>s. (s, count_where (\<lambda>c. cv_source c = s) cs)) [''portal'', ''trial'', ''manual'', ''unknown''],
                    cl_clients = cs\<rparr>)), w1))"

definition get_client ::
  "'w platform \<Rightarrow> crypto \<Rightarrow> string \<Rightarrow> string \<Rightarrow> string option \<Rightarrow> datetime \<Rightarrow> db \<Rightarrow> 'w \<Rightarrow> (string + client_view) reply \<times> 'w"
where
  "get_client P K token name location now d w =
     (case require_admin K token now of
        Inl err \<Rightarrow> (Done (Inl err), w)
      | Inr _ \<Rightarrow>
          let loc = (if given location then the location else default_for_new (pf_loads P) (pf_env P)) in
          case peers_of P loc w of
            (Raised, w1) \<Rightarrow> (Raised, w1)
          | (Done (Inl err), w1) \<Rightarrow> (Done (Inl err), w1)
          | (Done (Inr (Inl why)), w1) \<Rightarrow> (Done (Inr (Inl why)), w1)
          | (Done (Inr (Inr ps)), w1) \<Rightarrow>
              (case List.find (\<lambda>c. cv_name c = name) (map (peer_describe (known_configs d) (known_labels d)) ps) of
                 None \<Rightarrow> (Done (Inr (Inl (''Client '' @ [CHR 0x27] @ name @ [CHR 0x27] @ '' not found''))), w1)
               | Some c \<Rightarrow> (Done (Inr (Inr c)), w1)))"

text \<open>\<open>_valid_key\<close>: base64 of 32 bytes, decoded strictly, is 43 characters and one padding.\<close>

definition set_label :: "crypto \<Rightarrow> string \<Rightarrow> string \<Rightarrow> string \<Rightarrow> datetime \<Rightarrow> db \<Rightarrow> (http_error + string option) \<times> db" where
  "set_label K token public_key_text label_text now d =
     (case require_admin K token now of
        Inl err \<Rightarrow> (Inl err, d)
      | Inr _ \<Rightarrow>
          let key = strip public_key_text; l = strip label_text in
          if length label_text > 60 then (Inl (http 422 ''string_too_long''), d)
          else if \<not> is_key key then (Inl (http 422 ''Not a public key''), d)
          else if list_ex (\<lambda>c. public_key c = key) (configs d) then (Inl (http 409 ''This peer belongs to a portal account''), d)
          else if l = [] then (Inr None, d\<lparr>peer_labels := filter (\<lambda>x. pl_public_key x \<noteq> key) (peer_labels d)\<rparr>)
          else if list_ex (\<lambda>x. pl_public_key x = key) (peer_labels d)
            then (Inr (Some l), d\<lparr>peer_labels := update_where (\<lambda>x. pl_public_key x = key) (\<lambda>x. if label x = l then x else x\<lparr>label := l, pl_updated_at := now\<rparr>) (peer_labels d)\<rparr>)
          else (Inr (Some l), d\<lparr>peer_labels := peer_labels d @ [\<lparr>pl_public_key = key, label = l, pl_updated_at = now\<rparr>]\<rparr>))"


subsection \<open>A node against the database (\<open>tools/peer_reconcile.py\<close>)\<close>

text \<open>The three files are given by their lines.  The report's wording and the order in which a
  section prints its peers are left out.\<close>

definition PAID_POOL :: pool where
  "PAID_POOL = (''10.88.88'', 42, 199)"

record node_peer =
  np_ip :: string
  np_hs :: int

definition read_node :: "string list \<Rightarrow> (string \<times> node_peer) list" where
  "read_node ls =
     foldl (\<lambda>m line.
        case words (filter (\<lambda>c. of_char c \<noteq> (13::nat)) line) of
          key # ips # hs # _ \<Rightarrow>
            AList.update key \<lparr>np_ip = hd (split_on CHR ''/'' (hd (split_on CHR '','' ips))),
                              np_hs = (if isdigit hs then int (nat_of_str hs) else 0)\<rparr> m
        | _ \<Rightarrow> m) [] ls"

record db_peer =
  dp_ip :: string
  dp_active :: bool
  dp_kind :: string
  dp_user :: string
  dp_name :: string

definition bar_fields :: "string \<Rightarrow> string list" where
  "bar_fields line = split_on CHR ''|'' (rev (dropWhile (\<lambda>c. of_char c = (10::nat)) (rev line)))"

definition read_db :: "string list \<Rightarrow> (string \<times> db_peer) list" where
  "read_db ls =
     foldl (\<lambda>m line.
        case bar_fields line of
          k # ip # a # kd # u # n # _ \<Rightarrow>
            AList.update k \<lparr>dp_ip = ip, dp_active = (a = ''t''), dp_kind = kd, dp_user = u, dp_name = n\<rparr> m
        | _ \<Rightarrow> m) [] ls"

text \<open>\<open>split("|", 1)\<close>: the label may hold bars of its own.\<close>

definition read_labels :: "string list \<Rightarrow> (string \<times> string) list" where
  "read_labels ls =
     foldl (\<lambda>m line.
        let s = rev (dropWhile (\<lambda>c. of_char c = (10::nat)) (rev line)) in
        if CHR ''|'' \<in> set s then AList.update (before CHR ''|'' s) (after CHR ''|'' s) m else m) [] ls"

definition pool_has :: "pool \<Rightarrow> string \<Rightarrow> bool" where
  "pool_has pl ip =
     (case pl of (pre, lo, hi) \<Rightarrow>
        case rpartition CHR ''.'' ip of (front, octet) \<Rightarrow>
          front = pre \<and> isdigit octet \<and> lo \<le> nat_of_str octet \<and> nat_of_str octet \<le> hi)"

record reconciliation =
  rc_ok :: "string list"
  rc_missing :: "string list"
  rc_stale :: "string list"
  rc_manual :: "string list"
  rc_unknown :: "string list"
  rc_orphan_labels :: "string list"
  rc_shared_ips :: "string list"
  rc_taken :: "(nat \<times> nat) list"

definition reconcile :: "(string \<times> node_peer) list \<Rightarrow> (string \<times> db_peer) list \<Rightarrow> (string \<times> string) list \<Rightarrow> reconciliation" where
  "reconcile node db labels =
     (let active = filter (\<lambda>kv. dp_active (snd kv)) db;
          keys = map fst node;
          ips = map (np_ip \<circ> snd) node
      in \<lparr>rc_ok = filter (\<lambda>k. map_of active k \<noteq> None) keys,
          rc_missing = filter (\<lambda>k. map_of node k = None) (map fst active),
          rc_stale = filter (\<lambda>k. case map_of db k of None \<Rightarrow> False | Some v \<Rightarrow> \<not> dp_active v) keys,
          rc_manual = filter (\<lambda>k. map_of db k = None \<and> map_of labels k \<noteq> None) keys,
          rc_unknown = filter (\<lambda>k. map_of db k = None \<and> map_of labels k = None) keys,
          rc_orphan_labels = sort (filter (\<lambda>k. map_of node k = None) (map fst labels)),
          rc_shared_ips = filter (\<lambda>ip. length (filter (\<lambda>x. x = ip) ips) > 1) (remdups ips),
          rc_taken = map (\<lambda>pl. (card (set (filter (pool_has pl) (ips @ map (dp_ip \<circ> snd) active))),
                                 case pl of (_, lo, hi) \<Rightarrow> hi - lo + 1)) [PAID_POOL, TRIAL_POOL]\<rparr>)"

text \<open>What is written to the file of candidates.\<close>

definition candidates :: "reconciliation \<Rightarrow> string list" where
  "candidates r = rc_stale r @ rc_manual r @ rc_unknown r"

definition reconcile_main :: "string list \<Rightarrow> string list \<Rightarrow> string list \<Rightarrow> reconciliation" where
  "reconcile_main node_lines db_lines label_lines =
     reconcile (read_node node_lines) (read_db db_lines) (read_labels label_lines)"


subsection \<open>Lemmas\<close>

lemma known_configs_None: "known_configs d k = None \<longleftrightarrow> k \<notin> fst ` set (config_rows d)"
proof -
  let ?f = "\<lambda>m kc. if m (fst kc) = None \<or> kc_active (snd kc) then m(fst kc \<mapsto> snd kc) else m"
  have "foldl ?f m rows k = None \<longleftrightarrow> m k = None \<and> k \<notin> fst ` set rows" for m rows
    by (induction rows arbitrary: m) auto
  from this [of Map.empty "config_rows d"] show ?thesis by (simp add: known_configs_def)
qed

lemma config_rows_keys: "fst ` set (config_rows d) \<subseteq> public_key ` set (configs d)"
  by (auto simp: config_rows_def)

lemma known_configs_same: "configs d' = configs d \<Longrightarrow> users d' = users d \<Longrightarrow> known_configs d' = known_configs d"
  by (simp add: known_configs_def config_rows_def)

lemma map_of_labels_filter:
  "map_of (map (\<lambda>l. (pl_public_key l, label l)) (filter (\<lambda>x. pl_public_key x \<noteq> key) ls)) =
     (map_of (map (\<lambda>l. (pl_public_key l, label l)) ls))(key := None)"
  by (induction ls) (auto simp: fun_eq_iff)

lemma map_of_labels_update_at:
  "map_of (map (\<lambda>l. (pl_public_key l, label l)) (update_where (\<lambda>x. pl_public_key x = key)
     (\<lambda>x. if label x = t then x else x\<lparr>label := t, pl_updated_at := now\<rparr>) ls)) k =
     (if k = key then if list_ex (\<lambda>x. pl_public_key x = key) ls then Some t else None
      else map_of (map (\<lambda>l. (pl_public_key l, label l)) ls) k)"
  by (induction ls) (auto simp: update_where_def)

lemma map_of_labels_update:
  "list_ex (\<lambda>x. pl_public_key x = key) ls \<Longrightarrow>
   map_of (map (\<lambda>l. (pl_public_key l, label l)) (update_where (\<lambda>x. pl_public_key x = key)
     (\<lambda>x. if label x = t then x else x\<lparr>label := t, pl_updated_at := now\<rparr>) ls)) =
     (map_of (map (\<lambda>l. (pl_public_key l, label l)) ls))(key \<mapsto> t)"
  by (rule ext) (simp add: map_of_labels_update_at)

lemma map_of_labels_append:
  "\<not> list_ex (\<lambda>x. pl_public_key x = key) ls \<Longrightarrow>
   map_of (map (\<lambda>l. (pl_public_key l, label l)) (ls @ [\<lparr>pl_public_key = key, label = t, pl_updated_at = now\<rparr>])) =
     (map_of (map (\<lambda>l. (pl_public_key l, label l)) ls))(key \<mapsto> t)"
  by (induction ls) (auto simp: fun_eq_iff)

lemma distinct_keys_update:
  "map pl_public_key (update_where P (\<lambda>x. if label x = t then x else x\<lparr>label := t, pl_updated_at := now\<rparr>) ls) = map pl_public_key ls"
  by (induction ls) (auto simp: update_where_def)

lemma set_label_done:
  assumes "set_label K token pk t now d = (Inr ans, d')"
  shows "is_key (strip pk) \<and> strip pk \<notin> public_key ` set (configs d) \<and> ans = (if strip t = [] then None else Some (strip t)) \<and>
    d' = d\<lparr>peer_labels := peer_labels d'\<rparr> \<and> known_labels d' = (known_labels d)(strip pk := ans) \<and>
    (distinct (map pl_public_key (peer_labels d)) \<longrightarrow> distinct (map pl_public_key (peer_labels d')))"
proof -
  let ?k = "strip pk" and ?ls = "peer_labels d"
  have "is_key ?k \<and> ?k \<notin> public_key ` set (configs d) \<and>
    (strip t = [] \<and> ans = None \<and> d' = d\<lparr>peer_labels := filter (\<lambda>x. pl_public_key x \<noteq> ?k) ?ls\<rparr> \<or>
     strip t \<noteq> [] \<and> ans = Some (strip t) \<and>
       (if list_ex (\<lambda>x. pl_public_key x = ?k) ?ls
        then d' = d\<lparr>peer_labels := update_where (\<lambda>x. pl_public_key x = ?k)
               (\<lambda>x. if label x = strip t then x else x\<lparr>label := strip t, pl_updated_at := now\<rparr>) ?ls\<rparr>
        else d' = d\<lparr>peer_labels := ?ls @ [\<lparr>pl_public_key = ?k, label = strip t, pl_updated_at = now\<rparr>]\<rparr>))"
    using assms by (auto simp: set_label_def Let_def list_ex_iff split: sum.splits if_splits)
  moreover have "distinct (map pl_public_key (filter P ?ls))" if "distinct (map pl_public_key ?ls)" for P
    using that by (rule distinct_map_filter)
  moreover have "?k \<notin> pl_public_key ` set ?ls" if "\<not> list_ex (\<lambda>x. pl_public_key x = ?k) ?ls"
    using that by (auto simp: list_ex_iff)
  ultimately show ?thesis
    by (auto simp: known_labels_def map_of_labels_filter map_of_labels_update map_of_labels_append
        distinct_keys_update simp del: map_append split: if_splits) auto
qed

lemma distinct_dict_fold:
  assumes "\<And>m x. distinct (map fst m) \<Longrightarrow> distinct (map fst (f m x))"
  shows "distinct (map fst m) \<Longrightarrow> distinct (map fst (foldl f m xs))"
  using assms by (induction xs arbitrary: m) auto

lemma distinct_read:
  "distinct (map fst (read_node ls))" "distinct (map fst (read_db ls))" "distinct (map fst (read_labels ls))"
  unfolding read_node_def read_db_def read_labels_def
  by (rule distinct_dict_fold; auto simp: Let_def AList.distinct_update split: list.split)+

lemma mset_filter_four:
  assumes "\<And>x. x \<in> set xs \<Longrightarrow> (if P x then 1 else 0) + (if Q x then 1 else 0) + (if R x then 1 else 0) + (if S x then 1 else 0) = (1::nat)"
  shows "mset (filter P xs @ filter Q xs @ filter R xs @ filter S xs) = mset xs"
  using assms
proof (induction xs)
  case (Cons x xs)
  have one: "(if P x then 1 else 0) + (if Q x then 1 else 0) + (if R x then 1 else 0) + (if S x then 1 else 0) = (1::nat)"
    by (rule Cons.prems) simp
  have "mset (filter P xs @ filter Q xs @ filter R xs @ filter S xs) = mset xs"
    by (rule Cons.IH) (rule Cons.prems, simp)
  with one show ?case by (simp split: if_splits)
qed simp

lemma map_of_active:
  "distinct (map fst db) \<Longrightarrow>
   map_of (filter (\<lambda>kv. dp_active (snd kv)) db) k = (case map_of db k of None \<Rightarrow> None | Some v \<Rightarrow> if dp_active v then Some v else None)"
  by (induction db) (auto split: option.splits simp: map_of_eq_None_iff)

subsection \<open>The properties\<close>

text \<open>
  C36: A label names only a peer the portal did not issue, and it is what the list shows.  After a
  label was accepted, its key is a well-formed key of no device; the labels differ from before only
  at that key; every other table is the same; and any peer with that key is listed as manual under
  that name, or as unknown when the label was removed.
\<close>

theorem labels_name_strangers:
  assumes "set_label K token pk t now d = (Inr ans, d')" and "ps_public_key p = strip pk"
  shows "is_key (strip pk) \<and> strip pk \<notin> public_key ` set (configs d') \<and>
    known_labels d' = (known_labels d)(strip pk := ans) \<and> d' = d\<lparr>peer_labels := peer_labels d'\<rparr> \<and>
    (case ans of
       Some l \<Rightarrow> l = strip t \<and> cv_name (peer_describe (known_configs d') (known_labels d') p) = l \<and>
                 cv_source (peer_describe (known_configs d') (known_labels d') p) = ''manual''
     | None \<Rightarrow> strip t = [] \<and> cv_source (peer_describe (known_configs d') (known_labels d') p) = ''unknown'')"
proof -
  note l = set_label_done [OF assms(1)]
  have same: "configs d' = configs d" using l by (metis db.select_convs(2) db.surjective db.update_convs(10))
  have "known_configs d' (strip pk) = None"
    using l config_rows_keys [of d'] by (auto simp: known_configs_None same)
  with l assms(2) same show ?thesis
    by (auto simp: peer_describe_def Let_def split: option.split if_splits)
qed

definition uncle_key :: string where
  "uncle_key = replicate 43 CHR ''A'' @ ''=''"

theorem labels_name_strangers_witness:
  "case set_label sample_crypto ''9.5.adminadmin'' uncle_key '' Uncle'' 1 empty_db of (ans, d') \<Rightarrow>
     ans = Inr (Some ''Uncle'') \<and> known_labels d' = [uncle_key \<mapsto> ''Uncle''] \<and>
     cv_source (peer_describe (known_configs d') (known_labels d') (new_peer uncle_key)) = ''manual''"
proof -
  let ?x = "set_label sample_crypto ''9.5.adminadmin'' uncle_key '' Uncle'' 1 empty_db"
  have ans: "fst ?x = Inr (Some ''Uncle'')" and k: "strip uncle_key = uncle_key" by code_simp+
  from ans have run: "?x = (Inr (Some ''Uncle''), snd ?x)" by (metis prod.collapse)
  have p: "ps_public_key (new_peer uncle_key) = strip uncle_key" by (simp add: k new_peer_def)
  have e: "known_labels empty_db = Map.empty" by (simp add: known_labels_def empty_db_def)
  note l = labels_name_strangers [OF run p, unfolded option.case k e]
  show ?thesis unfolding case_prod_unfold using ans l by blast
qed

text \<open>
  The comparison of a node with the database puts every peer of the node on exactly one of
  four lists: matched, ended but still there, made by hand, unknown.  No peer of an active device is
  ever a candidate for removal, and the missing ones are exactly the active devices that the node does
  not have.
\<close>

theorem reconcile_sorts_peers:
  fixes node_lines db_lines label_lines
  defines "node \<equiv> read_node node_lines" and "rows \<equiv> read_db db_lines" and "r \<equiv> reconcile_main node_lines db_lines label_lines"
  shows "mset (rc_ok r @ candidates r) = mset (map fst node) \<and> distinct (rc_ok r @ candidates r) \<and>
    (\<forall>k v. map_of rows k = Some v \<and> dp_active v \<longrightarrow> k \<notin> set (candidates r) \<and> (k \<in> set (rc_missing r)) = (map_of node k = None))"
proof -
  have d: "distinct (map fst node)" "distinct (map fst rows)" by (simp_all add: node_def rows_def distinct_read)
  note defs = r_def reconcile_main_def reconcile_def Let_def node_def [symmetric] rows_def [symmetric] map_of_active [OF d(2)]
  have m: "mset (rc_ok r @ candidates r) = mset (map fst node)"
    unfolding candidates_def defs reconciliation.simps
    by (rule mset_filter_four) (auto split: option.splits)
  moreover from m d(1) have "distinct (rc_ok r @ candidates r)" using mset_eq_imp_distinct_iff by blast
  moreover have "k \<notin> set (candidates r) \<and> (k \<in> set (rc_missing r)) = (map_of node k = None)"
    if "map_of rows k = Some v" "dp_active v" for k v
    using that map_of_SomeD [OF that(1)] by (force simp: candidates_def defs)
  ultimately show ?thesis by blast
qed

end
