(* ===== verification/Portal.thy ===== *)
theory Portal
  imports Bot Peers
begin

section \<open>The portal as a whole\<close>

text \<open>
  Requests, gateway callbacks and the hourly job all work on one database, one outbox and the
  nodes.  This theory composes the handlers of the other theories into one step relation
  (\<open>portal_step\<close>), takes its reachable states, and shows what holds in all of them.

  Each handler commits or rolls back before it answers, so a step is a whole handler.  Two
  requests that run at the same time in the real program interleave at their database
  statements; that is not modelled, and neither is a failure of the database itself.

  Most of the theory is one lemma per handler: what it keeps of the accounts
  (\<open>same_people\<close>, \<open>accounts_ok\<close>) and of the devices (\<open>device_rows\<close>, \<open>revoked_off\<close>).
\<close>

subsection \<open>Operations that leave people alone\<close>

definition identity :: "user \<Rightarrow> string \<times> string \<times> string option \<times> int option \<times> string option" where
  "identity u = (u_id u, username u, email u, telegram_id u, google_sub u)"

definition same_people :: "db \<Rightarrow> db \<Rightarrow> bool" where
  "same_people d d' = (map identity (users d') = map identity (users d))"

definition of_row :: "user \<Rightarrow> db \<Rightarrow> bool" where
  "of_row u d = (identity u \<in> identity ` set (users d))"

lemma same_people_refl [simp]: "same_people d d"
  by (simp add: same_people_def)

lemma same_people_trans: "same_people d d1 \<Longrightarrow> same_people d1 d2 \<Longrightarrow> same_people d d2"
  by (simp add: same_people_def)

lemma same_people_users: "users d' = users d \<Longrightarrow> same_people d d'"
  by (simp add: same_people_def)

lemma identity_map:
  assumes "map identity us = map identity vs" and "\<And>u v. identity u = identity v \<Longrightarrow> f u = f v"
  shows "map f us = map f vs"
  using assms(1)
proof (induction us arbitrary: vs)
  case (Cons u us)
  then obtain v vs' where v: "vs = v # vs'" "identity u = identity v" "map identity us = map identity vs'"
    by (cases vs) auto
  from Cons.IH [OF v(3)] assms(2) [OF v(2)] show ?case by (simp add: v(1))
qed simp

lemma accounts_ok_same:
  assumes "same_people d d'"
  shows "accounts_ok d' = accounts_ok d"
proof -
  note same = identity_map [OF assms [unfolded same_people_def]]
  have "map u_id (users d') = map u_id (users d)" "map (\<lambda>u. lower (username u)) (users d') = map (\<lambda>u. lower (username u)) (users d)"
    "map (\<lambda>u. map_option lower (email u)) (users d') = map (\<lambda>u. map_option lower (email u)) (users d)"
    "map telegram_id (users d') = map telegram_id (users d)" "map google_sub (users d') = map google_sub (users d)"
    by (rule same, simp add: identity_def)+
  then show ?thesis
    unfolding accounts_ok_def unique_on_map [where xs = "users _"] by simp
qed

lemma of_row_same: "same_people d d' \<Longrightarrow> of_row u d' = of_row u d"
proof -
  assume "same_people d d'"
  then have "set (map identity (users d')) = set (map identity (users d))" by (simp add: same_people_def)
  then show ?thesis by (simp add: of_row_def)
qed

lemma of_row_in: "u \<in> set (users d) \<Longrightarrow> of_row u d"
  by (simp add: of_row_def)

lemma same_people_put:
  assumes "accounts_ok d" and "of_row u d"
  shows "same_people d (put_user u d)"
proof -
  from assms(2) obtain v where v: "v \<in> set (users d)" "identity u = identity v" by (auto simp: of_row_def)
  then show ?thesis
    using map_put_user [of d v u identity] assms(1) by (auto simp: same_people_def accounts_ok_def identity_def)
qed

lemma same_people_put':
  assumes "accounts_ok d" and "of_row u d" and "identity u' = identity u" and "users d1 = users d"
  shows "same_people d (put_user u' d1)"
proof -
  have "accounts_ok d1" "of_row u' d1" using assms accounts_ok_users [of d1 d] by (simp_all add: of_row_def)
  from same_people_put [OF this] show ?thesis using assms(4) by (simp add: same_people_def)
qed

lemma apply_each_people:
  assumes "apply_each e now rs n u (d, out) = (n', u', d', out')" and "accounts_ok d" and "of_row u d"
  shows "same_people d d' \<and> identity u' = identity u"
  using assms
proof (induction rs arbitrary: n u d out)
  case (Cons r rs)
  define u1 where "u1 = u\<lparr>subscribed_until := map_option (\<lambda>t. t + days (rr_days r)) (subscribed_until u)\<rparr>"
  define d1 where "d1 = put_reward (r\<lparr>applied_at := Some now\<rparr>) (put_user u1 d)"
  obtain b d2 out2 where nt: "notify e u1 ReferralBonus (Some (''referral:'' @ rr_id r))
      [(''days'', PStr (str_int (rr_days r))), (''date'', PStr (strftime_date (the (subscribed_until u1))))]
      now (d1, out) = (b, d2, out2)"
    by (metis prod_cases3)
  have run: "apply_each e now rs (n + rr_days r) u1 (d2, out2) = (n', u', d', out')"
    using Cons.prems(1) nt by (simp add: u1_def d1_def Let_def)
  have i: "identity u1 = identity u" by (simp add: u1_def identity_def)
  have "users d2 = users (put_user u1 d)" using notify_same_but_feed [OF nt] by (simp add: same_but_feed_def d1_def)
  then have s: "same_people d d2" using same_people_put' [OF Cons.prems(2,3) i refl] by (simp add: same_people_def)
  have "accounts_ok d2" using accounts_ok_same [OF s] Cons.prems(2) by simp
  moreover have "of_row u1 d2" using of_row_same [OF s] Cons.prems(3) i by (simp add: of_row_def)
  ultimately show ?case using Cons.IH [OF run] s i same_people_trans by auto
qed simp

lemma apply_rewards_for_people:
  assumes "apply_rewards_for e u now (d, out) = (n, u', d', out')" and "accounts_ok d" and "of_row u d"
  shows "same_people d d' \<and> identity u' = identity u"
  using assms apply_each_people by (auto simp: apply_rewards_for_def split: if_splits)

lemma apply_owners_people:
  assumes "apply_owners e now uids a b (d, out) = (a', b', d', out')" and "accounts_ok d"
  shows "same_people d d'"
  using assms
proof (induction uids arbitrary: a b d out)
  case (Cons uid uids)
  show ?case
  proof (cases "get_user d uid")
    case None
    with Cons show ?thesis by simp
  next
    case (Some u)
    obtain n u' d1 out1 where r: "apply_rewards_for e u now (d, out) = (n, u', d1, out1)" by (metis prod_cases4)
    have "of_row u d" using get_user_SomeD [OF Some] by (simp add: of_row_in)
    then have s: "same_people d d1" using apply_rewards_for_people [OF r Cons.prems(2)] by simp
    obtain a1 b1 where "apply_owners e now uids a1 b1 (d1, out1) = (a', b', d', out')"
      using Cons.prems(1) Some r by (auto simp: Let_def split: if_splits)
    from Cons.IH [OF this] s accounts_ok_same [OF s] Cons.prems(2) show ?thesis by (blast intro: same_people_trans)
  qed
qed simp

lemma apply_owners_configs:
  "apply_owners e now uids a b (d, out) = (a', b', d', out') \<Longrightarrow> configs d' = configs d"
proof (induction uids arbitrary: a b d out)
  case (Cons uid uids)
  show ?case
  proof (cases "get_user d uid")
    case None
    with Cons show ?thesis by simp
  next
    case (Some u)
    obtain n u' d1 out1 where r: "apply_rewards_for e u now (d, out) = (n, u', d1, out1)" by (metis prod_cases4)
    obtain a1 b1 where "apply_owners e now uids a1 b1 (d1, out1) = (a', b', d', out')"
      using Cons.prems Some r by (auto simp: Let_def split: if_splits)
    from Cons.IH [OF this] apply_rewards_for_frame [OF r] show ?thesis by simp
  qed
qed simp

lemma settle_payment_people:
  assumes "settle_payment P info u p now (d, out) = (u', d', out')" and "accounts_ok d" and "of_row u d"
  shows "same_people d d'"
proof -
  define u1 where "u1 = subscribe info (p_plan p) now u"
  define d1 where "d1 = put_payment (mark_paid now p) (put_user u1 d)"
  define d3 where "d3 = snd (reward_for_payment (snd (spend_on_payment d1 (mark_paid now p) now)) (mark_paid now p) now)"
  obtain n u2 d4 out4 where app: "apply_rewards_for (pf_env P) u1 now (d3, out) = (n, u2, d4, out4)"
    by (metis prod_cases4)
  obtain b d5 out5 where nt: "notify (pf_env P) u2 (if provider p = Some ''manual'' then Granted else Paid) None
      [(''plan'', PPlan (tier info) (plan_days info) (or_ru (lang u2))),
       (''date'', PStr (strftime_date (the (subscribed_until u2))))] now (d4, out4) = (b, d5, out5)"
    by (metis prod_cases3)
  have d': "d' = put_user (close_trial now u2) d5"
    using assms(1) app nt by (auto simp: settle_payment_def Let_def u1_def d1_def d3_def subscribe_def mark_paid_def paid_until_def)
  have i1: "identity u1 = identity u" by (simp add: u1_def identity_def subscribe_def)
  have "users d3 = users (put_user u1 d)" by (simp add: d3_def d1_def)
  then have s3: "same_people d d3" using same_people_put' [OF assms(2,3) i1 refl] by (simp add: same_people_def)
  then have ok3: "accounts_ok d3" and r3: "of_row u1 d3"
    using accounts_ok_same [OF s3] of_row_same [OF s3] assms(2,3) i1 by (simp_all add: of_row_def)
  note a = apply_rewards_for_people [OF app ok3 r3]
  then have s4: "same_people d d4" using s3 same_people_trans by blast
  then have ok4: "accounts_ok d4" and r4: "of_row u2 d4"
    using accounts_ok_same [OF s4] of_row_same [OF s4] assms(2,3) i1 a by (simp_all add: of_row_def)
  have "users d5 = users d4" using notify_same_but_feed [OF nt] by (simp add: same_but_feed_def)
  moreover have "identity (close_trial now u2) = identity u2"
    by (simp add: close_trial_def identity_def split: option.split)
  ultimately show ?thesis
    unfolding d' using same_people_put' [OF ok4 r4] s4 same_people_trans by blast
qed

lemma issue_config_users:
  "issue_config P u name kind location kp now d w = (r, d', w') \<Longrightarrow> users d' = users d"
  using issue_config_db [of P u name kind location kp now d w r d' w'] by (auto simp: new_uuid_def)

lemma activate_payment_people:
  assumes "activate_payment P u p kp now (d, out) w = (r, (d', out'), w')" and "accounts_ok d" and "of_row u d"
  shows "same_people d d'"
  using assms(1)
proof (cases rule: activate_payment_cases)
  case (paid info ip d1 w1 u' d2 out2)
  have "users d1 = users d"
    using paid(2) by (elim disjE conjE exE) (simp, drule issue_config_users, assumption)
  then have s1: "same_people d d1" by (rule same_people_users)
  have "accounts_ok d1" "of_row (u\<lparr>u_peer_ip := ip\<rparr>) d1"
    using accounts_ok_same [OF s1] of_row_same [OF s1] assms(2,3) by (simp_all add: of_row_def identity_def)
  from settle_payment_people [OF paid(3) this] s1 have "same_people d d2" by (blast intro: same_people_trans)
  then show ?thesis using remove_trial_devices_frame(1) [OF paid(4)] by (simp add: same_people_def)
qed simp_all

lemma revoke_configs_users:
  "revoke_configs P cs b st d w = (r, d', w') \<Longrightarrow> users d' = users d"
  by (induction cs arbitrary: b st d w) (auto split: prod.splits outcome.splits if_splits)

lemma revoke_users_people:
  assumes "revoke_users P now us st (d, out) w = (r, (d', out'), w')" and "accounts_ok d" and "\<forall>u\<in>set us. of_row u d"
  shows "same_people d d'"
  using assms
proof (induction us arbitrary: st d out w)
  case (Cons u us)
  obtain q d1 w1 where q: "revoke_configs P (held_configs d u) True st d w = (q, d1, w1)" by (metis prod_cases3)
  have u1: "users d1 = users d" using revoke_configs_users [OF q] .
  show ?case
  proof (cases q)
    case Raised
    with Cons.prems(1) q show ?thesis by simp
  next
    case (Done x)
    obtain b' st1 where x: "x = (b', st1)" by force
    define v where "v = u\<lparr>is_subscribed := False\<rparr>"
    obtain d2 out2 where s2: "(if b' then ended (pf_env P) v SubEnded (the (subscribed_until u)) now (put_user v d1, out)
        else (d1, out)) = (d2, out2)" by force
    obtain st2 where run: "revoke_users P now us st2 (d2, out2) w1 = (r, (d', out'), w')"
      using Cons.prems(1) q Done x s2 by (auto simp: v_def split: if_splits)
    have s: "same_people d d2"
    proof (cases b')
      case True
      have "users d2 = users (put_user v d1)"
        using s2 True ended_same_but_feed [of "pf_env P" v SubEnded _ now "put_user v d1" out d2 out2] by (simp add: same_but_feed_def)
      moreover have "same_people d (put_user v d1)"
        by (rule same_people_put' [of d u]) (use Cons.prems u1 in \<open>simp_all add: v_def identity_def\<close>)
      ultimately show ?thesis by (simp add: same_people_def)
    qed (use s2 u1 in \<open>auto intro: same_people_users\<close>)
    with Cons.IH [OF run] accounts_ok_same [OF s] of_row_same [OF s] Cons.prems(2,3) show ?thesis
      by (auto intro: same_people_trans)
  qed
qed simp

subsection \<open>Operations that leave devices alone\<close>

text \<open>What the portal keeps: unique accounts, device rows in order, and no revoked device on a node.\<close>

definition portal_ok :: "'w platform \<Rightarrow> (string \<Rightarrow> string \<Rightarrow> string list option) \<Rightarrow> db \<Rightarrow> bool" where
  "portal_ok P T d = (accounts_ok d \<and> device_rows d \<and> revoked_off P T d)"

lemma portal_ok_accounts:
  assumes "portal_ok P T d" and "configs d' = configs d" and "accounts_ok d'"
  shows "portal_ok P T d'"
  using assms revoked_off_same_configs [OF assms(2), of P T] device_rows_same_configs [OF assms(2)] by (simp add: portal_ok_def)

lemma portal_ok_people:
  assumes "portal_ok P T d" and "configs d' = configs d" and "same_people d d'"
  shows "portal_ok P T d'"
  using portal_ok_accounts [OF assms(1,2)] accounts_ok_same [OF assms(3)] assms(1) by (simp add: portal_ok_def)

lemma portal_ok_devices:
  assumes "portal_ok P T d" and "revoked_off P T' d' \<and> device_rows d'" and "same_people d d'"
  shows "portal_ok P T' d'"
  using assms(1,2) accounts_ok_same [OF assms(3)] by (simp add: portal_ok_def)

lemma portal_ok_same:
  "portal_ok P T d \<Longrightarrow> users d' = users d \<and> configs d' = configs d \<Longrightarrow> portal_ok P T d'"
  using portal_ok_people [of P T d d'] same_people_users [of d' d] by blast

lemma new_uuid_configs [simp]: "configs (snd (new_uuid d)) = configs d"
  by (simp add: new_uuid_def)

lemma add_user_configs: "add_user u d = Done d' \<Longrightarrow> configs d' = configs d"
  by (auto simp: add_user_def split: if_splits)

lemma open_session_configs [simp]: "configs (open_session K u tok now d) = configs d"
  by (simp add: open_session_def Let_def delete_sessions_def new_uuid_def)

lemma register_configs:
  assumes "register K e email_str ip req tok now clk L s = (r, L', s')"
  shows "configs (fst s') = configs (fst s)"
  using assms unfolding register_def create_account_def Let_def
  by (auto simp: new_uuid_def split: option.splits prod.splits outcome.splits dest!: add_user_configs)

lemma verify_email_configs:
  "verify_email K ip token now clk L d = (r, L', d') \<Longrightarrow> configs d' = configs d"
  by (erule verify_email_cases) simp_all

lemma resend_verification_configs:
  "resend_verification K e name ip tok now clk L s = (r, L', s') \<Longrightarrow> configs (fst s') = configs (fst s)"
  by (erule resend_verification_cases) simp_all

lemma forgot_password_configs:
  "forgot_password K e email_str ip addr tok now clk L s = (r, L', s') \<Longrightarrow> configs (fst s') = configs (fst s)"
  by (erule forgot_password_cases) simp_all

lemma reset_password_configs:
  "reset_password K ip token pw now clk L d = (r, L', d') \<Longrightarrow> configs d' = configs d"
  by (erule reset_password_cases) (simp_all add: close_all_def delete_sessions_def)

lemma assign_peer_configs:
  "assign_peer K token name peer_ip n now d = (r, d') \<Longrightarrow> configs d' = configs d"
  unfolding assign_peer_def Let_def by (auto split: if_splits sum.splits option.splits)

lemma google_sign_in_configs:
  assumes "google_sign_in jwt K e fetched ip body rnd tok now clk c L d = (r, c', L', d')"
  shows "configs d' = configs d"
  using assms
proof (cases rule: google_sign_in_cases)
  case (known claims u a)
  then show ?thesis by (auto simp: signed_in_def)
next
  case (opened claims)
  then show ?thesis
    unfolding google_register_def Let_def signed_in_def
    by (auto simp: new_uuid_def split: if_splits outcome.splits prod.splits dest!: add_user_configs)
qed simp

lemma leave_other_configs [simp]: "configs (leave_other c u d) = configs d"
  by (simp add: leave_other_def split: option.split)

lemma tg_webhook_ok:
  assumes "tg_webhook e net K draws h u now clk b = (r, b')"
  shows "configs (b_db b') = configs (b_db b)" and "accounts_ok (b_db b) \<Longrightarrow> accounts_ok (b_db b')"
  using speaks_webhook [of e b net K draws h u now clk] assms by (simp_all add: speaks_def)

lemma tg_link_webapp_configs: "tg_link_webapp hmac loads e name init_data now d = (r, d') \<Longrightarrow> configs d' = configs d"
  unfolding tg_link_webapp_def by (auto split: outcome.splits option.splits if_splits)

lemma tg_link_configs: "tg_link K e name tok now d = (r, d') \<Longrightarrow> configs d' = configs d"
  unfolding tg_link_def by (auto split: option.splits if_splits)

lemma tg_unlink_configs: "tg_unlink e name s = (r, s') \<Longrightarrow> configs (fst s') = configs (fst s)"
  unfolding tg_unlink_def by (auto split: option.splits)

lemma tg_register_configs:
  assumes "tg_register hmac loads K e ip body rnd now clk L d = (r, L', d')"
  shows "configs d' = configs d"
  using assms
proof (cases rule: tg_register_cases)
  case (ran t)
  then show ?thesis
    unfolding tg_create_def Let_def
    by (auto simp: new_uuid_def split: if_splits outcome.splits prod.splits dest!: add_user_configs)
qed simp

lemma tg_register_accounts_ok:
  assumes "tg_register hmac loads K e ip body rnd now clk L d = (r, L', d')" and "accounts_ok d"
  shows "accounts_ok d'"
  using assms(1) by (cases rule: tg_register_cases) (use assms(2) tg_create_accounts_ok in auto)

lemma use_session_frame: "use_session K token now d = (r, d') \<Longrightarrow> users d' = users d \<and> configs d' = configs d"
  by (erule use_session_cases) (simp_all add: delete_sessions_def put_session_def)

lemma login_frame:
  assumes "login K e admin_hash ip req tok now clk L d = (r, L', d')"
  shows "users d' = users d \<and> configs d' = configs d"
  using assms unfolding login_def Let_def
  by (auto split: if_splits option.splits prod.splits list.splits)

lemma refresh_frame:
  assumes "refresh K e ip rtoken now clk L d = (r, L', d')"
  shows "users d' = users d \<and> configs d' = configs d"
  using assms unfolding refresh_def Let_def
  by (auto split: if_splits option.splits prod.splits dest!: use_session_frame)

lemma logout_frame: "logout K rtoken d = (r, d') \<Longrightarrow> users d' = users d \<and> configs d' = configs d"
  by (auto simp: logout_def close_session_def delete_sessions_def split: if_splits)

lemma create_referral_frame:
  "create_referral name draws now d = (r, d') \<Longrightarrow> users d' = users d \<and> configs d' = configs d"
  unfolding create_referral_def issue_code_def Let_def
  by (auto simp: new_uuid_def split: option.splits if_splits sum.splits)

lemma create_promo_code_frame:
  "create_promo_code K token req draws now d = (r, d') \<Longrightarrow> users d' = users d \<and> configs d' = configs d"
  unfolding create_promo_code_def Let_def
  by (auto simp: new_uuid_def split: option.splits if_splits sum.splits outcome.splits)

lemma deactivate_promo_code_frame:
  "deactivate_promo_code K token c now d = (r, d') \<Longrightarrow> users d' = users d \<and> configs d' = configs d"
  unfolding deactivate_promo_code_def Let_def by (auto simp: put_promo_def split: sum.splits option.splits)

lemma set_label_frame: "set_label K token pk t now d = (r, d') \<Longrightarrow> users d' = users d \<and> configs d' = configs d"
  unfolding set_label_def by (auto simp: Let_def split: sum.splits if_splits)

lemma fold_frame:
  "(\<And>x d. users (g x d) = users d \<and> configs (g x d) = configs d) \<Longrightarrow>
   users (fold g xs d) = users d \<and> configs (fold g xs d) = configs d"
  by (induction xs arbitrary: d) simp_all

lemma broadcast_frame: "users (fst (snd (broadcast e t x now s))) = users (fst s) \<and> configs (fst (snd (broadcast e t x now s))) = configs (fst s)"
  unfolding broadcast_def Let_def case_prod_unfold fst_conv snd_conv
  by (rule fold_frame) (simp add: new_uuid_def)

lemma broadcast_request_frame:
  assumes "broadcast_request K e token title body now s = (r, s')"
  shows "users (fst s') = users (fst s) \<and> configs (fst s') = configs (fst s)"
  using assms broadcast_frame [of e "strip title" "strip body" now s]
  by (auto simp: broadcast_request_def split: sum.splits if_splits prod.splits)

lemma mark_read_frame: "mark_read name ids now d = (r, d') \<Longrightarrow> users d' = users d \<and> configs d' = configs d"
  unfolding mark_read_def by (auto split: option.splits if_splits)

lemma open_order_frame: "open_order u req now d = (r, d') \<Longrightarrow> users d' = users d \<and> configs d' = configs d"
  by (erule open_order_cases) (simp_all add: new_uuid_def)

lemma create_payment_platega_frame:
  assumes "create_payment_platega P W name req now d = (r, d')"
  shows "users d' = users d \<and> configs d' = configs d"
  using assms unfolding create_payment_platega_def Let_def
  by (auto split: json.splits option.splits if_splits sum.splits outcome.splits prod.splits dest!: open_order_frame)

lemma create_payment_frame:
  assumes "create_payment P W name req now d = (r, d')"
  shows "users d' = users d \<and> configs d' = configs d"
  using assms unfolding create_payment_def Let_def
  by (auto split: json.splits option.splits if_splits sum.splits outcome.splits prod.splits dest!: open_order_frame)

subsection \<open>Handlers that issue and revoke devices\<close>

lemma fresh_after_uuid: "fresh_device_ids d \<Longrightarrow> fresh_device_ids (snd (new_uuid d))"
  by (auto simp: fresh_device_ids_def new_uuid_def)

lemma grant_runs:
  assumes "grant P uname plan kp now (d, out) w = (r, (d', out'), w')"
  obtains (refused) "d' = d" "w' = w"
  | (ran) u p d1 r2 d2 out2 where "user_by_name d (strip uname) = Some u"
      "d1 = (snd (new_uuid d))\<lparr>payments := payments d @ [p]\<rparr>"
      "activate_payment P u p kp now (d1, out) w = (r2, (d2, out2), w')" "users d' = users d2" "configs d' = configs d2"
proof (cases "\<exists>u. user_by_name d (strip uname) = Some u \<and> u_is_active u \<and> map_of PLANS plan \<noteq> None")
  case False
  with assms refused show thesis by (auto simp: grant_def split: option.splits if_splits)
next
  case True
  then obtain u where u: "user_by_name d (strip uname) = Some u" "u_is_active u" "map_of PLANS plan \<noteq> None" by blast
  define p where "p = grant_order u plan (fst (new_uuid d)) now"
  define d1 where "d1 = (snd (new_uuid d))\<lparr>payments := payments d @ [p]\<rparr>"
  have eq: "(snd (new_uuid d))\<lparr>payments := payments (snd (new_uuid d)) @ [p]\<rparr> = d1" by (simp add: d1_def new_uuid_def)
  obtain r2 s2 w2 where run2: "activate_payment P u p kp now (d1, out) w = (r2, s2, w2)" by (rule prod_cases3)
  obtain d2 out2 where s2: "s2 = (d2, out2)" by force
  have "users d' = users d2 \<and> configs d' = configs d2 \<and> w' = w2"
    using assms u run2 s2 eq unfolding grant_def p_def [symmetric]
    by (auto simp: Let_def p_def delete_payment_def split: prod.splits outcome.splits bool.splits option.splits)
  with u run2 s2 show thesis by (intro ran [of u d1 p r2 d2 out2]) (auto simp: d1_def)
qed

lemma delete_config_people:
  assumes "delete_config P name config_id d w = (r, d', w')" and "accounts_ok d"
  shows "same_people d d'"
proof -
  have "users d' = users d \<or> (\<exists>u ip c. user_by_name d name = Some u \<and>
      users d' = users (put_user (u\<lparr>u_peer_ip := ip\<rparr>) (put_config c d)))"
    using assms(1) unfolding delete_config_def Let_def client_of_def
    by (auto split: sum.splits option.splits if_splits prod.splits outcome.splits)
  then show ?thesis
  proof (elim disjE exE conjE)
    fix u ip c
    assume u: "user_by_name d name = Some u" "users d' = users (put_user (u\<lparr>u_peer_ip := ip\<rparr>) (put_config c d))"
    have "same_people d (put_user (u\<lparr>u_peer_ip := ip\<rparr>) (put_config c d))"
      by (rule same_people_put' [OF assms(2) of_row_in [of u]]) (use user_by_name_SomeD [OF u(1)] in \<open>simp_all add: identity_def\<close>)
    with u(2) show ?thesis by (simp add: same_people_def)
  qed (rule same_people_users)
qed

lemma rename_config_users: "rename_config name config_id new_name d = (r, d') \<Longrightarrow> users d' = users d"
  by (auto simp: rename_config_def Let_def split: if_splits sum.splits option.splits)

lemma start_trial_people:
  assumes "start_trial P name ip kp now clk L (d, out) w = (r, L', (d', out'), w')" and "accounts_ok d"
  shows "same_people d d'"
  using assms(1)
proof (cases rule: start_trial_cases)
  case (granted u)
  from granted(7) show ?thesis
  proof (cases rule: grant_trial_cases)
    case (started g d1 d2 c)
    let ?u = "u\<lparr>trial_until := Some (trial_end (pf_env P) now)\<rparr>"
    have "users d' = users d1" using issue_config_users [OF started(7)] started(8) by (simp add: same_but_feed_def)
    then have "users d' = users (put_user ?u d)" using started(6) by simp
    moreover have "same_people d (put_user ?u d)"
      by (rule same_people_put' [OF assms(2) of_row_in [of u]])
        (use user_by_name_SomeD [OF granted(1)] in \<open>simp_all add: identity_def\<close>)
    ultimately show ?thesis by (simp add: same_people_def)
  qed simp_all
qed simp

context provisioning
begin

lemma activate_payment_ok:
  assumes "activate_payment P u p kp now (d, out) w = (r, (d', out'), w')" and "portal_ok P (peers w) d"
    and "of_row u d" and "new_key kp d" and "fresh_device_ids d"
  shows "portal_ok P (peers w') d'"
proof (rule portal_ok_devices [OF assms(2)])
  show "revoked_off P (peers w') d' \<and> device_rows d'"
    using activate_payment_revoked [OF assms(1) _ _ assms(4) fresh_device_idsD [OF assms(5)]] assms(2) by (simp add: portal_ok_def)
  show "same_people d d'" using activate_payment_people [OF assms(1) _ assms(3)] assms(2) by (simp add: portal_ok_def)
qed

lemma confirm_ok:
  assumes "confirm P payment kp now s w = (r, s', w')" and "portal_ok P (peers w) (fst s)"
    and "new_key kp (fst s)" and "fresh_device_ids (fst s)"
  shows "portal_ok P (peers w') (fst s')"
proof (cases "get_user (fst s) (p_user_id payment)")
  case None
  with assms show ?thesis by (simp add: confirm_def)
next
  case (Some u)
  obtain q d1 out1 w1 where q: "activate_payment P u payment kp now (fst s, snd s) w = (q, (d1, out1), w1)"
    by (metis prod_cases3 surj_pair)
  have "fst s' = d1" "w' = w1" using assms(1) Some q by (auto simp: confirm_def split: outcome.splits)
  with activate_payment_ok [OF q assms(2) of_row_in assms(3,4)] get_user_SomeD [OF Some] show ?thesis by simp
qed

lemma platega_callback_ok:
  assumes "platega_callback P W x_secret body kp now s w = (r, s', w')" and "portal_ok P (peers w) (fst s)"
    and "new_key kp (fst s)" and "fresh_device_ids (fst s)"
  shows "portal_ok P (peers w') (fst s')"
  using assms(1)
proof (cases rule: platega_callback_cases)
  case (confirmed payment txn status details)
  then show ?thesis using confirm_ok assms(2-4) by blast
next
  case (recorded payment txn status st)
  then show ?thesis using portal_ok_same [OF assms(2), of "fst s'"] by simp
qed (use assms(2) in simp)

lemma payment_webhook_ok:
  assumes "payment_webhook P W raw kp now s w = (r, s', w')" and "portal_ok P (peers w) (fst s)"
    and "new_key kp (fst s)" and "fresh_device_ids (fst s)"
  shows "portal_ok P (peers w') (fst s')"
  using assms(1)
proof (cases rule: payment_webhook_cases)
  case (confirmed payment data)
  then show ?thesis using confirm_ok assms(2-4) by blast
next
  case (recorded payment data st)
  then show ?thesis using portal_ok_same [OF assms(2), of "fst s'"] by simp
qed (use assms(2) in simp)

lemma grant_ok:
  assumes "grant P uname plan kp now (d, out) w = (r, (d', out'), w')" and "portal_ok P (peers w) d"
    and "new_key kp d" and "fresh_device_ids d"
  shows "portal_ok P (peers w') d'"
  using assms(1)
proof (cases rule: grant_runs)
  case (ran u p d1 r2 d2 out2)
  have ok: "portal_ok P (peers w) d1" using portal_ok_same [OF assms(2), of d1] by (simp add: ran(2))
  have "of_row u d1" using user_by_name_SomeD [OF ran(1)] by (simp add: of_row_def ran(2))
  moreover have "new_key kp d1" using assms(3) by (auto simp: ran(2) new_key_def split: option.splits)
  moreover have "fresh_device_ids d1"
    using fresh_after_uuid [OF assms(4)] by (simp add: fresh_device_ids_def ran(2))
  ultimately have "portal_ok P (peers w') d2" using activate_payment_ok [OF ran(3) ok] by blast
  then show ?thesis using portal_ok_same [of P "peers w'" d2 d'] ran(4,5) by simp
qed (use assms(2) in simp)

lemma expire_due_subscriptions_ok:
  assumes "expire_due_subscriptions P now (d, out) w = (r, (d', out'), w')" and "portal_ok P (peers w) d"
  shows "portal_ok P (peers w') d'"
proof -
  note ok = assms(2) [unfolded portal_ok_def]
  define st where "st = \<lparr>users_due = int (length (due_users d now)), users_revoked = 0, peers_removed = 0,
      failures = 0, undated = []\<rparr>"
  obtain q d1 out1 w1 where q: "revoke_users P now (due_users d now) st (d, out) w = (q, (d1, out1), w1)"
    by (metis prod_cases4 surj_pair)
  have ids: "distinct (map u_id (users d))" using ok by (simp add: accounts_ok_def)
  have due: "set (due_users d now) \<subseteq> set (users d)" by (auto simp: due_users_def)
  have present: "\<forall>u\<in>set (due_users d now). get_user d (u_id u) = Some u" using get_user_in_users [OF ids] due by blast
  have dist: "distinct (map u_id (due_users d now))" using ids by (simp add: due_users_def distinct_map_filter)
  note spec = revoke_users_spec [OF q _ _ dist present]
  have people: "same_people d d1"
    by (rule revoke_users_people [OF q]) (use ok due in \<open>auto intro: of_row_in\<close>)
  show ?thesis
  proof (cases q)
    case Raised
    then have "d' = d" "w' = w1" using assms(1) q by (simp_all add: expire_due_subscriptions_def st_def Let_def)
    moreover have "revoked_off P (peers w1) d" using revoked_off_mono [of P "peers w" d "peers w1"] ok spec by blast
    ultimately show ?thesis using ok by (simp add: portal_ok_def)
  next
    case (Done st')
    then have "d' = d1" "w' = w1" using assms(1) q by (auto simp: expire_due_subscriptions_def st_def Let_def)
    moreover have "revoked_off P (peers w1) d1 \<and> device_rows d1" using spec ok Done by blast
    ultimately show ?thesis using portal_ok_devices [OF assms(2) _ people] by simp
  qed
qed

lemma expire_due_trials_ok:
  assumes "expire_due_trials P now (d, out) w = (r, (d', out'), w')" and "portal_ok P (peers w) d"
  shows "portal_ok P (peers w') d'"
proof -
  note ok = assms(2) [unfolded portal_ok_def]
  define st0 where "st0 = \<lparr>trials_due = int (length (due_trials d now)), trial_peers_removed = 0, trial_failures = 0\<rparr>"
  obtain q d1 out1 w1 where q: "expire_trial_rows P now (due_trials d now) st0 (d, out) w = (q, (d1, out1), w1)"
    by (metis prod_cases4 surj_pair)
  have rows: "fst ` set (due_trials d now) \<subseteq> set (configs d)" using due_trials_rows by blast
  have ids: "distinct (map u_id (users d))" using ok by (simp add: accounts_ok_def)
  have dr: "device_rows d" using ok by blast
  note spec = expire_trial_rows_spec [OF q dr _ rows distinct_due_trials [OF ids dr]]
  show ?thesis
  proof (cases q)
    case Raised
    then have "d' = d" "w' = w1" using assms(1) q by (simp_all add: expire_due_trials_def st0_def Let_def)
    moreover have "revoked_off P (peers w1) d" using revoked_off_mono [of P "peers w" d "peers w1"] ok spec by blast
    ultimately show ?thesis using ok by (simp add: portal_ok_def)
  next
    case (Done st)
    then have res: "d' = d1" "w' = w1" using assms(1) q by (simp_all add: expire_due_trials_def st0_def Let_def)
    have off: "revoked_off P (peers w1) d1" and h: "trials_handled (due_trials d now) st0 d st d1" using spec ok Done by blast+
    from h obtain S where S: "configs d1 = configs (deactivate S d)" "users d1 = users d" by (auto simp: trials_handled_def)
    have "device_rows d1" using device_rows_deactivate [OF dr, of S] device_rows_same_configs [OF S(1)] by simp
    with off res show ?thesis using portal_ok_devices [OF assms(2) _ same_people_users [OF S(2)]] by simp
  qed
qed

lemma sweep_main_ok:
  assumes "sweep_main P at (d, out) w = (status, (d', out'), w')" and "portal_ok P (peers w) d"
  shows "portal_ok P (peers w') d'"
proof -
  obtain t1 t2 t3 t4 where at: "at = (t1, t2, t3, t4)" by (metis prod_cases4)
  obtain a b d1 out1 where r: "apply_due_rewards (pf_env P) t1 (d, out) = (a, b, d1, out1)" by (metis prod_cases4)
  have ok1: "portal_ok P (peers w) d1"
  proof (rule portal_ok_people [OF assms(2)])
    note owners = r [unfolded apply_due_rewards_def Let_def]
    show "configs d1 = configs d" by (rule apply_owners_configs [OF owners])
    show "same_people d d1" by (rule apply_owners_people [OF owners]) (use assms(2) in \<open>simp add: portal_ok_def\<close>)
  qed
  obtain q2 d2 out2 w2 where q2: "expire_due_subscriptions P t2 (d1, out1) w = (q2, (d2, out2), w2)" by (metis prod_cases3 surj_pair)
  have ok2: "portal_ok P (peers w2) d2" by (rule expire_due_subscriptions_ok [OF q2 ok1])
  obtain q3 d3 out3 w3 where q3: "expire_due_trials P t3 (d2, out2) w2 = (q3, (d3, out3), w3)" by (metis prod_cases3 surj_pair)
  have ok3: "portal_ok P (peers w3) d3" by (rule expire_due_trials_ok [OF q3 ok2])
  obtain n d4 out4 where q4: "remind_due (pf_env P) t4 (d3, out3) = (n, d4, out4)" by (metis prod_cases3)
  have ok4: "portal_ok P (peers w3) d4"
    using portal_ok_same [OF ok3, of d4] remind_due_run [OF q4] by (simp add: same_but_feed_def)
  have "d' = d2 \<and> w' = w2 \<or> d' = d3 \<and> w' = w3 \<or> d' = d4 \<and> w' = w3"
    using assms(1) r q2 q3 q4 by (auto simp: sweep_main_def at Let_def split: outcome.splits)
  with ok2 ok3 ok4 show ?thesis by blast
qed

end

subsection \<open>The step relation\<close>

text \<open>
  A state is the session (database and outbox) and the nodes' world.  What a step brings from
  outside is free: the request, the clock, the limiters, random tokens, what the gateways, Google
  and Telegram answer, what the bot remembers of recent messages, and the key pair drawn for a new
  device.  Two premises are about randomness:
  a new device's identifier and its public key are not those of a device in the table.
\<close>

inductive portal_step :: "'w platform \<Rightarrow> web \<Rightarrow> crypto \<Rightarrow> session \<times> 'w \<Rightarrow> session \<times> 'w \<Rightarrow> bool" for P W K where
  step_register: "register K (pf_env P) email_str ip req tok now clk L s = (r, L', s') \<Longrightarrow> portal_step P W K (s, w) (s', w)"
| step_verify: "verify_email K ip token now clk L (fst s) = (r, L', d') \<Longrightarrow> portal_step P W K (s, w) ((d', snd s), w)"
| step_resend: "resend_verification K (pf_env P) name ip tok now clk L s = (r, L', s') \<Longrightarrow> portal_step P W K (s, w) (s', w)"
| step_forgot: "forgot_password K (pf_env P) email_str ip addr tok now clk L s = (r, L', s') \<Longrightarrow> portal_step P W K (s, w) (s', w)"
| step_reset: "reset_password K ip token pw now clk L (fst s) = (r, L', d') \<Longrightarrow> portal_step P W K (s, w) ((d', snd s), w)"
| step_assign: "assign_peer K token name peer_ip n now (fst s) = (r, d') \<Longrightarrow> portal_step P W K (s, w) ((d', snd s), w)"
| step_login: "login K (pf_env P) admin_hash ip lreq tok now clk L (fst s) = (r, L', d') \<Longrightarrow> portal_step P W K (s, w) ((d', snd s), w)"
| step_refresh: "refresh K (pf_env P) ip rtoken now clk L (fst s) = (r, L', d') \<Longrightarrow> portal_step P W K (s, w) ((d', snd s), w)"
| step_logout: "logout K rtoken (fst s) = (r, d') \<Longrightarrow> portal_step P W K (s, w) ((d', snd s), w)"
| step_google: "google_sign_in jwt K (pf_env P) fetched ip body rnd tok now clk c L (fst s) = (r, c', L', d') \<Longrightarrow>
    portal_step P W K (s, w) ((d', snd s), w)"
| step_tg_link: "tg_link K (pf_env P) name tok now (fst s) = (r, d') \<Longrightarrow> portal_step P W K (s, w) ((d', snd s), w)"
| step_tg_unlink: "tg_unlink (pf_env P) name s = (r, s') \<Longrightarrow> portal_step P W K (s, w) (s', w)"
| step_bot: "b_db b = fst s \<Longrightarrow> tg_webhook (pf_env P) net K draws header u now clk b = (r, b') \<Longrightarrow>
    portal_step P W K (s, w) ((b_db b', snd s), w)"
| step_tg_webapp: "tg_link_webapp hmac lds (pf_env P) name init_data now (fst s) = (r, d') \<Longrightarrow>
    portal_step P W K (s, w) ((d', snd s), w)"
| step_tg_register: "tg_register hmac lds K (pf_env P) ip treq rnd now clk L (fst s) = (r, L', d') \<Longrightarrow>
    portal_step P W K (s, w) ((d', snd s), w)"
| step_referral: "create_referral name draws now (fst s) = (r, d') \<Longrightarrow> portal_step P W K (s, w) ((d', snd s), w)"
| step_promo: "create_promo_code K token preq draws now (fst s) = (r, d') \<Longrightarrow> portal_step P W K (s, w) ((d', snd s), w)"
| step_promo_off: "deactivate_promo_code K token c now (fst s) = (r, d') \<Longrightarrow> portal_step P W K (s, w) ((d', snd s), w)"
| step_label: "set_label K token pk t now (fst s) = (r, d') \<Longrightarrow> portal_step P W K (s, w) ((d', snd s), w)"
| step_broadcast: "broadcast_request K (pf_env P) token title body now s = (r, s') \<Longrightarrow> portal_step P W K (s, w) (s', w)"
| step_read: "mark_read name ids now (fst s) = (r, d') \<Longrightarrow> portal_step P W K (s, w) ((d', snd s), w)"
| step_order: "create_payment_platega P W name oreq now (fst s) = (r, d') \<Longrightarrow> portal_step P W K (s, w) ((d', snd s), w)"
| step_invoice: "create_payment P W name oreq now (fst s) = (r, d') \<Longrightarrow> portal_step P W K (s, w) ((d', snd s), w)"
| step_platega: "new_key kp (fst s) \<Longrightarrow> fresh_device_ids (fst s) \<Longrightarrow>
    platega_callback P W x_secret jbody kp now s w = (r, s', w') \<Longrightarrow> portal_step P W K (s, w) (s', w')"
| step_heleket: "new_key kp (fst s) \<Longrightarrow> fresh_device_ids (fst s) \<Longrightarrow>
    payment_webhook P W raw kp now s w = (r, s', w') \<Longrightarrow> portal_step P W K (s, w) (s', w')"
| step_grant: "new_key kp (fst s) \<Longrightarrow> fresh_device_ids (fst s) \<Longrightarrow>
    grant P uname plan kp now s w = (r, s', w') \<Longrightarrow> portal_step P W K (s, w) (s', w')"
| step_add: "new_key kp (fst s) \<Longrightarrow> fresh_device_ids (fst s) \<Longrightarrow>
    add_config P name creq kp now (fst s) w = (r, d', w') \<Longrightarrow> portal_step P W K (s, w) ((d', snd s), w')"
| step_trial: "new_key kp (fst s) \<Longrightarrow> fresh_device_ids (fst s) \<Longrightarrow>
    start_trial P name ip kp now clk L s w = (r, L', s', w') \<Longrightarrow> portal_step P W K (s, w) (s', w')"
| step_delete: "delete_config P name config_id (fst s) w = (r, d', w') \<Longrightarrow> portal_step P W K (s, w) ((d', snd s), w')"
| step_rename: "rename_config name config_id new_name (fst s) = (r, d') \<Longrightarrow> portal_step P W K (s, w) ((d', snd s), w)"
| step_sweep: "sweep_main P at s w = (status, s', w') \<Longrightarrow> portal_step P W K (s, w) (s', w')"

text \<open>A portal starts with empty tables, whatever is on the nodes.\<close>

inductive portal_reachable :: "'w platform \<Rightarrow> web \<Rightarrow> crypto \<Rightarrow> session \<times> 'w \<Rightarrow> bool" for P W K where
  reachable_start: "users d = [] \<Longrightarrow> configs d = [] \<Longrightarrow> portal_reachable P W K ((d, out), w)"
| reachable_step: "portal_reachable P W K x \<Longrightarrow> portal_step P W K x y \<Longrightarrow> portal_reachable P W K y"

inductive_cases portal_stepE: "portal_step P W K (s, w) (s', w')"

definition state_ok :: "'w platform \<Rightarrow> ('w \<Rightarrow> string \<Rightarrow> string \<Rightarrow> string list option) \<Rightarrow> session \<times> 'w \<Rightarrow> bool" where
  "state_ok P peers x = portal_ok P (peers (snd x)) (fst (fst x))"

lemma state_ok_accounts:
  assumes "portal_ok P T d" and "configs d' = configs d" and "accounts_ok d \<Longrightarrow> accounts_ok d'"
  shows "portal_ok P T d'"
  using portal_ok_accounts [OF assms(1,2)] assms(1,3) by (simp add: portal_ok_def)

lemmas account_steps_ok =
  state_ok_accounts [OF _ register_configs register_accounts_ok]
  state_ok_accounts [OF _ verify_email_configs verify_email_accounts_ok]
  state_ok_accounts [OF _ resend_verification_configs resend_verification_accounts_ok]
  state_ok_accounts [OF _ forgot_password_configs forgot_password_accounts_ok]
  state_ok_accounts [OF _ reset_password_configs reset_password_accounts_ok]
  state_ok_accounts [OF _ assign_peer_configs assign_peer_accounts_ok]
  state_ok_accounts [OF _ google_sign_in_configs google_sign_in_accounts_ok]
  state_ok_accounts [OF _ tg_link_configs tg_link_accounts_ok]
  state_ok_accounts [OF _ tg_unlink_configs tg_unlink_accounts_ok]
  state_ok_accounts [OF _ tg_link_webapp_configs tg_link_webapp_accounts_ok]
  state_ok_accounts [OF _ tg_register_configs tg_register_accounts_ok]

lemmas frame_steps_ok =
  portal_ok_same [OF _ login_frame] portal_ok_same [OF _ refresh_frame] portal_ok_same [OF _ logout_frame]
  portal_ok_same [OF _ create_referral_frame] portal_ok_same [OF _ create_promo_code_frame]
  portal_ok_same [OF _ deactivate_promo_code_frame] portal_ok_same [OF _ mark_read_frame]
  portal_ok_same [OF _ set_label_frame] portal_ok_same [OF _ broadcast_request_frame]
  portal_ok_same [OF _ create_payment_platega_frame] portal_ok_same [OF _ create_payment_frame]

context provisioning
begin

lemma add_config_ok:
  assumes "add_config P name req kp now d w = (r, d', w')" and "portal_ok P (peers w) d" and "new_key kp d" and "fresh_device_ids d"
  shows "portal_ok P (peers w') d'"
proof (rule portal_ok_devices [OF assms(2)])
  show "revoked_off P (peers w') d' \<and> device_rows d'"
    using add_config_revoked [OF assms(1) _ _ assms(3,4)] assms(2) by (simp add: portal_ok_def)
  show "same_people d d'"
    using assms(1) by (cases rule: add_config_cases) (simp_all add: same_people_users issue_config_users)
qed

lemma start_trial_ok:
  assumes "start_trial P name ip kp now clk L (d, out) w = (r, L', (d', out'), w')" and "portal_ok P (peers w) d"
    and "new_key kp d" and "fresh_device_ids d"
  shows "portal_ok P (peers w') d'"
  by (rule portal_ok_devices [OF assms(2)])
    (use start_trial_revoked [OF assms(1) _ _ assms(3,4)] start_trial_people [OF assms(1)] assms(2) in \<open>simp_all add: portal_ok_def\<close>)

lemma delete_config_ok:
  assumes "delete_config P name config_id d w = (r, d', w')" and "portal_ok P (peers w) d"
  shows "portal_ok P (peers w') d'"
  by (rule portal_ok_devices [OF assms(2)])
    (use delete_config_revoked [OF assms(1)] delete_config_people [OF assms(1)] assms(2) in \<open>simp_all add: portal_ok_def\<close>)

lemma rename_config_ok:
  assumes "rename_config name config_id new_name d = (r, d')" and "portal_ok P (peers w) d"
  shows "portal_ok P (peers w) d'"
  by (rule portal_ok_devices [OF assms(2) _ same_people_users [OF rename_config_users [OF assms(1)]]])
    (use rename_config_revoked [OF assms(1), of P "peers w"] assms(2) in \<open>simp add: portal_ok_def\<close>)

lemma portal_step_ok:
  assumes "portal_step P W K x y" and "state_ok P peers x"
  shows "state_ok P peers y"
  using assms
proof (induction rule: portal_step.induct)
  case (step_grant kp s uname plan now w r s' w')
  then show ?case using grant_ok [of uname plan kp now "fst s" "snd s" w r "fst s'" "snd s'" w'] by (simp add: state_ok_def)
next
  case (step_trial kp s name ip now clk L w r L' s' w')
  then show ?case using start_trial_ok [of name ip kp now clk L "fst s" "snd s" w r L' "fst s'" "snd s'" w'] by (simp add: state_ok_def)
next
  case (step_bot b s net draws header u now clk r b' w)
  then show ?case using state_ok_accounts [OF _ tg_webhook_ok [OF step_bot(2)], of P "peers w"] by (simp add: state_ok_def)
next
  case (step_sweep at s w status s' w')
  then show ?case using sweep_main_ok [of at "fst s" "snd s" w status "fst s'" "snd s'" w'] by (simp add: state_ok_def)
qed (simp_all add: state_ok_def,
    (blast intro: account_steps_ok frame_steps_ok platega_callback_ok payment_webhook_ok add_config_ok delete_config_ok rename_config_ok)+)

lemma portal_reachable_ok:
  assumes "portal_reachable P W K x"
  shows "state_ok P peers x"
  using assms
proof (induction rule: portal_reachable.induct)
  case (reachable_start d out w)
  then show ?case
    by (simp add: state_ok_def portal_ok_def accounts_ok_def device_rows_def revoked_off_def unique_on_def)
next
  case (reachable_step x y)
  then show ?case using portal_step_ok by blast
qed

end

subsection \<open>How long the nodes are kept busy\<close>

text \<open>\<open>m\<close> counts the commands a world has seen.\<close>

definition counts_commands :: "'w platform \<Rightarrow> ('w \<Rightarrow> nat) \<Rightarrow> bool" where
  "counts_commands P m = (\<forall>h cmd w. m (snd (pf_ssh P h cmd w)) = Suc (m w))"

lemma ssh_bridge_counts: "counts_commands P m \<Longrightarrow> ssh_bridge P h cmd w = (r, w') \<Longrightarrow> m w' = Suc (m w)"
  by (auto simp: ssh_bridge_def counts_commands_def split: prod.splits) (metis snd_conv)

lemma used_ips_counts:
  assumes "counts_commands P m"
  shows "m (snd (entry_used_ips P h w)) = Suc (m w)" and "m (snd (bridge_used_ips P w)) = Suc (m w)"
  using ssh_bridge_counts [OF assms]
  by (auto simp: entry_used_ips_def bridge_used_ips_def split: prod.split option.split)

lemma add_peer_counts:
  assumes "counts_commands P m"
  shows "m (snd (add_peer_at P h pub psk ip n w)) = Suc (m w)"
  using ssh_bridge_counts [OF assms] by (auto simp: add_peer_at_def split: prod.split option.split)

lemma remove_peer_counts:
  assumes "counts_commands P m"
  shows "m (snd (remove_peer_from_bridge P pub w)) = Suc (m w)"
  using ssh_bridge_counts [OF assms]
  by (auto simp: remove_peer_from_bridge_def remove_peer_at_def split: prod.split option.split)

lemma issue_tries_counts:
  assumes "counts_commands P m"
  shows "m (snd (issue_tries n P d loc pl pub psk cn tried w)) \<le> m w + n"
proof (induction n arbitrary: tried w)
  case (Suc n)
  have step: "m w' = Suc (m w)"
    if "(if loc_key loc = DEFAULT then add_peer_to_bridge P pub psk ip cn w else add_peer_at P (host loc) pub psk ip cn w) = (q, w')"
    for ip q w'
    using that add_peer_counts [OF assms] by (auto simp: add_peer_to_bridge_def split: if_splits) (metis snd_conv)+
  show ?case
  proof (cases "find_free_ip d tried pl (loc_key loc)")
    case (Some ip)
    obtain q w' where q: "(if loc_key loc = DEFAULT then add_peer_to_bridge P pub psk ip cn w
        else add_peer_at P (host loc) pub psk ip cn w) = (q, w')" by fastforce
    have "m (snd (issue_tries n P d loc pl pub psk cn (ip # tried) w')) \<le> m w' + n" by (rule Suc.IH)
    with step [OF q] show ?thesis
      by (simp add: Some q split: outcome.split)
  qed simp
qed simp

lemma issue_config_counts:
  assumes "counts_commands P m" and "issue_config P u name kind location kp now d w = (r, d', w')"
  shows "m w' \<le> m w + 11"
proof -
  have used: "m w1 = Suc (m w)" if "(if loc_key loc = DEFAULT then bridge_used_ips P w else entry_used_ips P (host loc) w) = (tried, w1)"
    for loc tried w1
    using that used_ips_counts [OF assms(1)] by (auto split: if_splits) (metis snd_conv)+
  show ?thesis
  proof (cases "get_location (pf_loads P) (pf_env P) (if kind = ''trial'' then DEFAULT else location) = None \<or> kp = None")
    case True
    then have "w' = w" using assms(2) by (auto simp: issue_config_def split: option.splits)
    then show ?thesis by simp
  next
    case False
    then obtain loc priv pub psk where l: "get_location (pf_loads P) (pf_env P) (if kind = ''trial'' then DEFAULT else location) = Some loc"
      "kp = Some (priv, pub, psk)" by (auto simp: not_None_eq)
    obtain tried w1 where t: "(if loc_key loc = DEFAULT then bridge_used_ips P w else entry_used_ips P (host loc) w) = (tried, w1)"
      by fastforce
    obtain q w2 where q: "issue_tries 10 P d loc (pool_of kind) pub psk (client_name_of kind (username u)) tried w1 = (q, w2)"
      by fastforce
    have "w' = w2" using assms(2) l t q by (auto simp: issue_config_def Let_def split: outcome.splits option.splits prod.splits)
    moreover have "m w2 \<le> m w1 + 10"
      using issue_tries_counts [OF assms(1), of 10 d loc "pool_of kind" pub psk "client_name_of kind (username u)" tried w1] q by simp
    ultimately show ?thesis using used [OF t] by simp
  qed
qed

lemma remove_trial_devices_counts:
  assumes "counts_commands P m"
  shows "m (snd (remove_trial_devices P cs d w)) = m w + length cs"
proof (induction cs arbitrary: d w)
  case (Cons c cs)
  obtain q w' where q: "remove_peer_from_bridge P (public_key c) w = (q, w')" by force
  have "m w' = Suc (m w)" using remove_peer_counts [OF assms, of "public_key c" w] q by simp
  with Cons.IH q show ?case by (auto split: outcome.split prod.split bool.split)
qed simp

subsection \<open>The properties\<close>

text \<open>
  C3: In every state the portal can get into, whatever requests, callbacks and hourly runs led
  there and however the connections to the nodes behaved, no device that the database calls
  revoked is a peer on its entry node.
\<close>

theorem revoked_devices_stay_off:
  assumes "provisioning P peers" and "portal_reachable P W K (s, w)"
  shows "\<forall>c\<in>set (configs (fst s)). \<not> c_is_active c \<longrightarrow>
    peers w (entry_of P (location_or_default c)) (public_key c) = None"
proof -
  have "revoked_off P (peers w) (fst s)"
    using provisioning.portal_reachable_ok [OF assms] by (simp add: state_ok_def portal_ok_def)
  then show ?thesis by (auto simp: revoked_off_def list_all_iff)
qed

text \<open>
  C4: In every state the portal can get into, account identifiers are unique, no two accounts
  have names or addresses that differ only in case, and no Telegram chat and no Google account
  belongs to two accounts; device identifiers are unique, and trial devices are in the default
  location.
\<close>

theorem accounts_stay_unique:
  assumes "provisioning P peers" and "portal_reachable P W K (s, w)"
  shows "accounts_ok (fst s) \<and> device_rows (fst s)"
  using provisioning.portal_reachable_ok [OF assms] by (simp add: state_ok_def portal_ok_def)

text \<open>
  C8: An activation ends, and soon: whatever the nodes answer, it sends at most eleven commands
  for a first device (one to read the addresses in use, ten attempts to add the peer) and one
  for every trial device it takes away.
\<close>

theorem activation_ends:
  assumes "counts_commands P m" and "activate_payment P u p kp now (d, out) w = (r, (d', out'), w')"
  shows "m w' \<le> m w + 11 + length (filter (\<lambda>c. c_kind c = ''trial'')
    (filter (\<lambda>c. c_user_id c = u_id u \<and> c_is_active c) (configs d)))"
  using assms(2)
proof (cases rule: activate_payment_cases)
  case (no_device info d1 q)
  from issue_config_counts [OF assms(1) no_device(2)] show ?thesis by simp
next
  case (paid info ip d1 w1 u' d2 out2)
  have "m w1 \<le> m w + 11" using paid(2) issue_config_counts [OF assms(1)] by (elim disjE conjE exE) (simp, blast)
  then show ?thesis
    using remove_trial_devices_counts [OF assms(1), of "filter (\<lambda>c. c_kind c = ''trial'')
      (filter (\<lambda>c. c_user_id c = u_id u \<and> c_is_active c) (configs d))" d2 w1] paid(4) by simp
qed simp

text \<open>A history: the operator's portal starts empty, Alice registers, and the hourly job runs.\<close>

definition sample_web :: web where
  "sample_web = \<lparr>web_post = (\<lambda>_ _ _. NoResponse []), web_get = (\<lambda>_ _. NoResponse []), web_md5 = id\<rparr>"

lemma sample_history:
  "\<exists>s w. portal_reachable (sample_platform net) sample_web sample_crypto (s, w) \<and> map username (users (fst s)) = [''Alice-1'']"
proof -
  let ?P = "sample_platform net"
  let ?run = "register sample_crypto (pf_env ?P) Some ''1.2.3.4'' sample_request ''tok'' 0 0 fresh_limits (empty_db, empty_outbox)"
  obtain r L s where run: "?run = (r, L, s)" by (rule prod_cases3)
  have env: "pf_env ?P = (\<lambda>_. None)" by (simp add: sample_platform_def)
  have "map username (users (fst (snd (snd ?run)))) = [''Alice-1'']" unfolding env by code_simp
  then have us: "map username (users (fst s)) = [''Alice-1'']" by (simp add: run)
  have "portal_reachable ?P sample_web sample_crypto ((empty_db, empty_outbox), sample_world)"
    by (rule reachable_start) (simp_all add: empty_db_def)
  then have "portal_reachable ?P sample_web sample_crypto (s, sample_world)"
    by (rule reachable_step) (rule step_register [OF run])
  with us show ?thesis by (intro exI [of _ s] exI [of _ sample_world] conjI)
qed

theorem revoked_devices_stay_off_witness:
  "\<exists>s w. portal_reachable (sample_platform (\<lambda>_. Lost)) sample_web sample_crypto (s, w) \<and> users (fst s) \<noteq> [] \<and>
     list_all (\<lambda>c. c_is_active c \<or> peers_on table_awg w (entry_of (sample_platform (\<lambda>_. Lost)) (location_or_default c)) (public_key c) = None)
       (configs (fst s))"
proof -
  obtain s w where s: "portal_reachable (sample_platform (\<lambda>_. Lost)) sample_web sample_crypto (s, w)" "map username (users (fst s)) = [''Alice-1'']"
    using sample_history [of "\<lambda>_. Lost"] by (elim exE conjE)
  from revoked_devices_stay_off [OF sample_provisioning s(1)] s
  show ?thesis by (intro exI [of _ s] exI [of _ w]) (auto simp: list_all_iff)
qed

theorem accounts_stay_unique_witness:
  "\<exists>s w. portal_reachable (sample_platform (\<lambda>_. Answered)) sample_web sample_crypto (s, w) \<and> users (fst s) \<noteq> [] \<and>
     accounts_ok (fst s)"
proof -
  obtain s w where s: "portal_reachable (sample_platform (\<lambda>_. Answered)) sample_web sample_crypto (s, w)" "map username (users (fst s)) = [''Alice-1'']"
    using sample_history [of "\<lambda>_. Answered"] by (elim exE conjE)
  from accounts_stay_unique [OF sample_provisioning s(1)] s
  show ?thesis by (intro exI [of _ s] exI [of _ w]) auto
qed

theorem activation_ends_witness:
  "counts_commands (sample_platform (\<lambda>_. Lost)) calls \<and>
   calls (snd (snd (activate_payment (sample_platform (\<lambda>_. Lost)) (sample_user ''ann'') (sample_payment ''p1'' ''ann'' ''basic-1m'' 300)
     sample_keys 0 (empty_db, empty_outbox) sample_world))) \<le> 11"
proof -
  let ?P = "sample_platform (\<lambda>_. Lost)"
  obtain r d' out' w' where run: "activate_payment ?P (sample_user ''ann'') (sample_payment ''p1'' ''ann'' ''basic-1m'' 300)
     sample_keys 0 (empty_db, empty_outbox) sample_world = (r, (d', out'), w')" by (metis prod_cases3 surj_pair)
  have c: "counts_commands ?P calls"
    by (simp add: counts_commands_def sample_platform_def node_ssh_def Let_def split: prod.split)
  from activation_ends [OF c run] run c show ?thesis by (simp add: empty_db_def sample_world_def)
qed

end
