(* ===== verification/Monitor.thy ===== *)
theory Monitor
  imports Models Plans Json "HOL-Library.AList"
begin

section \<open>The monitor and its watch (\<open>sov_monitor.py\<close>, \<open>api/monitor.py\<close>, \<open>services/monitor_watch.py\<close>)\<close>

text \<open>
  The monitor on the backup host remembers what it saw and tells when a problem is confirmed,
  when it lasts and when it is over; the portal keeps its last report and a history of problems,
  and writes a letter when the reports stop.  What the monitor measures is the argument
  \<open>problems\<close> of a run, a dictionary from problem keys to texts.  Instants of the monitor are
  microseconds like those of the portal, where the program has seconds as floats.
\<close>

subsection \<open>Dictionaries in insertion order\<close>

text \<open>\<open>d.setdefault(k, v)\<close> and \<open>{key(x): x for x in xs}\<close>.\<close>

definition setdefault :: "'k \<Rightarrow> 'v \<Rightarrow> ('k \<times> 'v) list \<Rightarrow> ('k \<times> 'v) list" where
  "setdefault k v d = (if map_of d k = None then d @ [(k, v)] else d)"

definition dict_by :: "('v \<Rightarrow> 'k) \<Rightarrow> 'v list \<Rightarrow> ('k \<times> 'v) list" where
  "dict_by key xs = foldl (\<lambda>d x. AList.update (key x) x d) [] xs"

subsection \<open>What the monitor remembers\<close>

record seen =
  since :: datetime
  seen_count :: int
  sent :: datetime
  seen_text :: string

record notice =
  no_key :: string
  no_text :: string
  no_at :: datetime

text \<open>The file \<open>state.json\<close>; \<open>digest_day\<close> is the day number in Moscow of the last summary.\<close>

record memory =
  seen_problems :: "(string \<times> seen) list"
  boots :: "(string \<times> datetime) list"
  notices :: "notice list"
  digest_day :: "int option"

definition no_memory :: memory where
  "no_memory = \<lparr>seen_problems = [], boots = [], notices = [], digest_day = None\<rparr>"

text \<open>
  The lines of a message: a problem (with its key and, when it was told before, how long it has
  lasted), the end of one, a reboot and the daily summary.  The wording and the rounding of the
  spans to minutes are left out.
\<close>

datatype line =
    Broken string string "timedelta option"
  | Fixed string string timedelta
  | Rebooted string timedelta
  | Summary datetime

definition note_problem :: "memory \<Rightarrow> datetime \<Rightarrow> int \<Rightarrow> timedelta \<Rightarrow> string \<times> string \<Rightarrow> line list \<times> (string \<times> seen)" where
  "note_problem st now cf remind_s kt =
     (case kt of (key, text) \<Rightarrow>
       let s0 = (case map_of (seen_problems st) key of
                   None \<Rightarrow> \<lparr>since = now, seen_count = 0, sent = 0, seen_text = text\<rparr> | Some s \<Rightarrow> s);
           s = s0\<lparr>seen_count := seen_count s0 + 1, seen_text := text\<rparr>
       in if cf \<le> seen_count s \<and> (sent s = 0 \<or> remind_s \<le> now - sent s)
          then ([Broken key text (if sent s \<noteq> 0 then Some (now - since s) else None)], (key, s\<lparr>sent := now\<rparr>))
          else ([], (key, s)))"

definition note_fixed :: "(string \<times> string) list \<Rightarrow> datetime \<Rightarrow> string \<times> seen \<Rightarrow> line list" where
  "note_fixed problems now ks =
     (case ks of (key, s) \<Rightarrow>
       if map_of problems key = None \<and> sent s \<noteq> 0 then [Fixed key (seen_text s) (now - since s)] else [])"

definition step :: "memory \<Rightarrow> (string \<times> string) list \<Rightarrow> datetime \<Rightarrow> int \<Rightarrow> timedelta \<Rightarrow> line list \<times> memory" where
  "step st problems now cf remind_s =
     (let rs = map (note_problem st now cf remind_s) problems
      in (concat (map fst rs) @ concat (map (note_fixed problems now) (seen_problems st)),
          st\<lparr>seen_problems := map snd rs\<rparr>))"

text \<open>A probe is known here by its \<open>uptime_s\<close>, where it has one; \<open>None\<close> is a host that did not
  answer (or, for \<open>reboots\<close>, an empty answer).\<close>

type_synonym probe = "timedelta option option"

fun reboots :: "(string \<times> datetime) list \<Rightarrow> (string \<times> probe) list \<Rightarrow> datetime \<Rightarrow>
  line list \<times> notice list \<times> (string \<times> datetime) list"
where
  "reboots bs [] now = ([], [], bs)"
| "reboots bs ((name, Some (Some up)) # ps) now =
     (let boot = now - up;
          moved = (case map_of bs name of None \<Rightarrow> False | Some l \<Rightarrow> \<bar>boot - l\<bar> > seconds 300);
          (ms, ns, bs1) = reboots (AList.update name boot bs) ps now
      in if moved then (Rebooted name up # ms, \<lparr>no_key = name @ '':reboot'', no_text = name, no_at = boot\<rparr> # ns, bs1)
         else (ms, ns, bs1))"
| "reboots bs ((name, _) # ps) now = reboots bs ps now"

text \<open>What was open for a host that does not answer stays open.\<close>

definition keep_open :: "memory \<Rightarrow> (string \<times> probe) list \<Rightarrow> (string \<times> string) list \<Rightarrow> (string \<times> string) list" where
  "keep_open st probes problems =
     foldl (\<lambda>ps np. case np of (name, pr) \<Rightarrow>
        if pr \<noteq> None then ps
        else foldl (\<lambda>qs ks. case ks of (k, s) \<Rightarrow>
               if startswith k (name @ '':'') \<and> k \<noteq> name @ '':down'' then setdefault k (seen_text s) qs else qs)
             ps (seen_problems st))
      problems probes"

text \<open>Whether a problem is "broken now" or "to do soon", from its key.\<close>

definition WARN_KINDS :: "string list" where
  "WARN_KINDS = [''disk'', ''mem'', ''load'', ''units'', ''pool'', ''clock'']"

definition level :: "string \<Rightarrow> string" where
  "level key =
     (if startswith key ''cert:'' then ''warn''
      else if (split_on (CHR '':'') key @ ['''']) ! 1 \<in> set WARN_KINDS then ''warn'' else ''bad'')"

record problem =
  pb_key :: string
  pb_text :: string
  pb_level :: string
  pb_since :: datetime

text \<open>
  \<open>facts\<close> are the fields \<open>errors\<close>, \<open>links\<close>, \<open>clients\<close>, \<open>web\<close>, \<open>pools\<close> and \<open>traffic\<close>, which
  the portal stores as they come.
\<close>

record report =
  sent_at :: datetime
  facts :: "(string \<times> json) list"
  hosts :: "(string \<times> probe) list"
  problems :: "problem list"
  rp_notices :: "notice list"

definition build_report :: "(string \<times> json) list \<Rightarrow> (string \<times> probe) list \<Rightarrow> memory \<Rightarrow> datetime \<Rightarrow> int \<Rightarrow> report" where
  "build_report fs probes st now cf =
     \<lparr>sent_at = now, facts = fs, hosts = probes,
      problems = [\<lparr>pb_key = k, pb_text = seen_text s, pb_level = level k, pb_since = since s\<rparr>.
                    (k, s) \<leftarrow> seen_problems st, cf \<le> seen_count s],
      rp_notices = notices st\<rparr>"

text \<open>
  One run after the probes: \<open>hour\<close> is the hour of the summary (\<open>-1\<close> for none), \<open>delivered\<close>
  what \<open>send_telegram\<close> answers.  The result is the exit status, the lines that were sent, the
  report for the portal and the state on disk.  The dry run and the pings that follow are left out.
\<close>

definition msk_hour :: "datetime \<Rightarrow> int" where
  "msk_hour t = ((t + hours 3) div hours 1) mod 24"

definition msk_day :: "datetime \<Rightarrow> int" where
  "msk_day t = (t + hours 3) div days 1"

definition monitor_run ::
  "(string \<times> json) list \<Rightarrow> (string \<times> string) list \<Rightarrow> (string \<times> probe) list \<Rightarrow> datetime \<Rightarrow> int \<Rightarrow> timedelta \<Rightarrow> int \<Rightarrow> bool \<Rightarrow> memory \<Rightarrow>
   int \<times> line list \<times> report \<times> memory"
where
  "monitor_run fs found probes now cf remind_s hour delivered st =
     (let (ms, st1) = step st (keep_open st probes found) now cf remind_s;
          (bm, ns, bs) = reboots (boots st1) probes now;
          st2 = st1\<lparr>boots := bs, notices := ns\<rparr>;
          due = (0 \<le> hour \<and> msk_hour now = hour \<and> digest_day st2 \<noteq> Some (msk_day now));
          lines = ms @ bm @ (if due then [Summary now] else []);
          st3 = (if due then st2\<lparr>digest_day := Some (msk_day now)\<rparr> else st2);
          rep = build_report fs probes st3 now cf
      in if lines = [] \<or> delivered then (0, lines, rep, st3) else (1, [], rep, st))"

subsection \<open>The portal: reports and the history of problems\<close>

definition KEEP_DAYS :: int where
  "KEEP_DAYS = 90"

definition SILENT_KEY :: string where
  "SILENT_KEY = ''portal:monitor-silent''"

definition STALE_AFTER_S :: int where
  "STALE_AFTER_S = 600"

text \<open>The table \<open>monitor_reports\<close> has one row at most; \<open>next_event\<close> is the sequence of the event
  identifiers.\<close>

record monitor_db =
  report_row :: "(datetime \<times> report) option"
  me_rows :: "monitor_event list"
  next_event :: int

definition authorised :: "env \<Rightarrow> string option \<Rightarrow> http_error option" where
  "authorised e authorization =
     (let token = getenv e ''MONITOR_TOKEN'' [];
          a = (case authorization of None \<Rightarrow> [] | Some x \<Rightarrow> x);
          supplied = strip (if startswith a ''Bearer '' then drop 7 a else a)
      in if token = [] then Some (http 503 ''Monitor is not configured'')
         else if supplied \<noteq> token then Some (http 401 ''Bad token'')
         else None)"

text \<open>\<open>_ts\<close>: an instant that no \<open>datetime\<close> can hold counts as now.\<close>

definition ts :: "datetime \<Rightarrow> datetime \<Rightarrow> datetime" where
  "ts v now = (if seconds (- 62135596800) \<le> v \<and> v < seconds 253402300800 then min v now else now)"

definition report_ok :: "report \<Rightarrow> bool" where
  "report_ok r =
     (length (hosts r) \<le> 20 \<and> length (problems r) \<le> 200 \<and> length (rp_notices r) \<le> 50 \<and>
      list_all (\<lambda>p. 1 \<le> length (pb_key p) \<and> length (pb_key p) \<le> 120 \<and> 1 \<le> length (pb_text p) \<and>
                    length (pb_text p) \<le> 300 \<and> pb_level p \<in> {''bad'', ''warn''}) (problems r) \<and>
      list_all (\<lambda>n. 1 \<le> length (no_key n) \<and> length (no_key n) \<le> 120 \<and> 1 \<le> length (no_text n) \<and>
                    length (no_text n) \<le> 300) (rp_notices r))"

definition new_event :: "string \<Rightarrow> string \<Rightarrow> string \<Rightarrow> datetime \<Rightarrow> datetime option \<Rightarrow> monitor_db \<Rightarrow> monitor_db" where
  "new_event k l t at e m =
     m\<lparr>me_rows := me_rows m @ [\<lparr>me_id = next_event m, me_key = k, me_level = l, me_text = t, started_at = at, ended_at = e\<rparr>],
       next_event := next_event m + 1\<rparr>"

definition change_event :: "monitor_event \<Rightarrow> (monitor_event \<Rightarrow> monitor_event) \<Rightarrow> monitor_db \<Rightarrow> monitor_db" where
  "change_event e f m = m\<lparr>me_rows := update_where (\<lambda>x. me_id x = me_id e) f (me_rows m)\<rparr>"

definition open_rows :: "monitor_db \<Rightarrow> monitor_event list" where
  "open_rows m = filter (\<lambda>x. ended_at x = None \<and> me_key x \<noteq> SILENT_KEY) (me_rows m)"

definition open_problem :: "datetime \<Rightarrow> (string \<times> monitor_event) list \<Rightarrow> monitor_db \<Rightarrow> string \<times> problem \<Rightarrow> monitor_db" where
  "open_problem now ob m kp =
     (case kp of (key, p) \<Rightarrow>
        case map_of ob key of
          None \<Rightarrow> new_event key (pb_level p) (pb_text p) (ts (pb_since p) now) None m
        | Some e \<Rightarrow> change_event e (\<lambda>x. x\<lparr>me_text := pb_text p, me_level := pb_level p\<rparr>) m)"

definition close_gone :: "datetime \<Rightarrow> (string \<times> problem) list \<Rightarrow> monitor_db \<Rightarrow> string \<times> monitor_event \<Rightarrow> monitor_db" where
  "close_gone now cur m ke =
     (case ke of (key, e) \<Rightarrow>
        if map_of cur key = None then change_event e (\<lambda>x. x\<lparr>ended_at := Some now\<rparr>) m else m)"

definition take_notice :: "datetime \<Rightarrow> monitor_db \<Rightarrow> notice \<Rightarrow> monitor_db" where
  "take_notice now m n =
     (let at = ts (no_at n) now in
      if list_ex (\<lambda>x. me_key x = no_key n \<and> at - minutes 15 \<le> started_at x) (me_rows m) then m
      else new_event (no_key n) ''info'' (no_text n) at (Some at) m)"

definition forget_old :: "datetime \<Rightarrow> monitor_db \<Rightarrow> monitor_db" where
  "forget_old now m =
     m\<lparr>me_rows := filter (\<lambda>x. \<not> (ended_at x \<noteq> None \<and> started_at x < now - days KEEP_DAYS)) (me_rows m)\<rparr>"

text \<open>\<open>POST /api/monitor/report\<close>; the body is validated before the handler runs.\<close>

definition receive :: "env \<Rightarrow> string option \<Rightarrow> report \<Rightarrow> datetime \<Rightarrow> monitor_db \<Rightarrow> (http_error + nat) \<times> monitor_db" where
  "receive e authorization r now m =
     (if \<not> report_ok r then (Inl (http 422 ''validation''), m)
      else case authorised e authorization of
        Some err \<Rightarrow> (Inl err, m)
      | None \<Rightarrow>
          let m1 = m\<lparr>report_row := Some (now, r)\<rparr>;
              ob = dict_by me_key (open_rows m1);
              cur = dict_by pb_key (problems r);
              m2 = foldl (open_problem now ob) m1 cur;
              m3 = foldl (close_gone now cur) m2 ob;
              m4 = foldl (take_notice now) m3 (rp_notices r)
          in (Inr (length cur), forget_old now m4))"

subsection \<open>The dead man's switch\<close>

text \<open>The two letters: who gets them, the last report and, in the second, the gap.\<close>

datatype alert =
    MonitorSilent string datetime
  | MonitorBack string datetime timedelta

definition alert_address :: "env \<Rightarrow> string" where
  "alert_address e =
     (let a = strip (getenv e ''MONITOR_ALERT_EMAIL'' [])
      in if a \<noteq> [] then a else getenv e ''SUPPORT_INBOX'' ''sovrn.support@gmail.com'')"

definition silent_event :: "monitor_db \<Rightarrow> monitor_event option" where
  "silent_event m = List.find (\<lambda>x. me_key x = SILENT_KEY \<and> ended_at x = None) (me_rows m)"

text \<open>One check; \<open>delivered\<close> is what \<open>send_email\<close> answers.  The letter is given when it went out;
  the text of the event is left out.\<close>

definition watch :: "env \<Rightarrow> datetime \<Rightarrow> bool \<Rightarrow> monitor_db \<Rightarrow> string \<times> alert option \<times> monitor_db" where
  "watch e now delivered m =
     (case report_row m of
        None \<Rightarrow> (''no-reports'', None, m)
      | Some (lst, _) \<Rightarrow>
          if now - lst > seconds STALE_AFTER_S
          then (case silent_event m of
                  Some _ \<Rightarrow> (''silent'', None, m)
                | None \<Rightarrow>
                    if \<not> delivered then (''alert-failed'', None, m)
                    else (''alerted'', Some (MonitorSilent (alert_address e) lst),
                          new_event SILENT_KEY ''bad'' [] lst None m))
          else (case silent_event m of
                  None \<Rightarrow> (''quiet'', None, m)
                | Some ev \<Rightarrow>
                    if \<not> delivered then (''recovery-failed'', None, m)
                    else (''recovered'', Some (MonitorBack (alert_address e) lst (lst - started_at ev)),
                          change_event ev (\<lambda>x. x\<lparr>ended_at := Some now\<rparr>) m)))"

definition watch_main :: "env \<Rightarrow> datetime \<Rightarrow> bool \<Rightarrow> monitor_db \<Rightarrow> int \<times> alert option \<times> monitor_db" where
  "watch_main e now delivered m =
     (case watch e now delivered m of (result, a, m1) \<Rightarrow> (if endswith result ''-failed'' then 1 else 0, a, m1))"

subsection \<open>Lemmas on dictionaries\<close>

lemma map_of_dict_by: "map_of (dict_by key xs) k = List.find (\<lambda>x. key x = k) (rev xs)"
  by (induction xs rule: rev_induct) (simp_all add: dict_by_def AList.update_conv')

lemma distinct_dict_by [simp]: "distinct (map fst (dict_by key xs))"
  by (induction xs rule: rev_induct) (simp_all add: dict_by_def AList.distinct_update)

lemma map_of_setdefault:
  "map_of (setdefault k v d) k' = (case map_of d k' of None \<Rightarrow> if k' = k then Some v else None | Some x \<Rightarrow> Some x)"
  by (auto simp: setdefault_def map_add_def split: option.splits)

lemma distinct_setdefault: "distinct (map fst d) \<Longrightarrow> distinct (map fst (setdefault k v d))"
  by (auto simp: setdefault_def map_of_eq_None_iff)

lemma find_filter: "List.find P xs = (case filter P xs of [] \<Rightarrow> None | x # _ \<Rightarrow> Some x)"
  by (induction xs) auto

subsection \<open>Lemmas on the monitor's memory\<close>

fun line_key :: "line \<Rightarrow> string option" where
  "line_key (Broken k _ _) = Some k"
| "line_key (Fixed k _ _) = Some k"
| "line_key _ = None"

definition lines_about :: "string \<Rightarrow> line list \<Rightarrow> line list" where
  "lines_about k ls = filter (\<lambda>l. line_key l = Some k) ls"

text \<open>
  What the lines about one problem may be: told, told again, over; told again only while it is
  told, over only once it was told.  \<open>Some True\<close>: the reader knows of a problem that is not over.
\<close>

fun tells :: "bool \<Rightarrow> line list \<Rightarrow> bool option" where
  "tells b [] = Some b"
| "tells b (Broken _ _ again # ls) = (if (again \<noteq> None) = b then tells True ls else None)"
| "tells b (Fixed _ _ _ # ls) = (if b then tells False ls else None)"
| "tells b (_ # ls) = tells b ls"

lemma tells_append: "tells b (xs @ ys) = Option.bind (tells b xs) (\<lambda>c. tells c ys)"
  by (induction b xs rule: tells.induct) auto

lemma lines_about_Nil [simp]: "lines_about k [] = []"
  by (simp add: lines_about_def)

lemma lines_about_append [simp]: "lines_about k (xs @ ys) = lines_about k xs @ lines_about k ys"
  by (simp add: lines_about_def)

lemma lines_about_concat:
  assumes "distinct (map fst xs)" and "\<And>x l. l \<in> set (g x) \<Longrightarrow> line_key l = Some (fst x)"
  shows "lines_about k (concat (map g xs)) = (case map_of xs k of None \<Rightarrow> [] | Some v \<Rightarrow> g (k, v))"
  using assms(1)
proof (induction xs)
  case Nil
  show ?case by (simp add: lines_about_def)
next
  case (Cons x xs)
  have "lines_about k (g x) = (if fst x = k then g x else [])"
    using assms(2) [of _ x] by (auto simp: lines_about_def filter_id_conv filter_empty_conv)
  moreover have "fst x = k \<Longrightarrow> map_of xs k = None"
    using Cons.prems by (auto simp: map_of_eq_None_iff)
  ultimately show ?case using Cons by (cases x) auto
qed

lemma fst_snd_note_problem [simp]: "fst (snd (note_problem st now cf r kt)) = fst kt"
  by (simp add: note_problem_def Let_def split: prod.split)

lemma note_problem_key: "l \<in> set (fst (note_problem st now cf r kt)) \<Longrightarrow> line_key l = Some (fst kt)"
  by (auto simp: note_problem_def Let_def split: prod.splits if_splits)

lemma note_fixed_key: "l \<in> set (note_fixed ps now ks) \<Longrightarrow> line_key l = Some (fst ks)"
  by (auto simp: note_fixed_def split: prod.splits if_splits)

lemma map_of_keyed: "(\<And>x. fst (g x) = fst x) \<Longrightarrow> map_of (map g xs) k = map_option (\<lambda>v. snd (g (k, v))) (map_of xs k)"
proof (induction xs)
  case (Cons x xs)
  have "g x = (fst x, snd (g x))" using Cons.prems [of x] by (simp add: prod_eq_iff)
  then show ?case using Cons by (cases x) (metis list.map(2) map_of.simps(2) option.map(2) fst_conv snd_conv fun_upd_apply)
qed simp

lemma map_of_step:
  "map_of (seen_problems (snd (step st ps now cf r))) k =
     map_option (\<lambda>t. snd (snd (note_problem st now cf r (k, t)))) (map_of ps k)"
  by (simp add: step_def Let_def comp_def map_of_keyed)

lemma distinct_step: "distinct (map fst ps) \<Longrightarrow> distinct (map fst (seen_problems (snd (step st ps now cf r))))"
  by (simp add: step_def Let_def comp_def)

lemma lines_about_step:
  assumes "distinct (map fst ps)" and "distinct (map fst (seen_problems st))"
  shows "lines_about k (fst (step st ps now cf r)) =
    (case map_of ps k of
       Some t \<Rightarrow> fst (note_problem st now cf r (k, t))
     | None \<Rightarrow> (case map_of (seen_problems st) k of None \<Rightarrow> [] | Some s \<Rightarrow> note_fixed ps now (k, s)))"
proof -
  have "lines_about k (concat (map (\<lambda>x. fst (note_problem st now cf r x)) ps)) =
    (case map_of ps k of None \<Rightarrow> [] | Some v \<Rightarrow> fst (note_problem st now cf r (k, v)))"
    by (rule lines_about_concat [OF assms(1)]) (rule note_problem_key)
  moreover have "lines_about k (concat (map (note_fixed ps now) (seen_problems st))) =
    (case map_of (seen_problems st) k of None \<Rightarrow> [] | Some s \<Rightarrow> note_fixed ps now (k, s))"
    by (rule lines_about_concat [OF assms(2)]) (rule note_fixed_key)
  ultimately show ?thesis
    by (auto simp: step_def Let_def comp_def note_fixed_def split: option.splits)
qed

lemma reboots_no_key: "lines_about k (fst (reboots bs ps now)) = []"
  by (induction bs ps now rule: reboots.induct) (auto simp: lines_about_def Let_def split: prod.splits if_splits)

text \<open>The problems a run goes by: those it found, and those it remembers of hosts that do not answer.\<close>

definition held_back :: "(string \<times> probe) list \<Rightarrow> string \<Rightarrow> bool" where
  "held_back probes k \<longleftrightarrow>
     list_ex (\<lambda>np. snd np = None \<and> startswith k (fst np @ '':'') \<and> k \<noteq> fst np @ '':down'') probes"

lemma keep_one_host:
  fixes P :: "string \<Rightarrow> bool"
  assumes "distinct (map fst ps)"
  defines "f \<equiv> (\<lambda>qs ks. case ks of (k, s) \<Rightarrow> if P k then setdefault k (seen_text s) qs else qs)"
  shows "distinct (map fst (foldl f ps xs)) \<and>
    (map_of (foldl f ps xs) k = None \<longleftrightarrow> map_of ps k = None \<and> \<not> (P k \<and> map_of xs k \<noteq> None))"
  using assms(1)
proof (induction xs arbitrary: ps)
  case (Cons x xs)
  have "distinct (map fst (f ps x))"
    using Cons.prems by (auto simp: f_def distinct_setdefault split: prod.split)
  with Cons.IH [of "f ps x"] show ?case
    by (cases x) (auto simp: f_def map_of_setdefault split: option.splits)
qed simp

lemma keep_open_map_of:
  assumes "distinct (map fst found)"
  shows "distinct (map fst (keep_open st probes found)) \<and>
    (map_of (keep_open st probes found) k = None \<longleftrightarrow>
       map_of found k = None \<and> \<not> (held_back probes k \<and> map_of (seen_problems st) k \<noteq> None))"
  using assms unfolding keep_open_def held_back_def
proof (induction probes arbitrary: found)
  case (Cons np probes)
  show ?case
  proof (cases "snd np = None")
    case True
    let ?P = "\<lambda>k. startswith k (fst np @ '':'') \<and> k \<noteq> fst np @ '':down''"
    note one = keep_one_host [of found ?P "seen_problems st", OF Cons.prems]
    show ?thesis
      using True one [of k] Cons.IH [OF conjunct1 [OF one]] by (cases np) auto
  next
    case False
    then show ?thesis using Cons.IH [OF Cons.prems] by (cases np) auto
  qed
qed simp


lemma monitor_run_cases:
  assumes "monitor_run fs found probes now cf r h delivered st = (rc, lines, rep, st')"
  shows "(\<forall>k. lines_about k lines = lines_about k (fst (step st (keep_open st probes found) now cf r))) \<and>
      seen_problems st' = seen_problems (snd (step st (keep_open st probes found) now cf r)) \<or>
    lines = [] \<and> st' = st"
proof -
  obtain ms st1 where s: "step st (keep_open st probes found) now cf r = (ms, st1)" by fastforce
  obtain bm ns bs where b: "reboots (boots st1) probes now = (bm, ns, bs)" using prod_cases3 by blast
  have nb: "lines_about k bm = []" for k
    using reboots_no_key [of k "boots st1" probes now] by (simp add: b)
  have "lines_about k [Summary now] = []" for k by (simp add: lines_about_def)
  with assms nb show ?thesis
    by (auto simp: monitor_run_def Let_def s b lines_about_def split: if_splits)
qed

text \<open>Runs of the monitor one after another: the state on disk and all lines that were sent.\<close>

inductive monitor_runs :: "int \<Rightarrow> timedelta \<Rightarrow> int \<Rightarrow> memory \<Rightarrow> line list \<Rightarrow> bool" for cf r h where
  first_run: "monitor_runs cf r h no_memory []"
| next_run: "monitor_runs cf r h st log \<Longrightarrow> monitor_run fs found probes now cf r h delivered st = (rc, lines, rep, st') \<Longrightarrow>
    distinct (map fst found) \<Longrightarrow> 0 < now \<Longrightarrow> monitor_runs cf r h st' (log @ lines)"

definition is_told :: "memory \<Rightarrow> string \<Rightarrow> bool" where
  "is_told st k = (case map_of (seen_problems st) k of None \<Rightarrow> False | Some s \<Rightarrow> sent s \<noteq> 0)"

lemma step_tells:
  assumes "distinct (map fst ps)" and "distinct (map fst (seen_problems st))" and "0 < now"
  shows "tells (is_told st k) (lines_about k (fst (step st ps now cf r))) = Some (is_told (snd (step st ps now cf r)) k)"
  using assms(3)
  by (simp add: lines_about_step [OF assms(1,2)] is_told_def map_of_step)
    (auto simp: note_problem_def note_fixed_def Let_def split: option.splits)

lemma monitor_runs_tell:
  assumes "monitor_runs cf r h st log"
  shows "distinct (map fst (seen_problems st)) \<and> tells False (lines_about k log) = Some (is_told st k) \<and>
    (\<forall>s. map_of (seen_problems st) k = Some s \<longrightarrow> sent s \<noteq> 0 \<longrightarrow> cf \<le> seen_count s)"
  using assms
proof induction
  case first_run
  show ?case by (simp add: no_memory_def lines_about_def is_told_def)
next
  case (next_run st log fs found probes now delivered rc lines rep st')
  let ?ps = "keep_open st probes found"
  have d: "distinct (map fst ?ps)" by (rule conjunct1 [OF keep_open_map_of [OF next_run.hyps(3)]])
  from monitor_run_cases [OF next_run.hyps(2)] show ?case
  proof (elim disjE conjE)
    assume a: "\<forall>k. lines_about k lines = lines_about k (fst (step st ?ps now cf r))"
      and s: "seen_problems st' = seen_problems (snd (step st ?ps now cf r))"
    have t: "is_told st' k = is_told (snd (step st ?ps now cf r)) k" by (simp add: is_told_def s)
    have c: "\<forall>s. map_of (seen_problems st') k = Some s \<longrightarrow> sent s \<noteq> 0 \<longrightarrow> cf \<le> seen_count s"
      using next_run.IH by (auto simp: s map_of_step note_problem_def Let_def split: option.splits)
    show ?thesis
      using next_run.IH step_tells [OF d _ next_run.hyps(4), of st k cf r] distinct_step [OF d, of st now cf r] a t c
      by (simp add: tells_append s)
  qed (use next_run.IH in simp)
qed


subsection \<open>Lemmas on the history\<close>

definition open_of :: "string \<Rightarrow> monitor_db \<Rightarrow> monitor_event list" where
  "open_of k m = filter (\<lambda>x. me_key x = k \<and> ended_at x = None) (me_rows m)"

definition closed_rows :: "monitor_db \<Rightarrow> monitor_event list" where
  "closed_rows m = filter (\<lambda>x. ended_at x \<noteq> None) (me_rows m)"

definition ids_ok :: "monitor_db \<Rightarrow> bool" where
  "ids_ok m = (distinct (map me_id (me_rows m)) \<and> list_all (\<lambda>x. me_id x < next_event m) (me_rows m))"

text \<open>At most one event of a problem is open.\<close>

definition events_ok :: "monitor_db \<Rightarrow> bool" where
  "events_ok m = (ids_ok m \<and> list_all (\<lambda>x. length (open_of (me_key x) m) \<le> 1) (me_rows m))"

lemma events_ok_open: "events_ok m \<Longrightarrow> length (open_of k m) \<le> 1"
proof -
  assume "events_ok m"
  then have "\<forall>x\<in>set (me_rows m). length (open_of (me_key x) m) \<le> 1" by (simp add: events_ok_def list_all_iff)
  moreover have "open_of k m = [] \<or> (\<exists>x\<in>set (me_rows m). me_key x = k)"
    by (auto simp: open_of_def filter_empty_conv)
  ultimately show ?thesis by auto
qed

lemma events_okI: "ids_ok m \<Longrightarrow> (\<And>k. length (open_of k m) \<le> 1) \<Longrightarrow> events_ok m"
  by (simp add: events_ok_def list_all_iff)

lemma open_of_new_event:
  "open_of k (new_event k' l t at e m) =
     open_of k m @ (if k = k' \<and> e = None
       then [\<lparr>me_id = next_event m, me_key = k', me_level = l, me_text = t, started_at = at, ended_at = None\<rparr>] else [])"
  by (simp add: open_of_def new_event_def)

lemma ids_ok_new_event: "ids_ok m \<Longrightarrow> ids_ok (new_event k l t at e m)"
  by (auto simp: ids_ok_def new_event_def list_all_iff)

lemma closed_rows_new_event [simp]:
  "closed_rows (new_event k l t at None m) = closed_rows m"
  "set (closed_rows m) \<subseteq> set (closed_rows (new_event k l t at e m))"
  by (auto simp: closed_rows_def new_event_def)

lemma report_row_changes [simp]:
  "report_row (new_event k l t at e m) = report_row m" "report_row (change_event ev f m) = report_row m"
  by (simp_all add: new_event_def change_event_def)

lemma ids_ok_change_event: "ids_ok m \<Longrightarrow> (\<And>x. me_id (f x) = me_id x) \<Longrightarrow> ids_ok (change_event ev f m)"
  by (auto simp: ids_ok_def change_event_def update_where_def list_all_iff comp_def if_distrib [of me_id] cong: if_cong)

lemma open_of_in: "open_of k m = [e] \<Longrightarrow> e \<in> set (me_rows m) \<and> me_key e = k \<and> ended_at e = None"
  unfolding open_of_def by (drule arg_cong [of _ _ set]) auto

lemma change_event_one:
  assumes "ids_ok m" and "e \<in> set (me_rows m)"
  shows "me_rows (change_event e f m) = map (\<lambda>x. if x = e then f e else x) (me_rows m)"
  using assms by (auto simp: change_event_def update_where_def ids_ok_def distinct_map inj_on_def)

lemma open_of_change_event:
  assumes "ids_ok m" and "open_of k m = [e]" and "\<And>x. me_key (f x) = me_key x"
  shows "open_of k' (change_event e f m) = (if k' = k then filter (\<lambda>x. ended_at x = None) [f e] else open_of k' m)"
proof -
  note e = open_of_in [OF assms(2)]
  let ?g = "\<lambda>x. if x = e then f e else x"
  have "filter (\<lambda>x. me_key x = k' \<and> ended_at x = None) (map ?g xs) =
    (if k' = k then concat (map (\<lambda>x. filter (\<lambda>x. ended_at x = None) [?g x])
        (filter (\<lambda>x. me_key x = k \<and> (x = e \<or> ended_at x = None)) xs))
     else filter (\<lambda>x. me_key x = k' \<and> ended_at x = None) xs)" for xs
    using e assms(3) by (induction xs) auto
  moreover have "filter (\<lambda>x. me_key x = k \<and> (x = e \<or> ended_at x = None)) (me_rows m) = [e]"
    using assms(2) e unfolding open_of_def by (subst filter_cong [OF refl, of _ _ "\<lambda>x. me_key x = k \<and> ended_at x = None"]) auto
  ultimately show ?thesis
    by (simp add: open_of_def change_event_one [OF assms(1) conjunct1 [OF e]])
qed

lemma closed_rows_change_event:
  assumes "ids_ok m" and "open_of k m = [e]"
  shows "set (closed_rows m) \<subseteq> set (closed_rows (change_event e f m))"
    and "ended_at (f e) \<noteq> None \<Longrightarrow> f e \<in> set (closed_rows (change_event e f m))"
  using open_of_in [OF assms(2)]
  by (auto simp: closed_rows_def change_event_one [OF assms(1)] image_iff)

lemma map_of_open_dict:
  assumes "events_ok m"
  shows "map_of (dict_by me_key (open_rows m)) k = (if k = SILENT_KEY then None else case open_of k m of [] \<Rightarrow> None | e # _ \<Rightarrow> Some e)"
proof -
  have "filter (\<lambda>x. me_key x = k) (rev (open_rows m)) = (if k = SILENT_KEY then [] else rev (open_of k m))"
    by (auto simp: open_rows_def open_of_def rev_filter [symmetric] intro: filter_cong)
  moreover have "rev (open_of k m) = open_of k m"
    using events_ok_open [OF assms, of k] by (cases "open_of k m") (auto simp: Suc_le_eq)
  ultimately show ?thesis
    by (simp add: map_of_dict_by find_filter)
qed


text \<open>The event of a reported problem: the one that was open, with the new words, or a new one.\<close>

definition opened :: "datetime \<Rightarrow> monitor_db \<Rightarrow> string \<Rightarrow> problem \<Rightarrow> monitor_event \<Rightarrow> bool" where
  "opened now m0 k p x =
     (me_key x = k \<and> me_text x = pb_text p \<and> me_level x = pb_level p \<and>
      (case open_of k m0 of
         [] \<Rightarrow> started_at x = ts (pb_since p) now
       | e # _ \<Rightarrow> me_id x = me_id e \<and> started_at x = started_at e))"

lemma open_problem_one:
  fixes now :: datetime and p :: problem
  assumes m0: "events_ok m0" and m: "ids_ok m" "open_of k m = open_of k m0" "k \<noteq> SILENT_KEY"
  defines "m1 \<equiv> open_problem now (dict_by me_key (open_rows m0)) m (k, p)"
  shows "ids_ok m1 \<and> report_row m1 = report_row m \<and> set (closed_rows m) \<subseteq> set (closed_rows m1) \<and>
    (\<forall>k'. k' \<noteq> k \<longrightarrow> open_of k' m1 = open_of k' m) \<and> (\<exists>x. open_of k m1 = [x] \<and> opened now m0 k p x)"
proof (cases "open_of k m0")
  case Nil
  then have "m1 = new_event k (pb_level p) (pb_text p) (ts (pb_since p) now) None m"
    using m by (simp add: m1_def open_problem_def map_of_open_dict [OF m0])
  then show ?thesis
    using m Nil by (simp add: ids_ok_new_event open_of_new_event opened_def)
next
  case (Cons e es)
  with events_ok_open [OF m0, of k] have e: "open_of k m0 = [e]" by simp
  then have m1: "m1 = change_event e (\<lambda>x. x\<lparr>me_text := pb_text p, me_level := pb_level p\<rparr>) m"
    using m by (simp add: m1_def open_problem_def map_of_open_dict [OF m0])
  note o = open_of_change_event [OF m(1) m(2) [unfolded e], where f = "\<lambda>x. x\<lparr>me_text := pb_text p, me_level := pb_level p\<rparr>"]
  have "set (closed_rows m) \<subseteq> set (closed_rows m1)"
    unfolding m1 by (rule closed_rows_change_event(1) [OF m(1) m(2) [unfolded e]])
  then show ?thesis
    using o open_of_in [OF e] e ids_ok_change_event [OF m(1)]
    by (auto simp: m1 opened_def)
qed

lemma open_problems:
  fixes now :: datetime
  assumes m0: "events_ok m0" and "ids_ok m" and "distinct (map fst cur)" and "SILENT_KEY \<notin> fst ` set cur"
    and "\<And>k. k \<in> fst ` set cur \<Longrightarrow> open_of k m = open_of k m0"
  defines "m1 \<equiv> foldl (open_problem now (dict_by me_key (open_rows m0))) m cur"
  shows "ids_ok m1 \<and> report_row m1 = report_row m \<and> set (closed_rows m) \<subseteq> set (closed_rows m1) \<and>
    (case map_of cur k of
       None \<Rightarrow> open_of k m1 = open_of k m
     | Some p \<Rightarrow> \<exists>x. open_of k m1 = [x] \<and> opened now m0 k p x)"
  using assms(2-5) unfolding m1_def
proof (induction cur arbitrary: m)
  case (Cons kp cur)
  obtain k' p where kp: "kp = (k', p)" by fastforce
  define m' where "m' = open_problem now (dict_by me_key (open_rows m0)) m kp"
  have one: "ids_ok m' \<and> report_row m' = report_row m \<and> set (closed_rows m) \<subseteq> set (closed_rows m') \<and>
    (\<forall>k''. k'' \<noteq> k' \<longrightarrow> open_of k'' m' = open_of k'' m) \<and> (\<exists>x. open_of k' m' = [x] \<and> opened now m0 k' p x)"
    unfolding m'_def kp using Cons.prems by (intro open_problem_one [OF m0]) (auto simp: kp)
  have "open_of i m' = open_of i m0" if "i \<in> fst ` set cur" for i
  proof -
    have "i \<noteq> k'" using Cons.prems(2) that by (auto simp: kp)
    then show ?thesis using one Cons.prems(4) that by auto
  qed
  then have ih: "ids_ok (foldl (open_problem now (dict_by me_key (open_rows m0))) m' cur) \<and>
    report_row (foldl (open_problem now (dict_by me_key (open_rows m0))) m' cur) = report_row m' \<and>
    set (closed_rows m') \<subseteq> set (closed_rows (foldl (open_problem now (dict_by me_key (open_rows m0))) m' cur)) \<and>
    (case map_of cur k of
       None \<Rightarrow> open_of k (foldl (open_problem now (dict_by me_key (open_rows m0))) m' cur) = open_of k m'
     | Some p \<Rightarrow> \<exists>x. open_of k (foldl (open_problem now (dict_by me_key (open_rows m0))) m' cur) = [x] \<and> opened now m0 k p x)"
    using Cons.prems one by (intro Cons.IH) auto
  have "k = k' \<Longrightarrow> map_of cur k = None"
    using Cons.prems(2) by (auto simp: kp map_of_eq_None_iff)
  with one ih show ?case
    by (auto simp: kp m'_def [symmetric] m'_def [symmetric, unfolded kp] split: option.splits)
qed simp

lemma close_gone_all:
  fixes now :: datetime and cur :: "(string \<times> problem) list"
  assumes "ids_ok m" and "distinct (map fst ob)"
    and "\<And>k e. (k, e) \<in> set ob \<Longrightarrow> map_of cur k = None \<Longrightarrow> open_of k m = [e]"
  defines "m1 \<equiv> foldl (close_gone now cur) m ob"
  shows "ids_ok m1 \<and> report_row m1 = report_row m \<and> set (closed_rows m) \<subseteq> set (closed_rows m1) \<and>
    open_of k m1 = (if map_of cur k = None \<and> k \<in> fst ` set ob then [] else open_of k m) \<and>
    (\<forall>(k', e)\<in>set ob. map_of cur k' = None \<longrightarrow> e\<lparr>ended_at := Some now\<rparr> \<in> set (closed_rows m1))"
  using assms(1-3) unfolding m1_def
proof (induction ob arbitrary: m)
  case (Cons ke ob)
  obtain k' e where ke: "ke = (k', e)" by fastforce
  define m' where "m' = close_gone now cur m ke"
  have one: "ids_ok m' \<and> report_row m' = report_row m \<and> set (closed_rows m) \<subseteq> set (closed_rows m') \<and>
    (\<forall>i. open_of i m' = (if map_of cur k' = None \<and> i = k' then [] else open_of i m)) \<and>
    (map_of cur k' = None \<longrightarrow> e\<lparr>ended_at := Some now\<rparr> \<in> set (closed_rows m'))"
  proof (cases "map_of cur k' = None")
    case True
    with Cons.prems(3) have e: "open_of k' m = [e]" by (simp add: ke)
    from True show ?thesis
      using open_of_change_event [OF Cons.prems(1) e, where f = "\<lambda>x. x\<lparr>ended_at := Some now\<rparr>"]
        closed_rows_change_event [OF Cons.prems(1) e, of "\<lambda>x. x\<lparr>ended_at := Some now\<rparr>"]
        ids_ok_change_event [OF Cons.prems(1)]
      by (simp add: m'_def close_gone_def ke)
  qed (use Cons.prems(1) in \<open>auto simp: m'_def close_gone_def ke\<close>)
  have k': "k' \<notin> fst ` set ob" using Cons.prems(2) by (simp add: ke)
  have "open_of i m' = [x]" if "(i, x) \<in> set ob" "map_of cur i = None" for i x
    using one Cons.prems(3) [of i x] that k' by (auto simp: image_iff)
  then have ih: "ids_ok (foldl (close_gone now cur) m' ob) \<and> report_row (foldl (close_gone now cur) m' ob) = report_row m' \<and>
    set (closed_rows m') \<subseteq> set (closed_rows (foldl (close_gone now cur) m' ob)) \<and>
    open_of k (foldl (close_gone now cur) m' ob) = (if map_of cur k = None \<and> k \<in> fst ` set ob then [] else open_of k m') \<and>
    (\<forall>(k', e)\<in>set ob. map_of cur k' = None \<longrightarrow> e\<lparr>ended_at := Some now\<rparr> \<in> set (closed_rows (foldl (close_gone now cur) m' ob)))"
    using Cons.prems(2) one by (intro Cons.IH) auto
  have f: "foldl (close_gone now cur) m (ke # ob) = foldl (close_gone now cur) m' ob" by (simp add: m'_def)
  show ?case unfolding f using one ih k' by (auto simp: ke)
qed simp

lemma take_notices:
  assumes "ids_ok m"
  shows "ids_ok (foldl (take_notice now) m ns) \<and> report_row (foldl (take_notice now) m ns) = report_row m \<and>
    set (closed_rows m) \<subseteq> set (closed_rows (foldl (take_notice now) m ns)) \<and>
    open_of k (foldl (take_notice now) m ns) = open_of k m"
  using assms
proof (induction ns arbitrary: m)
  case (Cons n ns)
  have one: "ids_ok (take_notice now m n) \<and> report_row (take_notice now m n) = report_row m \<and>
    set (closed_rows m) \<subseteq> set (closed_rows (take_notice now m n)) \<and> open_of k (take_notice now m n) = open_of k m"
    using Cons.prems by (simp add: take_notice_def Let_def ids_ok_new_event open_of_new_event)
  with Cons.IH [of "take_notice now m n"] show ?case by auto
qed simp

lemma forget_old_simps:
  "ids_ok m \<Longrightarrow> ids_ok (forget_old now m)" "report_row (forget_old now m) = report_row m"
  "open_of k (forget_old now m) = open_of k m"
  "set (closed_rows (forget_old now m)) = {x \<in> set (closed_rows m). now - days KEEP_DAYS \<le> started_at x}"
  by (auto simp: ids_ok_def forget_old_def open_of_def closed_rows_def list_all_iff distinct_map_filter intro: filter_cong)


lemma open_dict_in:
  assumes "events_ok m" and "(i, x) \<in> set (dict_by me_key (open_rows m))"
  shows "open_of i m = [x] \<and> i \<noteq> SILENT_KEY"
  using map_of_open_dict [OF assms(1), of i] map_of_is_SomeI [OF distinct_dict_by assms(2)] events_ok_open [OF assms(1), of i]
  by (auto split: if_splits list.splits)

lemma open_dict_keys:
  assumes "events_ok m"
  shows "i \<in> fst ` set (dict_by me_key (open_rows m)) \<longleftrightarrow> i \<noteq> SILENT_KEY \<and> open_of i m \<noteq> []"
  using map_of_open_dict [OF assms, of i] map_of_eq_None_iff [of "dict_by me_key (open_rows m)" i]
  by (auto split: list.splits if_splits)

lemma open_dict_row:
  assumes "events_ok m" and "x \<in> set (open_rows m)"
  shows "(me_key x, x) \<in> set (dict_by me_key (open_rows m))"
proof -
  have "x \<in> set (open_of (me_key x) m)" "me_key x \<noteq> SILENT_KEY" using assms(2) by (auto simp: open_rows_def open_of_def)
  then have "map_of (dict_by me_key (open_rows m)) (me_key x) = Some x"
    using map_of_open_dict [OF assms(1), of "me_key x"] events_ok_open [OF assms(1), of "me_key x"]
    by (cases "open_of (me_key x) m") auto
  then show ?thesis by (rule map_of_SomeD)
qed

definition reported :: "report \<Rightarrow> string \<Rightarrow> problem option" where
  "reported r k = List.find (\<lambda>p. pb_key p = k) (rev (problems r))"

lemma receive_refused: "receive e a r now m = (Inl err, m') \<Longrightarrow> m' = m"
  by (auto simp: receive_def Let_def split: if_splits option.splits)

lemma receive_accepted:
  assumes run: "receive e a r now m = (Inr n, m')" and m: "events_ok m" and r: "reported r SILENT_KEY = None"
  shows "events_ok m'" and "report_row m' = Some (now, r)"
    and "case reported r k of
           Some p \<Rightarrow> \<exists>x. open_of k m' = [x] \<and> opened now m k p x
         | None \<Rightarrow> open_of k m' = (if k = SILENT_KEY then open_of k m else [])"
    and "x \<in> set (closed_rows m) \<Longrightarrow> now - days KEEP_DAYS \<le> started_at x \<Longrightarrow> x \<in> set (closed_rows m')"
    and "x \<in> set (open_rows m) \<Longrightarrow> reported r (me_key x) = None \<Longrightarrow> now - days KEEP_DAYS \<le> started_at x \<Longrightarrow>
           x\<lparr>ended_at := Some now\<rparr> \<in> set (closed_rows m')"
proof -
  define cur where "cur = dict_by pb_key (problems r)"
  define ob where "ob = dict_by me_key (open_rows m)"
  define m1 where "m1 = m\<lparr>report_row := Some (now, r)\<rparr>"
  define m2 where "m2 = foldl (open_problem now ob) m1 cur"
  define m3 where "m3 = foldl (close_gone now cur) m2 ob"
  define m4 where "m4 = foldl (take_notice now) m3 (rp_notices r)"
  have same: "open_rows m1 = open_rows m" "open_of i m1 = open_of i m" "closed_rows m1 = closed_rows m"
    "ids_ok m1 = ids_ok m" "report_row m1 = Some (now, r)" for i
    by (simp_all add: m1_def open_rows_def open_of_def closed_rows_def ids_ok_def)
  have m': "m' = forget_old now m4"
    using run by (auto simp: receive_def Let_def m4_def m3_def m2_def m1_def ob_def cur_def open_rows_def split: if_splits option.splits)
  have ok: "ids_ok m" using m by (simp add: events_ok_def)
  have cur: "map_of cur i = reported r i" for i by (simp add: cur_def map_of_dict_by reported_def)
  have dc: "distinct (map fst cur)" and dob: "distinct (map fst ob)" by (simp_all add: cur_def ob_def)
  have silent: "SILENT_KEY \<notin> fst ` set cur" using cur [of SILENT_KEY] r by (simp add: map_of_eq_None_iff)
  have two: "ids_ok m2 \<and> report_row m2 = report_row m1 \<and> set (closed_rows m1) \<subseteq> set (closed_rows m2) \<and>
    (case map_of cur i of None \<Rightarrow> open_of i m2 = open_of i m1 | Some p \<Rightarrow> \<exists>x. open_of i m2 = [x] \<and> opened now m i p x)" for i
    unfolding m2_def ob_def using ok same dc silent by (intro open_problems [OF m]) auto
  have three: "ids_ok m3 \<and> report_row m3 = report_row m2 \<and> set (closed_rows m2) \<subseteq> set (closed_rows m3) \<and>
    open_of i m3 = (if map_of cur i = None \<and> i \<in> fst ` set ob then [] else open_of i m2) \<and>
    (\<forall>(k', e)\<in>set ob. map_of cur k' = None \<longrightarrow> e\<lparr>ended_at := Some now\<rparr> \<in> set (closed_rows m3))" for i
    unfolding m3_def
  proof (rule close_gone_all [OF _ dob])
    show "ids_ok m2" using two by blast
    show "open_of j m2 = [x]" if "(j, x) \<in> set ob" "map_of cur j = None" for j x
      using two [of j] that open_dict_in [OF m that(1) [unfolded ob_def]] same by simp
  qed
  have four: "ids_ok m4 \<and> report_row m4 = report_row m3 \<and> set (closed_rows m3) \<subseteq> set (closed_rows m4) \<and> open_of i m4 = open_of i m3" for i
    unfolding m4_def using three by (intro take_notices) blast
  have op: "case reported r i of
           Some p \<Rightarrow> \<exists>x. open_of i m' = [x] \<and> opened now m i p x
         | None \<Rightarrow> open_of i m' = (if i = SILENT_KEY then open_of i m else [])" for i
  proof (cases "reported r i")
    case None
    then show ?thesis
      using open_dict_keys [OF m, of i, folded ob_def] two [of i] three [of i] four [of i] same by (auto simp: cur m' forget_old_simps)
  next
    case (Some p)
    then show ?thesis
      using two [of i] three [of i] four [of i] by (auto simp: cur m' forget_old_simps)
  qed
  then show "case reported r k of
           Some p \<Rightarrow> \<exists>x. open_of k m' = [x] \<and> opened now m k p x
         | None \<Rightarrow> open_of k m' = (if k = SILENT_KEY then open_of k m else [])" .
  show "report_row m' = Some (now, r)" using two three four same by (simp add: m' forget_old_simps)
  have closed: "set (closed_rows m) \<subseteq> set (closed_rows m4)" "set (closed_rows m3) \<subseteq> set (closed_rows m4)"
    using two [of k] three [of k] four [of k] by (auto simp: same(3))
  show "x \<in> set (closed_rows m')" if "x \<in> set (closed_rows m)" "now - days KEEP_DAYS \<le> started_at x"
    using closed that by (auto simp: m' forget_old_simps)
  show "x\<lparr>ended_at := Some now\<rparr> \<in> set (closed_rows m')"
    if "x \<in> set (open_rows m)" "reported r (me_key x) = None" "now - days KEEP_DAYS \<le> started_at x"
  proof -
    have "(me_key x, x) \<in> set ob" unfolding ob_def by (rule open_dict_row [OF m that(1)])
    then show ?thesis using three [of k] closed that by (auto simp: cur m' forget_old_simps)
  qed
  have "length (open_of i m') \<le> 1" for i
    using op [of i] events_ok_open [OF m, of i] by (auto split: option.splits if_splits)
  moreover have "ids_ok m'" using four by (simp add: m' forget_old_simps)
  ultimately show "events_ok m'" by (intro events_okI)
qed


subsection \<open>Lemmas on the watch\<close>

lemma silent_event_open: "silent_event m = (case open_of SILENT_KEY m of [] \<Rightarrow> None | x # _ \<Rightarrow> Some x)"
  by (simp add: silent_event_def open_of_def find_filter)

fun alternates :: "bool \<Rightarrow> alert list \<Rightarrow> bool" where
  "alternates b [] = True"
| "alternates b (MonitorSilent _ _ # as) = (\<not> b \<and> alternates True as)"
| "alternates b (MonitorBack _ _ _ # as) = (b \<and> alternates False as)"

lemma alternates_append_one:
  "alternates b (as @ [a]) \<longleftrightarrow>
     alternates b as \<and> (case a of MonitorSilent _ _ \<Rightarrow> b = odd (length as) | MonitorBack _ _ _ \<Rightarrow> b \<noteq> odd (length as))"
  by (induction b as rule: alternates.induct) (auto split: alert.splits)

lemma watch_effect:
  assumes "watch e now delivered m = (res, a, m')" and "events_ok m"
  shows "events_ok m' \<and> report_row m' = report_row m \<and>
    (a = None \<and> m' = m \<or>
     (\<exists>to lst. a = Some (MonitorSilent to lst) \<and> open_of SILENT_KEY m = [] \<and> open_of SILENT_KEY m' \<noteq> []) \<or>
     (\<exists>to lst gap. a = Some (MonitorBack to lst gap) \<and> open_of SILENT_KEY m \<noteq> [] \<and> open_of SILENT_KEY m' = []))"
proof -
  have ids: "ids_ok m" using assms(2) by (simp add: events_ok_def)
  have one: "open_of SILENT_KEY m = [] \<or> (\<exists>ev. open_of SILENT_KEY m = [ev])"
    using events_ok_open [OF assms(2), of SILENT_KEY] by (cases "open_of SILENT_KEY m") auto
  have "m' = m \<and> a = None \<or>
    (\<exists>to lst. a = Some (MonitorSilent to lst) \<and> open_of SILENT_KEY m = [] \<and> m' = new_event SILENT_KEY ''bad'' [] lst None m) \<or>
    (\<exists>to lst gap ev. a = Some (MonitorBack to lst gap) \<and> open_of SILENT_KEY m = [ev] \<and>
       m' = change_event ev (\<lambda>x. x\<lparr>ended_at := Some now\<rparr>) m)"
    using assms(1) one by (auto simp: watch_def silent_event_open split: option.splits if_splits)
  then consider (same) "m' = m" "a = None"
    | (silent) to lst where "a = Some (MonitorSilent to lst)" "open_of SILENT_KEY m = []" "m' = new_event SILENT_KEY ''bad'' [] lst None m"
    | (restored) to lst gap ev where "a = Some (MonitorBack to lst gap)" "open_of SILENT_KEY m = [ev]"
        "m' = change_event ev (\<lambda>x. x\<lparr>ended_at := Some now\<rparr>) m"
    by blast
  then show ?thesis
  proof cases
    case silent
    have "length (open_of k m') \<le> 1" for k
      using events_ok_open [OF assms(2), of k] silent(2) by (auto simp: silent(3) open_of_new_event)
    with silent ids show ?thesis by (auto simp: open_of_new_event ids_ok_new_event intro: events_okI)
  next
    case restored
    have o: "open_of k m' = (if k = SILENT_KEY then [] else open_of k m)" for k
      using open_of_change_event [OF ids restored(2), where f = "\<lambda>x. x\<lparr>ended_at := Some now\<rparr>"] by (simp add: restored(3))
    have "events_ok m'"
      using events_ok_open [OF assms(2)] ids_ok_change_event [OF ids] o by (intro events_okI) (auto simp: restored(3))
    with restored o show ?thesis by auto
  qed (use assms(2) in simp)
qed

text \<open>Reports and checks in any order, and the letters that went out.\<close>

definition no_reports :: monitor_db where
  "no_reports = \<lparr>report_row = None, me_rows = [], next_event = 1\<rparr>"

inductive watched :: "env \<Rightarrow> monitor_db \<Rightarrow> alert list \<Rightarrow> bool" for e where
  unwatched: "watched e no_reports []"
| after_report: "watched e m log \<Longrightarrow> reported r SILENT_KEY = None \<Longrightarrow> receive e a r now m = (res, m') \<Longrightarrow> watched e m' log"
| after_check: "watched e m log \<Longrightarrow> watch e now delivered m = (res, a, m') \<Longrightarrow>
    watched e m' (log @ (case a of None \<Rightarrow> [] | Some x \<Rightarrow> [x]))"

lemma watched_ok: "watched e m log \<Longrightarrow> events_ok m \<and> alternates False log \<and> (open_of SILENT_KEY m \<noteq> [] \<longleftrightarrow> odd (length log))"
proof (induction rule: watched.induct)
  case unwatched
  show ?case by (simp add: no_reports_def events_ok_def ids_ok_def open_of_def)
next
  case (after_report m log r a now res m')
  show ?case
  proof (cases res)
    case (Inl err)
    then show ?thesis using receive_refused after_report by blast
  next
    case (Inr n)
    note run = after_report.hyps(3) [unfolded Inr]
    show ?thesis
      using receive_accepted(1) [OF run _ after_report.hyps(2)] receive_accepted(3) [OF run _ after_report.hyps(2), of SILENT_KEY]
        after_report by auto
  qed
next
  case (after_check m log now delivered res a m')
  then show ?case
    using watch_effect [OF after_check.hyps(2)] by (auto simp: alternates_append_one)
qed


subsection \<open>The monitor's reports\<close>

lemma reported_None: "reported r k = None \<longleftrightarrow> k \<notin> pb_key ` set (problems r)"
  by (auto simp: reported_def find_None_iff)

lemma build_report_problems:
  assumes "map_of (seen_problems st) k = Some s" and "cf \<le> seen_count s"
  shows "k \<in> pb_key ` set (problems (build_report fs probes st now cf))"
proof -
  have "(k, s) \<in> set (seen_problems st)" using assms(1) by (rule map_of_SomeD)
  with assms(2) show ?thesis by (force simp: build_report_def)
qed

lemma monitor_run_report:
  assumes "monitor_run fs found probes now cf r h delivered st = (rc, lines, rep, st')" and "rc = 0"
    and "map_of (seen_problems st') k = Some s" and "cf \<le> seen_count s"
  shows "k \<in> pb_key ` set (problems rep)"
proof -
  have "rep = build_report fs probes st' now cf"
    using assms(1,2) by (auto simp: monitor_run_def Let_def split: prod.splits if_splits)
  then show ?thesis using build_report_problems [OF assms(3,4)] by simp
qed

lemma monitor_run_fixed:
  assumes "monitor_runs cf r h st log" and "distinct (map fst found)"
    and "monitor_run fs found probes now cf r h delivered st = (rc, lines, rep, st')" and "Fixed k t d \<in> set lines"
  shows "map_of found k = None \<and> \<not> held_back probes k"
proof -
  let ?ps = "keep_open st probes found"
  note keep = keep_open_map_of [OF assms(2), of st probes k]
  have "Fixed k t d \<in> set (lines_about k lines)" using assms(4) by (simp add: lines_about_def)
  then have "Fixed k t d \<in> set (lines_about k (fst (step st ?ps now cf r)))"
    using monitor_run_cases [OF assms(3)] by auto
  then have "map_of ?ps k = None \<and> map_of (seen_problems st) k \<noteq> None"
    using lines_about_step [OF conjunct1 [OF keep], of st] monitor_runs_tell [OF assms(1)]
    by (auto simp: note_problem_def Let_def split: option.splits if_splits)
  then show ?thesis using keep by blast
qed

lemma watched_log: "watched e m log \<Longrightarrow> report_row m = None \<Longrightarrow> log = []"
proof (induction rule: watched.induct)
  case (after_report m log r a now res m')
  show ?case
  proof (cases res)
    case (Inl err)
    with receive_refused [OF after_report.hyps(3) [unfolded Inl]] after_report.IH after_report.prems show ?thesis by simp
  next
    case (Inr n)
    with receive_accepted(2) [OF after_report.hyps(3) [unfolded Inr] _ after_report.hyps(2)] watched_ok [OF after_report.hyps(1)]
      after_report.prems show ?thesis by simp
  qed
next
  case (after_check m log now delivered res a m')
  then show ?case using watch_effect [OF after_check.hyps(2)] watched_ok [OF after_check.hyps(1)]
    by (auto simp: watch_def)
qed simp

lemma watch_says:
  assumes "events_ok m" and "report_row m = Some (lst, r)"
  shows "silent_event (snd (snd (watch e now True m))) \<noteq> None \<longleftrightarrow> seconds STALE_AFTER_S < now - lst"
proof -
  have ids: "ids_ok m" using assms(1) by (simp add: events_ok_def)
  consider "open_of SILENT_KEY m = []" | ev where "open_of SILENT_KEY m = [ev]"
    using events_ok_open [OF assms(1), of SILENT_KEY] by (cases "open_of SILENT_KEY m") auto
  then show ?thesis
  proof cases
    case 1
    then show ?thesis by (simp add: watch_def assms(2) silent_event_open open_of_new_event)
  next
    case 2
    then show ?thesis
      using open_of_change_event [OF ids 2, where f = "\<lambda>x. x\<lparr>ended_at := Some now\<rparr>"]
      by (simp add: watch_def assms(2) silent_event_open)
  qed
qed

subsection \<open>The properties\<close>

text \<open>
  C12: What the monitor writes about a problem is in order, over any sequence of runs and whether
  or not messages got through: a problem is announced, repeated only while it is announced, and
  called over only then; it is called over only when the run did not find it and its host
  answered, so that a host that went silent is never reported as repaired; and after a run that
  saved its state the report for the portal lists every problem that is announced and not over.
\<close>

theorem problems_told_in_order:
  assumes "monitor_runs cf r h st log" and "distinct (map fst found)" and "0 < now"
    and "monitor_run fs found probes now cf r h delivered st = (rc, lines, rep, st')"
  shows "tells False (lines_about k (log @ lines)) = Some (is_told st' k) \<and>
    ((\<exists>t d. Fixed k t d \<in> set lines) \<longrightarrow> map_of found k = None \<and> \<not> held_back probes k) \<and>
    (rc = 0 \<and> is_told st' k \<longrightarrow> reported rep k \<noteq> None)"
proof -
  have st': "monitor_runs cf r h st' (log @ lines)" by (rule next_run [OF assms(1,4,2,3)])
  have "reported rep k \<noteq> None" if "rc = 0" "is_told st' k"
    using monitor_run_report [OF assms(4) that(1)] monitor_runs_tell [OF st'] that(2)
    by (auto simp: is_told_def reported_None split: option.splits)
  with monitor_runs_tell [OF st'] monitor_run_fixed [OF assms(1,2,4)] show ?thesis by blast
qed

text \<open>
  C13: After an accepted report the open events are exactly the reported problems: each has one
  open event with the words and the level of the report, which is the event that was open before,
  with its beginning, or a new one; every other open event is closed now, except the portal's own,
  which stays as it was.  Nothing that was closed changes, except that events older than ninety
  days are dropped.  A refused report changes nothing.
\<close>

theorem history_mirrors_report:
  assumes "receive e a r now m = (res, m')" and "events_ok m" and "reported r SILENT_KEY = None"
  shows "events_ok m' \<and>
    (case res of
       Inl _ \<Rightarrow> m' = m
     | Inr _ \<Rightarrow>
         report_row m' = Some (now, r) \<and>
         (\<forall>k. case reported r k of
                Some p \<Rightarrow> \<exists>x. open_of k m' = [x] \<and> opened now m k p x
              | None \<Rightarrow> open_of k m' = (if k = SILENT_KEY then open_of k m else [])) \<and>
         (\<forall>x. now - days KEEP_DAYS \<le> started_at x \<longrightarrow>
            (x \<in> set (closed_rows m) \<longrightarrow> x \<in> set (closed_rows m')) \<and>
            (x \<in> set (open_rows m) \<and> reported r (me_key x) = None \<longrightarrow>
               x\<lparr>ended_at := Some now\<rparr> \<in> set (closed_rows m'))))"
proof (cases res)
  case (Inl err)
  from receive_refused [OF assms(1) [unfolded Inl]] assms(2) Inl show ?thesis by simp
next
  case (Inr n)
  note acc = receive_accepted [OF assms(1) [unfolded Inr] assms(2,3)]
  show ?thesis unfolding Inr sum.case using acc by blast
qed



definition sample_found :: "(string \<times> string) list" where
  "sample_found = [(''entry:disk'', ''disk 90'')]"

definition sample_probes :: "(string \<times> probe) list" where
  "sample_probes = [(''entry'', Some (Some (hours 5))), (''exit'', None)]"

lemma sample_runs:
  "monitor_runs 2 (hours 6) (- 1) (snd (snd (snd (monitor_run [] sample_found sample_probes (minutes 1) 2 (hours 6) (- 1) True no_memory)))) []"
proof -
  have "monitor_run [] sample_found sample_probes (minutes 1) 2 (hours 6) (- 1) True no_memory =
    (0, [], fst (snd (snd (monitor_run [] sample_found sample_probes (minutes 1) 2 (hours 6) (- 1) True no_memory))),
     snd (snd (snd (monitor_run [] sample_found sample_probes (minutes 1) 2 (hours 6) (- 1) True no_memory))))"
    by code_simp
  from next_run [OF first_run this] show ?thesis by (simp add: sample_found_def minutes_def seconds_def)
qed

theorem problems_told_in_order_witness:
  "case monitor_run [] sample_found sample_probes (minutes 1) 2 (hours 6) (- 1) True no_memory of (_, _, _, st) \<Rightarrow>
   case monitor_run [] sample_found sample_probes (minutes 3) 2 (hours 6) (- 1) True st of (rc, lines, rep, st') \<Rightarrow>
     rc = 0 \<and> lines = [Broken ''entry:disk'' ''disk 90'' None] \<and>
     tells False (lines_about ''entry:disk'' ([] @ lines)) = Some True \<and> reported rep ''entry:disk'' \<noteq> None"
proof -
  let ?st = "snd (snd (snd (monitor_run [] sample_found sample_probes (minutes 1) 2 (hours 6) (- 1) True no_memory)))"
  let ?x = "monitor_run [] sample_found sample_probes (minutes 3) 2 (hours 6) (- 1) True ?st"
  have run: "monitor_run [] sample_found sample_probes (minutes 3) 2 (hours 6) (- 1) True ?st = (fst ?x, fst (snd ?x), fst (snd (snd ?x)), snd (snd (snd ?x)))"
    by simp
  have "distinct (map fst sample_found)" and "0 < minutes 3" by (simp_all add: sample_found_def minutes_def seconds_def)
  from problems_told_in_order [OF sample_runs this run, of "''entry:disk''"]
  have t: "tells False (lines_about ''entry:disk'' ([] @ fst (snd ?x))) = Some (is_told (snd (snd (snd ?x))) ''entry:disk'')"
    and r: "fst ?x = 0 \<Longrightarrow> is_told (snd (snd (snd ?x))) ''entry:disk'' \<Longrightarrow> reported (fst (snd (snd ?x))) ''entry:disk'' \<noteq> None"
    by blast+
  have "fst ?x = 0" "fst (snd ?x) = [Broken ''entry:disk'' ''disk 90'' None]" "is_told (snd (snd (snd ?x))) ''entry:disk''"
    by code_simp+
  with t r show ?thesis by (simp add: case_prod_unfold)
qed

definition monitor_env :: env where
  "monitor_env = (\<lambda>_. None)(''MONITOR_TOKEN'' := Some ''t0k'')"

definition sample_report :: report where
  "sample_report = \<lparr>sent_at = days 100, facts = [], hosts = sample_probes,
     problems = [\<lparr>pb_key = ''entry:disk'', pb_text = ''disk 91'', pb_level = ''warn'', pb_since = days 99\<rparr>], rp_notices = []\<rparr>"

definition sample_history :: monitor_db where
  "sample_history = \<lparr>report_row = None, me_rows =
     [\<lparr>me_id = 1, me_key = ''entry:disk'', me_level = ''warn'', me_text = ''disk 90'', started_at = days 98, ended_at = None\<rparr>,
      \<lparr>me_id = 2, me_key = ''exit:down'', me_level = ''bad'', me_text = ''down'', started_at = days 99, ended_at = None\<rparr>],
     next_event = 3\<rparr>"

theorem history_mirrors_report_witness:
  "case receive monitor_env (Some ''Bearer t0k'') sample_report (days 100) sample_history of (res, m') \<Rightarrow>
     res = Inr 1 \<and> events_ok m' \<and> report_row m' = Some (days 100, sample_report) \<and> open_of ''exit:down'' m' = []"
proof -
  let ?x = "receive monitor_env (Some ''Bearer t0k'') sample_report (days 100) sample_history"
  have run: "?x = (fst ?x, snd ?x)" by simp
  have ok: "events_ok sample_history" and none: "reported sample_report SILENT_KEY = None"
    and gone: "reported sample_report ''exit:down'' = None" "''exit:down'' \<noteq> SILENT_KEY" and res: "fst ?x = Inr 1"
    by code_simp+
  from history_mirrors_report [OF run ok none] have a: "events_ok (snd ?x)" "report_row (snd ?x) = Some (days 100, sample_report)"
    and o: "case reported sample_report ''exit:down'' of
              Some p \<Rightarrow> \<exists>x. open_of ''exit:down'' (snd ?x) = [x] \<and> opened (days 100) sample_history ''exit:down'' p x
            | None \<Rightarrow> open_of ''exit:down'' (snd ?x) = (if ''exit:down'' = SILENT_KEY then open_of ''exit:down'' sample_history else [])"
    unfolding res sum.case by blast+
  from a o gone res show ?thesis by (simp add: case_prod_unfold)
qed


end
