(* ===== verification/Spec2Isabelle.thy ===== *)
theory Spec2Isabelle
  imports Credit Trial Provisioner Subscriptions Payments Sessions Devices Accounts Signin Clientarea Portal Monitor Bot Peers
begin

text \<open>
  \<^bold>\<open>The portal of a VPN service\<close>

  The repository holds a web portal (\<open>src/pwa\<close>, Python: FastAPI, SQLAlchemy, Postgres), three
  shell wrappers on the entry nodes (\<open>src/infrastructure/wrappers\<close>), a monitor on a backup host
  (\<open>src/infrastructure/monitoring/sov_monitor.py\<close>), an Android client and operations files.  The
  portal sells subscriptions, puts a customer's devices as peers on the entry node of a location
  through \<open>ssh\<close>, and takes them off when the subscription ends.  This library models the portal's
  server, the wrappers and the decisions of the monitor.

  \<^bold>\<open>How the program is modelled\<close>

  \<^item> A table is a list of rows; a row is a record with the columns of its class in
    \<open>pwa/db/models.py\<close> (theory \<open>Models\<close>).  The record \<open>db\<close> holds all tables together with the tape
    that new identifiers are read from.  A session is a database and an outbox: letters and chat
    messages are values that name their template, recipient and parameters.
  \<^item> A handler is a function from its arguments, the instant it reads and the state to its answer
    and the new state.  An \<open>HTTPException\<close> is a value \<open>Inl\<close>; any other exception is \<open>Raised\<close>, and the
    state is then the one before the transaction, except for what was done on the nodes.
  \<^item> Instants and spans are integers in microseconds, amounts are integers in the currency's unit as
    in the code; both are unbounded in Python.  Texts are lists of bytes.
  \<^item> What is not in the repository is an argument: the record \<open>platform\<close> (environment, \<open>ssh\<close>, JSON
    decoding, encryption of keys), the record \<open>web\<close> (the payment gateways' answers and MD5), the record
    \<open>crypto\<close> (JWT, SHA-256, argon2), the random draws and the answers of Google and Telegram.  What the
    proofs rely on is named as a hypothesis (\<open>signs_tokens\<close> and others) or as a locale's assumption,
    and every such hypothesis is met by a concrete function in a witness.

  \<^bold>\<open>The theories\<close>

  \<^item> \<open>Prelude\<close>: Python's strings and integers, tables, shared lemmas and the collections \<open>py_simps\<close>
    and \<open>table_simps\<close>.  \<open>Json\<close>: decoded JSON values and \<open>json.dumps\<close>.  \<open>Calendar\<close>: ISO and
    Moscow-time renderings of instants.
  \<^item> \<open>Plans\<close> (\<open>pwa/config.py\<close>), \<open>Models\<close> (\<open>pwa/db/models.py\<close>), \<open>Locations\<close>
    (\<open>services/locations.py\<close>), \<open>Notify\<close> (\<open>services/notify.py\<close>, and the \<open>send_later\<close> of the mailer
    and of the bot).
  \<^item> \<open>Credit\<close> (\<open>services/credit.py\<close>): the ledger, promo and referral codes, the price of an order,
    the credit it spends, referral rewards.  Lemmas: amount, credit and discount add up and the order
    costs money; spends and rewards happen once; the hourly run extends each referrer by exactly the
    days that vested.
  \<^item> \<open>Trial\<close> (\<open>services/trial.py\<close>): who may have a trial; the normal form of an address.
  \<^item> \<open>Node\<close> (\<open>infrastructure/wrappers\<close>): quoting, the shell's splitting of a command line, the wrappers
    on an interface and its configuration file, and a node reached over a link that can break before
    or after the command ran.  The locale \<open>awg_tool\<close> states what the \<open>awg\<close> command does to its peer
    table; \<open>entry_node\<close> states what the portal relies on, and a \<open>sublocale\<close> shows that the wrappers
    provide it.  \<open>awg_tool\<close> is interpreted on a peer table.
  \<^item> \<open>Provisioner\<close> (\<open>services/provisioner.py\<close>): free addresses, adding and removing peers, issuing a
    device and \<open>activate_payment\<close>.  The locale \<open>provisioning\<close> extends \<open>entry_node\<close>; its lemmas relate
    device rows to peers and hold for the wrappers by a \<open>sublocale\<close>.
  \<^item> \<open>Subscriptions\<close> (\<open>services/subscriptions.py\<close>, \<open>expire_subscriptions.py\<close>): access gates and the two
    sweeps, with all their outcomes when a connection breaks.
  \<^item> \<open>Payments\<close> (\<open>api/payment.py\<close>, \<open>services/heleket.py\<close>, \<open>services/platega.py\<close>,
    \<open>api/admin_grant.py\<close>): opening orders, callbacks and webhooks, manual grants.
  \<^item> \<open>Ratelimit\<close> (\<open>services/ratelimit.py\<close>): the limiter.  The locale \<open>sliding_window\<close> states a window
    count and is interpreted on the code's queues, which refine a log that forgets nothing.
  \<^item> \<open>Sessions\<close> (\<open>auth/jwt.py\<close>, \<open>services/app_sessions.py\<close>, \<open>services/net.py\<close>, \<open>api/auth.py\<close>): tokens,
    app sessions, login, refresh and logout.
  \<^item> \<open>Devices\<close> (\<open>api/config.py\<close>, \<open>api/trial.py\<close>), \<open>Accounts\<close> (\<open>api/register.py\<close>,
    \<open>api/email_verify.py\<close>, \<open>api/password_reset.py\<close>), \<open>Signin\<close> (\<open>api/google_auth.py\<close> and the
    account side of \<open>api/telegram.py\<close>), \<open>Bot\<close> (its bot, and \<open>services/telegram.py\<close>), \<open>Clientarea\<close> (\<open>api/referral.py\<close>, \<open>api/admin_promo.py\<close>,
    \<open>api/notifications.py\<close>, \<open>api/support.py\<close>): the remaining endpoints.
  \<^item> \<open>Portal\<close>: all handlers that change these tables (the bot's updates included) as one step relation
    \<open>portal_step\<close> over the session and the nodes, its reachable states, and the invariants of all of them: unique accounts, device rows in
    order, and no device that is called revoked on a node.
  \<^item> \<open>Monitor\<close> (\<open>infrastructure/monitoring/sov_monitor.py\<close> from the found problems on,
    \<open>api/monitor.py\<close>, \<open>services/monitor_watch.py\<close>, \<open>pwa/monitor_watch.py\<close>): what the monitor
    remembers and tells, the history of problems, the dead man's switch.  The two tables they
    use are a state of their own.

  \<^item> \<open>Peers\<close> (\<open>services/net_manager.py\<close>, \<open>api/clients.py\<close>, \<open>tools/peer_reconcile.py\<close>): the peers of a
    node under the names the portal and the operator give them, and the comparison of a node with
    the database.

  \<^bold>\<open>Bounds\<close>

  Nothing runs on fuel.  Issuing a device tries ten addresses and a generated code is drawn at most ten
  times, as in the code; both loops are recursions over the attempts that are left, with the code's
  error when none succeeds.  All other loops are over finite tables and texts.

  \<^bold>\<open>Not modelled\<close>

  \<^item> Wording: the HTML of letters (\<open>services/mailer.py\<close>), the report in words
    (\<open>services/monitor_view.py\<close>), the texts of the bot (values of \<open>say\<close> and \<open>caption\<close> name
    them).  They are presentation in Russian text.
  \<^item> Measuring: \<open>host_problems\<close>, \<open>parse_probe\<close> and the web checks of the monitor compare floating
    point numbers of commands that are not in the repository; a run's problems are an argument.
  \<^item> Pages that only show the output of a command or a service (\<open>api/logs.py\<close>, \<open>api/analyze.py\<close>,
    \<open>api/android.py\<close>), the wiring in \<open>main.py\<close>, the migrations, the operator bot under
    \<open>monitoring/\<close>, the Android app, the pages, Ansible, and the archive.
  \<^item> Concurrency inside one process: a handler is one step.  Two requests that interleave between their
    database calls are not represented; the unique constraints that the code catches
    (\<open>IntegrityError\<close>) are.
\<close>

end
